(* ===== verification/Prelude.thy ===== *)
theory Prelude
  imports Main "HOL-Library.Word" "HOL-Library.Char_ord" "HOL-Library.List_Lexorder"
    "HOL-Library.Product_Lexorder"
begin

text \<open>
  Shared vocabulary of the development: the machine types of the Rust sources, results and
  panics as values, the closed-vocabulary contract behind every \<open>as_sql\<close>/\<open>from_sql\<close> pair, and
  the generic lemmas on lists, maps and step relations that the component theories rest on.
\<close>

section \<open>Machine types, results and panics\<close>

text \<open>
  A Rust \<open>u64\<close> whose arithmetic may wrap is a 64-bit word. Text is a list of bytes: a Rust
  \<open>String\<close> compares, searches and measures its UTF-8 bytes, which is what \<^typ>\<open>string\<close> with
  the lexicographic order of \<^verbatim>\<open>HOL-Library.List_Lexorder\<close> does.
\<close>

type_synonym u64 = "64 word"

text \<open>
  \<open>Result<T, E>\<close> is \<open>'e + 'a\<close> with \<^const>\<open>Inl\<close> the error. A Rust panic (an \<open>expect\<close> on an
  absent value, an \<open>unreachable!\<close>) is the value \<^const>\<open>None\<close> of an option type, so freedom from
  panics is a theorem and not an assumption.
\<close>

type_synonym ('e, 'a) result = "'e + 'a"

named_theorems wamn_simps \<open>defining equations that unfold one step of a component\<close>

section \<open>Lists\<close>

lemma count_list_eq_filter: "count_list xs x = length (filter (\<lambda>y. y = x) xs)"
  by (induction xs) auto

lemma find_distinct_image:
  assumes "distinct (map f xs)" "x \<in> set xs"
  shows "find (\<lambda>y. f y = f x) xs = Some x"
  using assms
proof (induction xs)
  case Nil
  then show ?case by simp
next
  case (Cons y ys)
  show ?case
  proof (cases "f y = f x")
    case True
    with Cons.prems have "y = x"
      by (metis distinct.simps(2) image_eqI list.set_map list.simps(9) set_ConsD)
    with True show ?thesis by simp
  next
    case False
    with Cons show ?thesis by auto
  qed
qed

lemma filter_sort_key:
  "filter P (sort_key f xs) = sort_key f (filter P xs)"
  by (rule filter_sort)

lemma find_append: "find P (xs @ ys) = (case find P xs of None \<Rightarrow> find P ys | Some x \<Rightarrow> Some x)"
  by (induction xs) auto

section \<open>Text\<close>

text \<open>Whether trimming leaves a text as it is, for ASCII white space.\<close>

definition trims_to_itself :: "string \<Rightarrow> bool" where
  "trims_to_itself s \<longleftrightarrow>
     (s = [] \<or> (of_char (hd s) :: nat) \<notin> {9, 10, 11, 12, 13, 32} \<and> (of_char (last s) :: nat) \<notin> {9, 10, 11, 12, 13, 32})"

text \<open>The texts before and after the first occurrence of a separator.\<close>

definition split_once :: "char \<Rightarrow> string \<Rightarrow> (string \<times> string) option" where
  "split_once c s =
     (case dropWhile (\<lambda>x. x \<noteq> c) s of [] \<Rightarrow> None | _ # rest \<Rightarrow> Some (takeWhile (\<lambda>x. x \<noteq> c) s, rest))"

lemma split_once_join: "c \<notin> set x \<Longrightarrow> split_once c (x @ c # y) = Some (x, y)"
proof -
  assume c: "c \<notin> set x"
  then have "dropWhile (\<lambda>z. z \<noteq> c) (x @ c # y) = c # y" "takeWhile (\<lambda>z. z \<noteq> c) (x @ c # y) = x"
    by (induction x) auto
  then show ?thesis by (simp add: split_once_def)
qed

text \<open>Decimal and hexadecimal digits, as \<^verbatim>\<open>{}\<close>, \<^verbatim>\<open>{:x}\<close> and \<^verbatim>\<open>{:X}\<close> format an unsigned integer.\<close>

definition digit_char :: "nat \<Rightarrow> char" where
  "digit_char d = char_of (48 + d)"

fun show_nat :: "nat \<Rightarrow> string" where
  "show_nat n = (if n < 10 then [digit_char n] else show_nat (n div 10) @ [digit_char (n mod 10)])"

declare show_nat.simps [simp del]

definition digit_value :: "char \<Rightarrow> nat" where
  "digit_value c = of_char c - 48"

definition is_digit :: "char \<Rightarrow> bool" where
  "is_digit c \<longleftrightarrow> 48 \<le> (of_char c :: nat) \<and> (of_char c :: nat) \<le> 57"

definition digits_value :: "string \<Rightarrow> nat" where
  "digits_value s = foldl (\<lambda>n c. 10 * n + digit_value c) 0 s"

lemma of_char_digit_char: "d < 10 \<Longrightarrow> (of_char (digit_char d) :: nat) = 48 + d"
  by (simp add: digit_char_def)

lemma digit_value_digit_char [simp]: "d < 10 \<Longrightarrow> digit_value (digit_char d) = d"
  by (simp add: digit_value_def of_char_digit_char)

lemma is_digit_digit_char [simp]: "d < 10 \<Longrightarrow> is_digit (digit_char d)"
  by (simp add: is_digit_def of_char_digit_char)

lemma digits_value_snoc: "digits_value (s @ [c]) = 10 * digits_value s + digit_value c"
  by (simp add: digits_value_def)

lemma digits_value_show_nat [simp]: "digits_value (show_nat n) = n"
proof (induction n rule: show_nat.induct)
  case (1 n)
  show ?case
  proof (cases "n < 10")
    case True
    then show ?thesis by (simp add: show_nat.simps [of n] digits_value_def)
  next
    case False
    with 1 show ?thesis by (simp add: show_nat.simps [of n] digits_value_snoc)
  qed
qed

lemma show_nat_inj: "show_nat m = show_nat n \<longleftrightarrow> m = n"
  by (metis digits_value_show_nat)

lemma show_nat_digits: "c \<in> set (show_nat n) \<Longrightarrow> is_digit c"
proof (induction n rule: show_nat.induct)
  case (1 n)
  then show ?case by (auto simp: show_nat.simps [of n] split: if_splits)
qed

lemma show_nat_nonempty [simp]: "show_nat n \<noteq> []"
  by (simp add: show_nat.simps [of n])

text \<open>Digit strings of one length are ordered as the numbers they spell.\<close>

lemma digits_value_Cons: "digits_value (c # s) = digit_value c * 10 ^ length s + digits_value s"
proof (induction s rule: rev_induct)
  case Nil
  then show ?case by (simp add: digits_value_def)
next
  case (snoc d s)
  then show ?case
    using digits_value_snoc [of "c # s" d] by (simp add: digits_value_snoc algebra_simps)
qed

lemma digit_value_le: "is_digit c \<Longrightarrow> digit_value c \<le> 9"
  by (auto simp: is_digit_def digit_value_def)

lemma digits_value_bound: "list_all is_digit s \<Longrightarrow> digits_value s < 10 ^ length s"
proof (induction s)
  case (Cons c s)
  then have "digit_value c * 10 ^ length s \<le> 9 * 10 ^ length s" "digits_value s < 10 ^ length s"
    using digit_value_le [of c] by (auto intro: mult_right_mono)
  then show ?case by (simp only: digits_value_Cons list.size power_Suc add_0_right add_Suc_right)
qed (simp add: digits_value_def)

lemma digit_less: "is_digit c \<Longrightarrow> is_digit d \<Longrightarrow> c < d \<longleftrightarrow> digit_value c < digit_value d"
  by (auto simp: is_digit_def digit_value_def less_char_def)

lemma digit_eq: "is_digit c \<Longrightarrow> is_digit d \<Longrightarrow> c = d \<longleftrightarrow> digit_value c = digit_value d"
  by (auto simp: is_digit_def digit_value_def) (metis (no_types) char_of_char le_add_diff_inverse)

lemma digits_order:
  assumes "length s = length t" "list_all is_digit s" "list_all is_digit t"
  shows "s < t \<longleftrightarrow> digits_value s < digits_value t"
  using assms
proof (induction s t rule: list_induct2)
  case (Cons c s d t)
  let ?p = "10 ^ length s :: nat"
  from Cons have b: "digits_value s < ?p" "digits_value t < ?p"
    by (auto dest: digits_value_bound)
  from Cons have dig: "is_digit c" "is_digit d" by auto
  consider "digit_value c < digit_value d" | "digit_value c = digit_value d" | "digit_value d < digit_value c"
    by linarith
  then show ?case
  proof cases
    case 1
    then have "Suc (digit_value c) * ?p \<le> digit_value d * ?p" by (intro mult_right_mono) auto
    with b 1 dig Cons show ?thesis by (simp add: digits_value_Cons digit_less)
  next
    case 2
    with dig have "c = d" by (simp add: digit_eq)
    with Cons show ?thesis by (simp add: digits_value_Cons)
  next
    case 3
    then have "Suc (digit_value d) * ?p \<le> digit_value c * ?p" by (intro mult_right_mono) auto
    with b 3 dig Cons show ?thesis by (auto simp: digits_value_Cons digit_less digit_eq)
  qed
qed simp

lemma show_nat_length: "n < 10 ^ k \<Longrightarrow> 0 < k \<Longrightarrow> length (show_nat n) \<le> k"
proof (induction n arbitrary: k rule: show_nat.induct)
  case (1 n)
  show ?case
  proof (cases "n < 10")
    case True
    with 1 show ?thesis by (simp add: show_nat.simps [of n])
  next
    case False
    with 1(2) have "k \<noteq> 1" by (intro notI) simp
    with 1(3) obtain j where k: "k = Suc j" "0 < j" by (metis One_nat_def Suc_pred neq0_conv)
    with 1(2) have "n div 10 < 10 ^ j" by (simp add: less_mult_imp_div_less mult.commute)
    from 1(1) [OF False this k(2)] show ?thesis by (simp add: show_nat.simps [of n] False k)
  qed
qed

lemma digits_value_zeros: "digits_value (replicate k (CHR ''0'') @ s) = digits_value s"
  by (induction k) (simp_all add: digits_value_Cons digit_value_def)

lemma append_less_cancel: "(xs @ ys < xs @ zs) = (ys < (zs :: string))"
  by (induction xs) simp_all

text \<open>
  \<^verbatim>\<open>{:?}\<close> of a string: quoted, with the escapes of \<^verbatim>\<open>str\<close>'s \<^verbatim>\<open>Debug\<close>. The bytes of a character
  outside ASCII are kept.
\<close>

definition hex_digit :: "nat \<Rightarrow> char" where
  "hex_digit d = (if d < 10 then char_of (48 + d) else char_of (87 + d))"

definition debug_char :: "char \<Rightarrow> string" where
  "debug_char c =
     (let n = of_char c :: nat in
      if n = 0 then [CHR 0x5C, CHR ''0'']
      else if n = 9 then [CHR 0x5C, CHR ''t'']
      else if n = 10 then [CHR 0x5C, CHR ''n'']
      else if n = 13 then [CHR 0x5C, CHR ''r'']
      else if n = 34 \<or> n = 92 then [CHR 0x5C, c]
      else if n < 32 \<or> n = 127 then
        [CHR 0x5C, CHR ''u'', CHR 0x7B] @ (if n < 16 then [] else [hex_digit (n div 16)])
          @ [hex_digit (n mod 16), CHR 0x7D]
      else [c])"

definition show_debug :: "string \<Rightarrow> string" where
  "show_debug s = [CHR 0x22] @ concat (map debug_char s) @ [CHR 0x22]"

section \<open>Closed vocabularies\<close>

text \<open>
  The persisted vocabularies of the repository all have one shape: an array \<open>ALL\<close> of the
  variants, a spelling function, and a parser that finds the first variant of \<open>ALL\<close> with the
  given spelling. The locale states what such a pair promises; every vocabulary of the model
  interprets it.
\<close>

definition find_spelling :: "'a list \<Rightarrow> ('a \<Rightarrow> string) \<Rightarrow> string \<Rightarrow> 'a option" where
  "find_spelling all spell s = find (\<lambda>v. spell v = s) all"

locale vocabulary =
  fixes all :: "'a list" and spell :: "'a \<Rightarrow> string" and parse :: "string \<Rightarrow> 'a option"
  assumes total: "v \<in> set all"
    and spell_distinct: "distinct (map spell all)"
    and parse_find: "parse s = find_spelling all spell s"
begin

lemma parse_spell: "parse (spell v) = Some v"
  using find_distinct_image [OF spell_distinct total]
  by (simp add: parse_find find_spelling_def)

lemma spell_inj: "spell v = spell w \<Longrightarrow> v = w"
  by (metis option.inject parse_spell)

lemma parse_Some: "parse s = Some v \<Longrightarrow> s = spell v"
  by (auto simp: parse_find find_spelling_def find_Some_iff)

lemma parse_iff: "parse s = Some v \<longleftrightarrow> s = spell v"
  using parse_Some parse_spell by blast

lemma parse_None: "parse s = None \<longleftrightarrow> (\<forall>v. s \<noteq> spell v)"
  by (metis not_Some_eq parse_iff)

end

section \<open>Step relations\<close>

text \<open>
  A safety property of a machine is proved for its start state and for one step, and then holds
  in every state the machine reaches.
\<close>

lemma rtranclp_invariant:
  assumes "R\<^sup>*\<^sup>* s t" and "I s" and "\<And>x y. R x y \<Longrightarrow> I x \<Longrightarrow> I y"
  shows "I t"
  using assms(1,2) by (induction rule: rtranclp_induct) (auto intro: assms(3))

end
