(* ===== verification/Float64.thy ===== *)
theory Float64
  imports Prelude Complex_Main "HOL-Library.Log_Nat"
begin

text \<open>
  The binary64 arithmetic that the retry backoff uses (\<^verbatim>\<open>crates/execution/workflow/router/src/retry.rs\<close>):
  conversion from integers, multiplication, integer powers, and the conversions of
  \<^verbatim>\<open>std::time::Duration\<close>. A finite value is the rational it denotes; every operation rounds its
  exact result to 53 significant bits, ties to even. The code only multiplies and raises values
  that are at least one millisecond, so no subnormal value and no NaN arises; overflow is
  \<open>Inf\<close>.
\<close>

datatype f64 = Fin rat | Inf

section \<open>Rounding\<close>

definition round_half_even :: "rat \<Rightarrow> int" where
  "round_half_even r =
     (let n = \<lfloor>r\<rfloor>; d = r - of_int n
      in if d < 1/2 then n else if 1/2 < d then n + 1 else if even n then n else n + 1)"

definition pow2 :: "int \<Rightarrow> rat" where
  "pow2 e = (if 0 \<le> e then 2 ^ nat e else 1 / 2 ^ nat (- e))"

text \<open>The exponent of the last of 53 significant bits of a positive rational.\<close>

definition ulp_exponent :: "rat \<Rightarrow> int" where
  "ulp_exponent r =
     (let (p, q) = quotient_of r;
          e = int (floorlog 2 (nat p)) - int (floorlog 2 (nat q)) - 53
      in if pow2 53 \<le> r / pow2 e then e + 1 else e)"

definition f64_round :: "rat \<Rightarrow> f64" where
  "f64_round r =
     (if r = 0 then Fin 0
      else let e = ulp_exponent \<bar>r\<bar>;
               m = of_int (round_half_even (\<bar>r\<bar> / pow2 e)) * pow2 e
           in if pow2 1024 \<le> m then Inf else Fin (if r < 0 then - m else m))"

section \<open>Operations\<close>

fun f64_mul :: "f64 \<Rightarrow> f64 \<Rightarrow> f64" where
  "f64_mul (Fin a) (Fin b) = f64_round (a * b)"
| "f64_mul _ _ = Inf"

fun f64_add :: "f64 \<Rightarrow> f64 \<Rightarrow> f64" where
  "f64_add (Fin a) (Fin b) = f64_round (a + b)"
| "f64_add _ _ = Inf"

fun f64_div :: "f64 \<Rightarrow> rat \<Rightarrow> f64" where
  "f64_div (Fin a) b = f64_round (a / b)"
| "f64_div Inf b = Inf"

fun f64_ge_one :: "f64 \<Rightarrow> bool" where
  "f64_ge_one (Fin a) = (1 \<le> a)"
| "f64_ge_one Inf = True"

text \<open>
  \<^verbatim>\<open>f64::powi\<close> by repeated squaring, as the compiler runtime computes it; Rust leaves its last
  bits to the platform.
\<close>

fun f64_powi_loop :: "f64 \<Rightarrow> nat \<Rightarrow> f64 \<Rightarrow> f64" where
  "f64_powi_loop a n acc =
     (let acc' = (if odd n then f64_mul acc a else acc)
      in if n < 2 then acc' else f64_powi_loop (f64_mul a a) (n div 2) acc')"

declare f64_powi_loop.simps [simp del]

definition f64_powi :: "f64 \<Rightarrow> nat \<Rightarrow> f64" where
  "f64_powi a n = f64_powi_loop a n (Fin 1)"

section \<open>Durations, in nanoseconds\<close>

definition duration_from_millis :: "nat \<Rightarrow> nat" where
  "duration_from_millis ms = ms * 1000000"

definition as_millis :: "nat \<Rightarrow> nat" where
  "as_millis ns = ns div 1000000"

definition as_secs_f64 :: "nat \<Rightarrow> f64" where
  "as_secs_f64 ns =
     f64_add (f64_round (of_nat (ns div 1000000000)))
             (f64_div (f64_round (of_nat (ns mod 1000000000))) 1000000000)"

text \<open>A number of seconds that is negative or does not fit 64 bits is refused.\<close>

fun try_from_secs_f64 :: "f64 \<Rightarrow> nat option" where
  "try_from_secs_f64 (Fin s) =
     (if s < 0 \<or> 2 ^ 64 \<le> s then None else Some (nat (round_half_even (s * 1000000000))))"
| "try_from_secs_f64 Inf = None"

end
