(* ===== verification/Json.thy ===== *)
theory Json
  imports Float64
begin

text \<open>
  JSON values as the sources read them (\<^verbatim>\<open>serde_json::Value\<close>). A number is an unsigned 64-bit
  integer, a negative integer or a float; an object is its list of members, one per key, looked
  up by key. The accessors return \<^const>\<open>None\<close> exactly where the Rust ones do.
\<close>

datatype jnum = PosInt u64 | NegInt int | Float f64

datatype json =
    JNull
  | JBool bool
  | JNumber jnum
  | JString string
  | JArray "json list"
  | JObject "(string \<times> json) list"

fun json_get :: "json \<Rightarrow> string \<Rightarrow> json option" where
  "json_get (JObject m) k = map_of m k"
| "json_get _ _ = None"

fun is_object :: "json \<Rightarrow> bool" where
  "is_object (JObject _) = True"
| "is_object _ = False"

fun as_u64 :: "json \<Rightarrow> u64 option" where
  "as_u64 (JNumber (PosInt n)) = Some n"
| "as_u64 _ = None"

fun as_f64 :: "json \<Rightarrow> f64 option" where
  "as_f64 (JNumber (PosInt n)) = Some (f64_round (of_nat (unat n)))"
| "as_f64 (JNumber (NegInt i)) = Some (f64_round (of_int i))"
| "as_f64 (JNumber (Float f)) = Some f"
| "as_f64 _ = None"

fun as_str :: "json \<Rightarrow> string option" where
  "as_str (JString s) = Some s"
| "as_str _ = None"

fun as_array :: "json \<Rightarrow> json list option" where
  "as_array (JArray xs) = Some xs"
| "as_array _ = None"

text \<open>Inserting a member keeps the place of an existing key.\<close>

fun members_insert :: "string \<Rightarrow> json \<Rightarrow> (string \<times> json) list \<Rightarrow> (string \<times> json) list" where
  "members_insert k v [] = [(k, v)]"
| "members_insert k v ((k', v') # m) = (if k = k' then (k, v) # m else (k', v') # members_insert k v m)"

lemma map_of_members_insert [simp]: "map_of (members_insert k v m) = (map_of m)(k \<mapsto> v)"
  by (induction m) (auto simp: fun_eq_iff)

lemma keys_members_insert [simp]: "fst ` set (members_insert k v m) = insert k (fst ` set m)"
  by (induction k v m rule: members_insert.induct) (simp_all add: insert_commute)

lemma distinct_members_insert:
  "distinct (map fst m) \<Longrightarrow> distinct (map fst (members_insert k v m))"
  by (induction k v m rule: members_insert.induct) simp_all

text \<open>Every object of a well-formed value names each of its keys once.\<close>

fun json_wf :: "json \<Rightarrow> bool" where
  "json_wf (JArray xs) = list_all json_wf xs"
| "json_wf (JObject m) = (distinct (map fst m) \<and> list_all (\<lambda>kv. json_wf (snd kv)) m)"
| "json_wf _ = True"

end
