(* ===== verification/Router_Outcome.thy ===== *)
theory Router_Outcome
  imports Json
begin

text \<open>
  What a node invocation returns to the router and how it retries
  (\<^verbatim>\<open>crates/execution/workflow/router/src/outcome.rs\<close>, \<^verbatim>\<open>terminal.rs\<close> and \<^verbatim>\<open>retry.rs\<close>): the outcome
  taxonomy, the payload of an error edge, the terminals a node may declare, and the retry policy
  with its deterministic backoff.
\<close>

section \<open>Outcomes\<close>

definition MAIN_PORT :: string where "MAIN_PORT = ''main''"
definition ERROR_PORT :: string where "ERROR_PORT = ''error''"
definition DEDUP_ID_FIELD :: string where "DEDUP_ID_FIELD = ''dedup-id''"

record error_detail =
  ed_message :: string
  ed_code :: "string option"
  ed_data :: "json option"

record rate_limit_detail =
  rl_detail :: error_detail
  rl_retry_after_ms :: "u64 option"
  rl_target_host :: "string option"

datatype node_error =
    Retryable error_detail
  | RateLimited rate_limit_detail
  | Terminal error_detail
  | InvalidInput error_detail

datatype node_outcome =
    Success json string
  | Error node_error
  | Cancelled

definition ok :: "json \<Rightarrow> node_outcome" where
  "ok payload = Success payload MAIN_PORT"

definition ok_on :: "json \<Rightarrow> string \<Rightarrow> node_outcome" where
  "ok_on payload port = Success payload port"

definition msg :: "string \<Rightarrow> error_detail" where
  "msg message = \<lparr>ed_message = message, ed_code = None, ed_data = None\<rparr>"

definition coded :: "string \<Rightarrow> string \<Rightarrow> error_detail" where
  "coded code message = \<lparr>ed_message = message, ed_code = Some code, ed_data = None\<rparr>"

definition to_error_payload :: "error_detail \<Rightarrow> json" where
  "to_error_payload d =
     (let e0 = members_insert ''message'' (JString (ed_message d)) [];
          e1 = (case ed_code d of None \<Rightarrow> e0 | Some c \<Rightarrow> members_insert ''code'' (JString c) e0);
          e2 = (case ed_data d of None \<Rightarrow> e1 | Some v \<Rightarrow> members_insert ''data'' v e1)
      in JObject [(''error'', JObject e2)])"

text \<open>Whatever a failure carries can be read back from the payload sent down the error edge.\<close>

lemma to_error_payload_reads:
  "\<exists>e. json_get (to_error_payload d) ''error'' = Some e
     \<and> json_get e ''message'' = Some (JString (ed_message d))
     \<and> json_get e ''code'' = map_option JString (ed_code d)
     \<and> json_get e ''data'' = ed_data d"
  by (auto simp: to_error_payload_def Let_def split: option.splits)

section \<open>Terminals and verdicts\<close>

datatype op = Insert | Update | Delete

datatype terminal = Respond | Emit string op

datatype verdict =
    VRespond json string
  | VEmit json string string op string
  | VDiscard

section \<open>Retry policy\<close>

record retry_policy =
  max_attempts :: nat
  base_ms :: u64
  factor :: f64
  cap_ms :: u64

definition RETRY_DEFAULT :: retry_policy where
  "RETRY_DEFAULT = \<lparr>max_attempts = 3, base_ms = 100, factor = Fin 2, cap_ms = 30000\<rparr>"

definition CAP_MS_CEILING :: u64 where "CAP_MS_CEILING = 3600000"

text \<open>\<open>max_attempts\<close> is a \<open>u32\<close>: a larger number of the document saturates.\<close>

definition from_config :: "json \<Rightarrow> retry_policy" where
  "from_config config =
     (case json_get config ''retry'' of
        None \<Rightarrow> RETRY_DEFAULT
      | Some retry \<Rightarrow>
          if \<not> is_object retry then RETRY_DEFAULT
          else
            \<lparr>max_attempts = (case Option.bind (json_get retry ''max-attempts'') as_u64 of
                 None \<Rightarrow> max_attempts RETRY_DEFAULT
               | Some n \<Rightarrow> min (max (unat n) 1) (2 ^ 32 - 1)),
             base_ms = (case Option.bind (json_get retry ''base-ms'') as_u64 of
                 None \<Rightarrow> base_ms RETRY_DEFAULT | Some n \<Rightarrow> n),
             factor = (case Option.bind (json_get retry ''factor'') as_f64 of
                 None \<Rightarrow> factor RETRY_DEFAULT
               | Some f \<Rightarrow> if f64_ge_one f then f else factor RETRY_DEFAULT),
             cap_ms = (case Option.bind (json_get retry ''cap-ms'') as_u64 of
                 None \<Rightarrow> cap_ms RETRY_DEFAULT | Some n \<Rightarrow> min n CAP_MS_CEILING)\<rparr>)"

definition may_retry :: "retry_policy \<Rightarrow> nat \<Rightarrow> bool" where
  "may_retry p attempt \<longleftrightarrow> attempt + 1 < max (max_attempts p) 1"

text \<open>
  The exponent of \<open>powi\<close> is an \<open>i32\<close>, so an attempt past its range saturates. Durations that leave
  the representable range land on the cap.
\<close>

definition backoff_ms :: "retry_policy \<Rightarrow> nat \<Rightarrow> u64" where
  "backoff_ms p attempt =
     (if base_ms p = 0 then 0
      else
        let base = duration_from_millis (unat (base_ms p));
            cap = duration_from_millis (unat (cap_ms p));
            exponent = min attempt (2 ^ 31 - 1);
            scaled = (case try_from_secs_f64
                        (f64_mul (as_secs_f64 base) (f64_powi (factor p) exponent)) of
                        None \<Rightarrow> cap | Some d \<Rightarrow> d);
            ms = as_millis (min scaled cap)
        in if ms < 2 ^ 64 then of_nat ms else cap_ms p)"

record throttle_key =
  tk_component :: string
  tk_credential :: "string option"
  tk_host :: "string option"

definition retry_budget :: "json \<Rightarrow> nat" where
  "retry_budget config = max (max_attempts (from_config config)) 1"

lemma may_retry_budget: "may_retry (from_config c) a \<longleftrightarrow> a + 1 < retry_budget c"
  by (simp add: may_retry_def retry_budget_def)

lemma retry_budget_pos [simp]: "0 < retry_budget c"
  by (simp add: retry_budget_def)

lemma retry_budget_u32: "retry_budget c < 2 ^ 32"
  by (auto simp: retry_budget_def from_config_def RETRY_DEFAULT_def Let_def split: option.splits)

lemma backoff_ms_le_cap: "unat (backoff_ms p attempt) \<le> unat (cap_ms p)"
proof (cases "base_ms p = 0")
  case True
  then show ?thesis by (simp add: backoff_ms_def)
next
  case False
  define cap where "cap = duration_from_millis (unat (cap_ms p))"
  obtain scaled where eq: "backoff_ms p attempt =
      (let ms = as_millis (min scaled cap) in if ms < 2 ^ 64 then of_nat ms else cap_ms p)"
    using False unfolding backoff_ms_def cap_def Let_def by (simp only: if_False)
  define ms where "ms = as_millis (min scaled cap)"
  have "ms \<le> as_millis cap"
    by (simp add: ms_def as_millis_def div_le_mono)
  also have "\<dots> = unat (cap_ms p)"
    by (simp add: cap_def as_millis_def duration_from_millis_def)
  finally have "ms \<le> unat (cap_ms p)" .
  moreover have "unat (of_nat ms :: u64) \<le> ms"
    by (simp add: unat_of_nat)
  ultimately show ?thesis
    unfolding eq ms_def [symmetric] by (simp add: Let_def)
qed

lemma cap_ms_from_config: "unat (cap_ms (from_config c)) \<le> 3600000"
  by (auto simp: from_config_def RETRY_DEFAULT_def CAP_MS_CEILING_def word_le_nat_alt min_def
      split: option.splits)

end
