(* ===== verification/Router_Wiring.thy ===== *)
theory Router_Wiring
  imports Router_Outcome
begin

text \<open>
  The compiled wiring (\<^verbatim>\<open>crates/execution/workflow/router/src/wiring.rs\<close>): nodes and edges as the
  release carries them, \<open>Wiring::compile\<close> with its three refusals, and the lookups the walk makes.
\<close>

definition DEFAULT_HOP_LIMIT :: nat where "DEFAULT_HOP_LIMIT = 10000"

record wiring_node =
  wn_id :: string
  wn_component :: string
  wn_operation :: string
  wn_config :: json
  wn_connection :: "string option"
  wn_terminal :: "terminal option"

record wiring_edge =
  we_from :: string
  we_from_port :: string
  we_to :: string
  we_to_port :: string
  we_ordinal :: "nat option"

datatype wiring_error =
    DuplicateNode string
  | UnresolvedEntry string
  | UnresolvedEndpoint string string

record wiring =
  w_entry :: string
  w_by_id :: "string \<rightharpoonup> wiring_node"
  w_out :: "string \<rightharpoonup> wiring_edge list"
  w_hop_limit :: nat

fun index_nodes ::
    "(string \<rightharpoonup> wiring_node) \<Rightarrow> wiring_node list \<Rightarrow> (wiring_error, string \<rightharpoonup> wiring_node) result" where
  "index_nodes by_id [] = Inr by_id"
| "index_nodes by_id (n # ns) =
     (if by_id (wn_id n) \<noteq> None then Inl (DuplicateNode (wn_id n))
      else index_nodes (by_id(wn_id n \<mapsto> n)) ns)"

definition out_edges :: "(string \<rightharpoonup> wiring_edge list) \<Rightarrow> string \<Rightarrow> wiring_edge list" where
  "out_edges out n = (case out n of None \<Rightarrow> [] | Some es \<Rightarrow> es)"

fun index_edges ::
    "(string \<rightharpoonup> wiring_node) \<Rightarrow> (string \<rightharpoonup> wiring_edge list) \<Rightarrow> wiring_edge list
       \<Rightarrow> (wiring_error, string \<rightharpoonup> wiring_edge list) result" where
  "index_edges by_id out [] = Inr out"
| "index_edges by_id out (e # es) =
     (if by_id (we_from e) = None then Inl (UnresolvedEndpoint (we_from e) (we_from e))
      else if by_id (we_to e) = None then Inl (UnresolvedEndpoint (we_from e) (we_to e))
      else index_edges by_id (out(we_from e \<mapsto> out_edges out (we_from e) @ [e])) es)"

definition ordinal_key :: "wiring_edge \<Rightarrow> nat" where
  "ordinal_key e = (case we_ordinal e of None \<Rightarrow> 0 | Some n \<Rightarrow> n)"

definition compile :: "string \<Rightarrow> wiring_node list \<Rightarrow> wiring_edge list \<Rightarrow> (wiring_error, wiring) result" where
  "compile entry nodes edges =
     (case index_nodes Map.empty nodes of
        Inl e \<Rightarrow> Inl e
      | Inr by_id \<Rightarrow>
          if by_id entry = None then Inl (UnresolvedEntry entry)
          else (case index_edges by_id Map.empty edges of
                  Inl e \<Rightarrow> Inl e
                | Inr out \<Rightarrow>
                    Inr \<lparr>w_entry = entry, w_by_id = by_id,
                         w_out = (\<lambda>n. map_option (sort_key ordinal_key) (out n)),
                         w_hop_limit = DEFAULT_HOP_LIMIT\<rparr>))"

definition set_hop_limit :: "wiring \<Rightarrow> nat \<Rightarrow> wiring" where
  "set_hop_limit w limit = w\<lparr>w_hop_limit := limit\<rparr>"

definition w_node :: "wiring \<Rightarrow> string \<Rightarrow> wiring_node option" where
  "w_node w n = w_by_id w n"

definition successors :: "wiring \<Rightarrow> string \<Rightarrow> string \<Rightarrow> wiring_edge list" where
  "successors w n port = filter (\<lambda>e. we_from_port e = port) (out_edges (w_out w) n)"

section \<open>What compilation establishes\<close>

lemma index_nodes_Inr:
  "index_nodes m ns = Inr by_id \<Longrightarrow>
     by_id = m ++ map_of (map (\<lambda>n. (wn_id n, n)) (rev ns))
     \<and> distinct (map wn_id ns) \<and> wn_id ` set ns \<inter> dom m = {}"
proof (induction ns arbitrary: m)
  case Nil
  then show ?case by simp
next
  case (Cons n ns)
  from Cons.prems have new: "m (wn_id n) = None" and rest: "index_nodes (m(wn_id n \<mapsto> n)) ns = Inr by_id"
    by (auto split: if_splits)
  from Cons.IH [OF rest]
  have IH: "by_id = m(wn_id n \<mapsto> n) ++ map_of (map (\<lambda>n. (wn_id n, n)) (rev ns))"
      "distinct (map wn_id ns)" "wn_id ` set ns \<inter> dom (m(wn_id n \<mapsto> n)) = {}"
    by blast+
  have "map_of (map (\<lambda>n. (wn_id n, n)) (rev ns)) (wn_id n) = None"
    using IH(3) by (auto simp: map_of_eq_None_iff)
  with new IH show ?case
    by (auto simp: fun_eq_iff map_add_def split: option.splits)
qed

lemma index_nodes_total:
  "distinct (map wn_id ns) \<Longrightarrow> wn_id ` set ns \<inter> dom m = {} \<Longrightarrow> \<exists>by_id. index_nodes m ns = Inr by_id"
proof (induction ns arbitrary: m)
  case Nil
  then show ?case by simp
next
  case (Cons n ns)
  then have "wn_id ` set ns \<inter> dom (m(wn_id n \<mapsto> n)) = {}" by auto
  with Cons show ?case by auto
qed

lemma index_edges_Inr:
  "index_edges by_id out es = Inr out' \<Longrightarrow>
     out_edges out' n = out_edges out n @ filter (\<lambda>e. we_from e = n) es
     \<and> (\<forall>e\<in>set es. by_id (we_from e) \<noteq> None \<and> by_id (we_to e) \<noteq> None)"
  by (induction es arbitrary: out) (auto simp: out_edges_def split: if_splits)

lemma index_edges_total:
  "(\<forall>e\<in>set es. by_id (we_from e) \<noteq> None \<and> by_id (we_to e) \<noteq> None) \<Longrightarrow>
     \<exists>out'. index_edges by_id out es = Inr out'"
  by (induction es arbitrary: out) auto

lemma compile_Inr:
  assumes "compile entry nodes edges = Inr w"
  shows "w_entry w = entry" and "w_hop_limit w = DEFAULT_HOP_LIMIT"
    and "w_by_id w = map_of (map (\<lambda>n. (wn_id n, n)) (rev nodes))"
    and "distinct (map wn_id nodes)"
    and "w_by_id w entry \<noteq> None"
    and "\<And>e. e \<in> set edges \<Longrightarrow> w_by_id w (we_from e) \<noteq> None \<and> w_by_id w (we_to e) \<noteq> None"
    and "\<And>n. out_edges (w_out w) n = sort_key ordinal_key (filter (\<lambda>e. we_from e = n) edges)"
proof -
  from assms obtain by_id out where
    nodes: "index_nodes Map.empty nodes = Inr by_id" and entry: "by_id entry \<noteq> None"
    and edges: "index_edges by_id Map.empty edges = Inr out"
    and w: "w = \<lparr>w_entry = entry, w_by_id = by_id,
        w_out = (\<lambda>n. map_option (sort_key ordinal_key) (out n)), w_hop_limit = DEFAULT_HOP_LIMIT\<rparr>"
    by (auto simp: compile_def split: sum.splits if_splits)
  note N = index_nodes_Inr [OF nodes] and E = index_edges_Inr [OF edges]
  show "w_entry w = entry" "w_hop_limit w = DEFAULT_HOP_LIMIT" by (simp_all add: w)
  show "w_by_id w = map_of (map (\<lambda>n. (wn_id n, n)) (rev nodes))" "distinct (map wn_id nodes)"
    using N by (simp_all add: w)
  show "w_by_id w entry \<noteq> None" using entry by (simp add: w)
  show "\<And>e. e \<in> set edges \<Longrightarrow> w_by_id w (we_from e) \<noteq> None \<and> w_by_id w (we_to e) \<noteq> None"
    using E by (simp add: w)
  show "out_edges (w_out w) n = sort_key ordinal_key (filter (\<lambda>e. we_from e = n) edges)" for n
    using E [of n] by (cases "out n") (auto simp: w out_edges_def)
qed

lemma compile_total:
  assumes "distinct (map wn_id nodes)" and "entry \<in> wn_id ` set nodes"
    and "we_from ` set edges \<subseteq> wn_id ` set nodes" and "we_to ` set edges \<subseteq> wn_id ` set nodes"
  shows "\<exists>w. compile entry nodes edges = Inr w"
proof -
  from assms obtain by_id where by_id: "index_nodes Map.empty nodes = Inr by_id"
    using index_nodes_total [of nodes Map.empty] by auto
  with index_nodes_Inr [OF by_id] have dom: "by_id n \<noteq> None \<longleftrightarrow> n \<in> wn_id ` set nodes" for n
    by (auto simp: map_of_eq_None_iff image_image)
  with assms obtain out where "index_edges by_id Map.empty edges = Inr out"
    using index_edges_total [of edges by_id Map.empty] by blast
  with by_id dom [of entry] assms show ?thesis by (auto simp: compile_def)
qed

text \<open>The graph facts the walk relies on: the entry and every edge target resolve.\<close>

definition wiring_ok :: "wiring \<Rightarrow> bool" where
  "wiring_ok w \<longleftrightarrow> w_by_id w (w_entry w) \<noteq> None \<and>
     (\<forall>n port e. e \<in> set (successors w n port) \<longrightarrow> w_by_id w (we_to e) \<noteq> None)"

lemma compile_wiring_ok: "compile entry nodes edges = Inr w \<Longrightarrow> wiring_ok w"
  unfolding wiring_ok_def successors_def
  using compile_Inr(1,5,6,7) [of entry nodes edges w] by auto

lemma set_hop_limit_ok [simp]: "wiring_ok (set_hop_limit w l) = wiring_ok w"
  by (simp add: wiring_ok_def set_hop_limit_def successors_def)

lemma successors_resolve:
  "wiring_ok w \<Longrightarrow> e \<in> set (successors w n port) \<Longrightarrow> w_by_id w (we_to e) \<noteq> None"
  by (auto simp: wiring_ok_def)

section \<open>Properties\<close>

text \<open>
  A wiring compiles exactly when its node ids are distinct, its entry is one of them and both
  ends of every edge are; each refusal of \<open>compile\<close> is one of these failing.
\<close>

lemma compile_accepts:
  "(\<exists>w. compile entry nodes edges = Inr w) \<longleftrightarrow>
     distinct (map wn_id nodes) \<and> entry \<in> wn_id ` set nodes
     \<and> we_from ` set edges \<union> we_to ` set edges \<subseteq> wn_id ` set nodes"
proof
  assume "\<exists>w. compile entry nodes edges = Inr w"
  then obtain w where w: "compile entry nodes edges = Inr w" ..
  have dom: "w_by_id w n \<noteq> None \<longleftrightarrow> n \<in> wn_id ` set nodes" for n
    by (auto simp: compile_Inr(3) [OF w] map_of_eq_None_iff image_image)
  show "distinct (map wn_id nodes) \<and> entry \<in> wn_id ` set nodes
     \<and> we_from ` set edges \<union> we_to ` set edges \<subseteq> wn_id ` set nodes"
    using compile_Inr(4,5,6) [OF w] dom by blast
next
  assume "distinct (map wn_id nodes) \<and> entry \<in> wn_id ` set nodes
     \<and> we_from ` set edges \<union> we_to ` set edges \<subseteq> wn_id ` set nodes"
  then show "\<exists>w. compile entry nodes edges = Inr w" by (intro compile_total) auto
qed

text \<open>
  C34. The successors of a port are exactly its edges, each as often as the wiring lists it, in the
  order of their ordinals and, between equal ordinals, in the order the wiring lists them.
\<close>

theorem compile_successors:
  "compile entry nodes edges = Inr w \<Longrightarrow>
     successors w n port =
       sort_key ordinal_key (filter (\<lambda>e. we_from e = n \<and> we_from_port e = port) edges)"
  by (simp only: successors_def compile_Inr(7) filter_sort_key filter_filter)

theorem compile_successors_witness:
  "\<exists>w. compile ''a'' [\<lparr>wn_id = ''a'', wn_component = ''c'', wn_operation = ''o'', wn_config = JNull,
        wn_connection = None, wn_terminal = None\<rparr>]
      [\<lparr>we_from = ''a'', we_from_port = ''p'', we_to = ''a'', we_to_port = ''x'', we_ordinal = Some 2\<rparr>,
       \<lparr>we_from = ''a'', we_from_port = ''p'', we_to = ''a'', we_to_port = ''y'', we_ordinal = None\<rparr>] = Inr w
     \<and> map we_to_port (successors w ''a'' ''p'') = [''y'', ''x'']"
proof -
  let ?ns = "[\<lparr>wn_id = ''a'', wn_component = ''c'', wn_operation = ''o'', wn_config = JNull,
        wn_connection = None, wn_terminal = None\<rparr>]"
  let ?es = "[\<lparr>we_from = ''a'', we_from_port = ''p'', we_to = ''a'', we_to_port = ''x'', we_ordinal = Some 2\<rparr>,
       \<lparr>we_from = ''a'', we_from_port = ''p'', we_to = ''a'', we_to_port = ''y'', we_ordinal = None\<rparr>]"
  have "\<exists>w. compile ''a'' ?ns ?es = Inr w"
    by (rule compile_total) simp_all
  then obtain w where w: "compile ''a'' ?ns ?es = Inr w" ..
  from compile_successors [OF w, of "''a''" "''p''"] have "map we_to_port (successors w ''a'' ''p'') = [''y'', ''x'']"
    by (simp add: ordinal_key_def)
  with w show ?thesis by (intro exI [of _ w] conjI)
qed

end
