(* ===== verification/Router_Walk.thy ===== *)
theory Router_Walk
  imports Router_Wiring
begin

text \<open>
  The walk of one delivery over a compiled wiring
  (\<^verbatim>\<open>crates/execution/workflow/router/src/walk.rs\<close>): its state, \<open>start\<close>, \<open>next\<close> (here \<open>next_step\<close>),
  \<open>apply\<close> (here \<open>apply_outcome\<close>) and \<open>fail_on_node_data\<close>, with the helpers they call. The
  \<open>expect\<close> of \<open>build_call\<close> is the \<open>None\<close> of \<open>next_step\<close>. Counters are natural numbers; the lemmas
  bound each of them by the hop limit or by the retry budget, which fit the code's widths. Times
  are 64-bit words, so \<open>now_ms + delay\<close> wraps as the release build's addition does.
\<close>

section \<open>State\<close>

record delivery =
  dl_id :: string
  dl_payload :: json
  dl_caller_attached :: bool

datatype walk_status = Running | Completed | Failed | WalkCancelled

definition is_terminal :: "walk_status \<Rightarrow> bool" where
  "is_terminal s \<longleftrightarrow> s \<noteq> Running"

datatype failure_kind =
    KTerminal
  | KRetryExhausted
  | KInvalidInput
  | KHopLimit
  | KUnreleasedCaller
  | KMissingDedupId
  | KRespondWithoutCaller
  | KSecondVerdict

record failure =
  fl_node :: string
  fl_kind :: failure_kind
  fl_detail :: error_detail

record token =
  tok_node :: string
  tok_input_port :: "string option"
  tok_payload :: json

record active =
  ac_node :: string
  ac_input_port :: "string option"
  ac_payload :: json
  ac_attempt :: nat
  ac_retry_until_ms :: u64
  ac_throttle :: "throttle_key option"

record walk =
  wk_delivery_id :: string
  wk_status :: walk_status
  wk_frontier :: "token list"
  wk_current :: "active option"
  wk_step_seq :: nat
  wk_hops :: nat
  wk_visits :: "string \<rightharpoonup> nat"
  wk_result :: json
  wk_failure :: "failure option"
  wk_caller_attached :: bool
  wk_verdict :: "verdict option"

record node_call =
  nc_node :: string
  nc_input_port :: "string option"
  nc_component :: string
  nc_operation :: string
  nc_config :: json
  nc_connection :: "string option"
  nc_credential :: "string option"
  nc_payload :: json
  nc_attempt :: nat
  nc_occurrence :: nat
  nc_deadline_ms :: "u64 option"

datatype step =
    Invoke node_call
  | Wait string u64 nat "throttle_key option"
  | Done walk_status

datatype apply_error =
    AlreadyTerminal walk_status
  | NoActiveNode
  | MismatchedNode string string
  | RespondWithoutCaller string
  | SecondVerdict string

fun node_data_failure :: "apply_error \<Rightarrow> (failure_kind \<times> string) option" where
  "node_data_failure (RespondWithoutCaller _) = Some (KRespondWithoutCaller, ''respond-without-caller'')"
| "node_data_failure (SecondVerdict _) = Some (KSecondVerdict, ''second-verdict'')"
| "node_data_failure (AlreadyTerminal _) = None"
| "node_data_failure NoActiveNode = None"
| "node_data_failure (MismatchedNode _ _) = None"

fun show_status :: "walk_status \<Rightarrow> string" where
  "show_status Running = ''Running''"
| "show_status Completed = ''Completed''"
| "show_status Failed = ''Failed''"
| "show_status WalkCancelled = ''Cancelled''"

fun show_apply_error :: "apply_error \<Rightarrow> string" where
  "show_apply_error (AlreadyTerminal s) = ''walk is already terminal: '' @ show_status s"
| "show_apply_error NoActiveNode = ''walk has no active node''"
| "show_apply_error (MismatchedNode expected actual) =
     ''active node is '' @ show_debug expected @ '', not '' @ show_debug actual"
| "show_apply_error (RespondWithoutCaller node) =
     ''node '' @ show_debug node @ '' responds, but no caller is attached''"
| "show_apply_error (SecondVerdict node) =
     ''node '' @ show_debug node @ '' is a second terminal for this delivery''"

section \<open>Operations\<close>

definition start :: "wiring \<Rightarrow> delivery \<Rightarrow> walk" where
  "start w d =
     \<lparr>wk_delivery_id = dl_id d, wk_status = Running,
      wk_frontier = [\<lparr>tok_node = w_entry w, tok_input_port = None, tok_payload = dl_payload d\<rparr>],
      wk_current = None, wk_step_seq = 0, wk_hops = 0, wk_visits = Map.empty, wk_result = JNull,
      wk_failure = None, wk_caller_attached = dl_caller_attached d, wk_verdict = None\<rparr>"

definition visits_of :: "walk \<Rightarrow> string \<Rightarrow> nat" where
  "visits_of k n = (case wk_visits k n of None \<Rightarrow> 0 | Some v \<Rightarrow> v)"

definition count_visit :: "walk \<Rightarrow> string \<Rightarrow> walk" where
  "count_visit k n = k\<lparr>wk_visits := (wk_visits k)(n \<mapsto> visits_of k n + 1)\<rparr>"

definition settle :: "wiring \<Rightarrow> walk \<Rightarrow> walk_status \<times> walk" where
  "settle w k =
     (if wk_verdict k = None \<and> wk_caller_attached k then
        (Failed, k\<lparr>wk_status := Failed,
           wk_failure := Some \<lparr>fl_node = w_entry w, fl_kind = KUnreleasedCaller,
             fl_detail = coded ''unreleased-caller''
               ''frontier emptied with a caller attached and no respond''\<rparr>\<rparr>)
      else
        (Completed, k\<lparr>wk_verdict := Some (case wk_verdict k of None \<Rightarrow> VDiscard | Some v \<Rightarrow> v),
           wk_status := Completed\<rparr>))"

definition build_call :: "wiring \<Rightarrow> walk \<Rightarrow> active \<Rightarrow> node_call option" where
  "build_call w k a =
     (case w_node w (ac_node a) of
        None \<Rightarrow> None
      | Some node \<Rightarrow> Some
          \<lparr>nc_node = ac_node a, nc_input_port = ac_input_port a, nc_component = wn_component node,
           nc_operation = wn_operation node, nc_config = wn_config node,
           nc_connection = wn_connection node, nc_credential = None, nc_payload = ac_payload a,
           nc_attempt = ac_attempt a, nc_occurrence = visits_of k (ac_node a),
           nc_deadline_ms = Option.bind (json_get (wn_config node) ''deadline-ms'') as_u64\<rparr>)"

text \<open>\<open>promote\<close> is the first half of \<open>next\<close>: \<open>None\<close> when there is nothing left to activate.\<close>

definition promote :: "walk \<Rightarrow> (active \<times> walk) option" where
  "promote k =
     (case wk_current k of
        Some a \<Rightarrow> Some (a, k)
      | None \<Rightarrow>
          (case wk_frontier k of
             [] \<Rightarrow> None
           | tok # rest \<Rightarrow>
               let a = \<lparr>ac_node = tok_node tok, ac_input_port = tok_input_port tok,
                        ac_payload = tok_payload tok, ac_attempt = 0, ac_retry_until_ms = 0,
                        ac_throttle = None\<rparr>
               in Some (a, k\<lparr>wk_frontier := rest, wk_current := Some a\<rparr>)))"

definition hop_limit_failure :: "wiring \<Rightarrow> string \<Rightarrow> failure" where
  "hop_limit_failure w node =
     \<lparr>fl_node = node, fl_kind = KHopLimit,
      fl_detail = coded ''hop-limit''
        (''hop limit of '' @ show_nat (w_hop_limit w) @ '' spent without terminating'')\<rparr>"

definition next_step :: "wiring \<Rightarrow> walk \<Rightarrow> u64 \<Rightarrow> (step \<times> walk) option" where
  "next_step w k now_ms =
     (if is_terminal (wk_status k) then Some (Done (wk_status k), k)
      else
        (case promote k of
           None \<Rightarrow> (let (status, k') = settle w k in Some (Done status, k'))
         | Some (a, k1) \<Rightarrow>
             if now_ms < ac_retry_until_ms a then
               Some (Wait (ac_node a) (ac_retry_until_ms a) (ac_attempt a) (ac_throttle a), k1)
             else if w_hop_limit w \<le> wk_hops k1 then
               Some (Done Failed, k1\<lparr>wk_current := None, wk_status := Failed,
                 wk_failure := Some (hop_limit_failure w (ac_node a))\<rparr>)
             else
               (let k2 = k1\<lparr>wk_hops := wk_hops k1 + 1\<rparr> in
                case build_call w k2 a of None \<Rightarrow> None | Some call \<Rightarrow> Some (Invoke call, k2))))"

definition enqueue_successors :: "wiring \<Rightarrow> walk \<Rightarrow> string \<Rightarrow> string \<Rightarrow> json \<Rightarrow> walk" where
  "enqueue_successors w k node port payload =
     k\<lparr>wk_frontier := wk_frontier k @
         map (\<lambda>e. \<lparr>tok_node = we_to e, tok_input_port = Some (we_to_port e), tok_payload = payload\<rparr>)
           (successors w node port)\<rparr>"

definition route_error :: "wiring \<Rightarrow> walk \<Rightarrow> string \<Rightarrow> json \<Rightarrow> walk" where
  "route_error w k node payload =
     enqueue_successors w (count_visit (k\<lparr>wk_current := None\<rparr>) node) node ERROR_PORT payload"

definition error_or_fail :: "wiring \<Rightarrow> walk \<Rightarrow> string \<Rightarrow> error_detail \<Rightarrow> failure_kind \<Rightarrow> walk" where
  "error_or_fail w k node detail kind =
     (let k1 = k\<lparr>wk_current := None\<rparr> in
      if successors w node ERROR_PORT = [] then
        k1\<lparr>wk_status := Failed,
           wk_failure := Some \<lparr>fl_node = node, fl_kind = kind, fl_detail = detail\<rparr>\<rparr>
      else route_error w k1 node (to_error_payload detail))"

fun terminal_verdict ::
    "walk \<Rightarrow> string \<Rightarrow> terminal \<Rightarrow> json \<Rightarrow> (apply_error, verdict option) result" where
  "terminal_verdict k node Respond payload =
     (if wk_verdict k \<noteq> None then Inl (SecondVerdict node)
      else if \<not> wk_caller_attached k then Inl (RespondWithoutCaller node)
      else Inr (Some (VRespond payload node)))"
| "terminal_verdict k node (Emit entity operation) payload =
     (if wk_verdict k \<noteq> None then Inl (SecondVerdict node)
      else Inr (case Option.bind (json_get payload DEDUP_ID_FIELD) as_str of
                  None \<Rightarrow> None
                | Some i \<Rightarrow> if i = '''' then None else Some (VEmit payload i entity operation node)))"

definition schedule_retry :: "walk \<Rightarrow> u64 \<Rightarrow> throttle_key option \<Rightarrow> walk" where
  "schedule_retry k until_ms throttle =
     k\<lparr>wk_current := map_option (\<lambda>a. a\<lparr>ac_attempt := ac_attempt a + 1, ac_retry_until_ms := until_ms,
         ac_throttle := throttle\<rparr>) (wk_current k)\<rparr>"

definition advance :: "wiring \<Rightarrow> walk \<Rightarrow> string \<Rightarrow> json \<Rightarrow> string \<Rightarrow> verdict option \<Rightarrow> walk" where
  "advance w k node payload port verdict =
     (let k1 = count_visit (k\<lparr>wk_current := None, wk_step_seq := wk_step_seq k + 1\<rparr>) node;
          k2 = k1\<lparr>wk_result := payload\<rparr>;
          k3 = (if verdict \<noteq> None then k2\<lparr>wk_verdict := verdict\<rparr> else k2)
      in enqueue_successors w k3 node port payload)"

text \<open>The arm of a success: the verdict is decided first, so that a refusal changes nothing.\<close>

definition apply_success ::
    "wiring \<Rightarrow> walk \<Rightarrow> string \<Rightarrow> json \<Rightarrow> string \<Rightarrow> (apply_error, unit) result \<times> walk" where
  "apply_success w k node payload port =
     (case Option.bind (w_node w node) wn_terminal of
        None \<Rightarrow> (Inr (), advance w k node payload port None)
      | Some t \<Rightarrow>
          (case terminal_verdict k node t payload of
             Inl e \<Rightarrow> (Inl e, k)
           | Inr None \<Rightarrow>
               (Inr (), error_or_fail w k node
                  (coded ''missing-dedup-id'' (''emit node emitted no '' @ DEDUP_ID_FIELD @ '' string''))
                  KMissingDedupId)
           | Inr (Some v) \<Rightarrow> (Inr (), advance w k node payload port (Some v))))"

fun apply_node_error ::
    "wiring \<Rightarrow> walk \<Rightarrow> node_call \<Rightarrow> nat \<Rightarrow> node_error \<Rightarrow> u64 \<Rightarrow> walk" where
  "apply_node_error w k call attempt (Retryable detail) now_ms =
     (let policy = from_config (nc_config call) in
      if may_retry policy attempt then schedule_retry k (now_ms + backoff_ms policy attempt) None
      else error_or_fail w k (nc_node call) detail KRetryExhausted)"
| "apply_node_error w k call attempt (RateLimited rl) now_ms =
     (let policy = from_config (nc_config call) in
      if may_retry policy attempt then
        let delay = (case rl_retry_after_ms rl of None \<Rightarrow> backoff_ms policy attempt | Some d \<Rightarrow> d);
            key = \<lparr>tk_component = nc_component call, tk_credential = nc_credential call,
                   tk_host = rl_target_host rl\<rparr>
        in schedule_retry k (now_ms + delay) (Some key)
      else error_or_fail w k (nc_node call) (rl_detail rl) KRetryExhausted)"
| "apply_node_error w k call attempt (Terminal detail) now_ms =
     error_or_fail w k (nc_node call) detail KTerminal"
| "apply_node_error w k call attempt (InvalidInput detail) now_ms =
     error_or_fail w k (nc_node call) detail KInvalidInput"

definition apply_outcome ::
    "wiring \<Rightarrow> walk \<Rightarrow> node_call \<Rightarrow> node_outcome \<Rightarrow> u64 \<Rightarrow> (apply_error, unit) result \<times> walk" where
  "apply_outcome w k call outcome now_ms =
     (if is_terminal (wk_status k) then (Inl (AlreadyTerminal (wk_status k)), k)
      else
        (case wk_current k of
           None \<Rightarrow> (Inl NoActiveNode, k)
         | Some active \<Rightarrow>
             if ac_node active \<noteq> nc_node call then
               (Inl (MismatchedNode (ac_node active) (nc_node call)), k)
             else
               (case outcome of
                  Success payload port \<Rightarrow> apply_success w k (nc_node call) payload port
                | Error e \<Rightarrow> (Inr (), apply_node_error w k call (ac_attempt active) e now_ms)
                | Cancelled \<Rightarrow> (Inr (), k\<lparr>wk_current := None, wk_status := WalkCancelled\<rparr>))))"

definition fail_on_node_data ::
    "wiring \<Rightarrow> walk \<Rightarrow> string \<Rightarrow> apply_error \<Rightarrow> (apply_error, unit) result \<times> walk" where
  "fail_on_node_data w k node err =
     (case node_data_failure err of
        None \<Rightarrow> (Inl err, k)
      | Some (kind, code) \<Rightarrow>
          (Inr (), error_or_fail w k node (coded code (show_apply_error err)) kind))"

text \<open>
  What \<open>route\<close> does with an outcome: apply it, and fold a refusal that data caused into the walk.
  \<open>None\<close> is the panic of the \<open>expect\<close>.
\<close>

definition feed :: "wiring \<Rightarrow> walk \<Rightarrow> node_call \<Rightarrow> node_outcome \<Rightarrow> u64 \<Rightarrow> walk option" where
  "feed w k call outcome now_ms =
     (case apply_outcome w k call outcome now_ms of
        (Inr _, k') \<Rightarrow> Some k'
      | (Inl refused, k1) \<Rightarrow>
          (case fail_on_node_data w k1 (nc_node call) refused of
             (Inr _, k') \<Rightarrow> Some k'
           | (Inl _, _) \<Rightarrow> None))"

section \<open>What one answer does to the walk\<close>

definition handed_out :: "wiring \<Rightarrow> walk \<Rightarrow> node_call \<Rightarrow> bool" where
  "handed_out w k c \<longleftrightarrow> wk_status k = Running \<and>
     (case wk_current k of None \<Rightarrow> False | Some a \<Rightarrow> build_call w k a = Some c)"

lemma handed_outE:
  assumes "handed_out w k c"
  obtains a nd where "wk_status k = Running" "wk_current k = Some a" "w_by_id w (ac_node a) = Some nd"
    "nc_node c = ac_node a" "nc_config c = wn_config nd" "nc_attempt c = ac_attempt a"
    "nc_occurrence c = visits_of k (ac_node a)"
  using assms by (auto simp: handed_out_def build_call_def w_node_def split: option.splits)

fun failing_kind :: "node_outcome \<Rightarrow> failure_kind \<Rightarrow> bool" where
  "failing_kind (Success _ _) kind \<longleftrightarrow> kind \<in> {KMissingDedupId, KRespondWithoutCaller, KSecondVerdict}"
| "failing_kind (Error (Retryable _)) kind \<longleftrightarrow> kind = KRetryExhausted"
| "failing_kind (Error (RateLimited _)) kind \<longleftrightarrow> kind = KRetryExhausted"
| "failing_kind (Error (Terminal _)) kind \<longleftrightarrow> kind = KTerminal"
| "failing_kind (Error (InvalidInput _)) kind \<longleftrightarrow> kind = KInvalidInput"
| "failing_kind Cancelled kind \<longleftrightarrow> False"

fun retry_outcome :: "node_outcome \<Rightarrow> bool" where
  "retry_outcome (Error (Retryable _)) = True"
| "retry_outcome (Error (RateLimited _)) = True"
| "retry_outcome _ = False"

fun is_success :: "node_outcome \<Rightarrow> bool" where
  "is_success (Success _ _) = True"
| "is_success _ = False"

text \<open>
  Fed the outcome of the call it handed out, a walk never refuses: it advances, schedules a retry,
  takes the error route or fails, or is cancelled, and nothing else.
\<close>

inductive answered :: "wiring \<Rightarrow> walk \<Rightarrow> node_call \<Rightarrow> node_outcome \<Rightarrow> u64 \<Rightarrow> walk \<Rightarrow> bool" for w k c where
  advanced: "Option.bind (w_node w (nc_node c)) wn_terminal = None \<Longrightarrow>
    answered w k c (Success payload port) now (advance w k (nc_node c) payload port None)"
| concluded: "Option.bind (w_node w (nc_node c)) wn_terminal = Some t \<Longrightarrow>
    terminal_verdict k (nc_node c) t payload = Inr (Some v) \<Longrightarrow>
    answered w k c (Success payload port) now (advance w k (nc_node c) payload port (Some v))"
| retried: "retry_outcome out \<Longrightarrow> nc_attempt c + 1 < retry_budget (nc_config c) \<Longrightarrow>
    answered w k c out now (schedule_retry k until throttle)"
| erred: "failing_kind out kind \<Longrightarrow>
    retry_outcome out \<longrightarrow> \<not> nc_attempt c + 1 < retry_budget (nc_config c) \<Longrightarrow>
    is_success out \<longrightarrow> Option.bind (w_node w (nc_node c)) wn_terminal \<noteq> None \<Longrightarrow>
    answered w k c out now (error_or_fail w k (nc_node c) detail kind)"
| stopped: "answered w k c Cancelled now (k\<lparr>wk_current := None, wk_status := WalkCancelled\<rparr>)"

lemma terminal_verdict_Inl:
  "terminal_verdict k n t p = Inl e \<Longrightarrow> e = SecondVerdict n \<or> e = RespondWithoutCaller n"
  by (cases t) (auto split: if_splits)

lemma feed_answered:
  assumes "handed_out w k c"
  shows "\<exists>k'. feed w k c out now = Some k' \<and> answered w k c out now k'"
proof -
  from assms obtain a nd where run: "wk_status k = Running" "wk_current k = Some a"
    "ac_node a = nc_node c" "ac_attempt a = nc_attempt c" by (auto elim: handed_outE)
  show ?thesis
  proof (cases out)
    case (Success payload port)
    note ERRED = answered.erred [of "Success payload port" _ c w k now]
    show ?thesis
    proof (cases "Option.bind (w_node w (nc_node c)) wn_terminal")
      case None
      with Success run show ?thesis
        by (auto simp: feed_def apply_outcome_def is_terminal_def apply_success_def intro: advanced)
    next
      case (Some t)
      note step = feed_def apply_outcome_def is_terminal_def apply_success_def
      show ?thesis
      proof (cases "terminal_verdict k (nc_node c) t payload")
        case (Inl e)
        with terminal_verdict_Inl [OF this] Some Success run show ?thesis
          by (auto simp: step fail_on_node_data_def intro!: ERRED)
      next
        case (Inr v)
        with Some Success run show ?thesis
          by (cases v) (auto simp: step intro!: ERRED intro: concluded)
      qed
    qed
  next
    case (Error e)
    with run show ?thesis
      by (cases e)
        (auto simp: feed_def apply_outcome_def is_terminal_def Let_def may_retry_budget
           intro!: answered.erred retried)
  next
    case Cancelled
    with run show ?thesis
      by (auto simp: feed_def apply_outcome_def is_terminal_def intro: stopped)
  qed
qed

section \<open>The walk invariant\<close>

text \<open>\<open>running_on k n\<close> is 1 when the active node is \<open>n\<close>, \<open>in_flight k\<close> is 1 when any node is active.\<close>

definition running_on :: "walk \<Rightarrow> string \<Rightarrow> nat" where
  "running_on k n = (case wk_current k of None \<Rightarrow> 0 | Some a \<Rightarrow> if ac_node a = n then 1 else 0)"

definition in_flight :: "walk \<Rightarrow> nat" where
  "in_flight k = (case wk_current k of None \<Rightarrow> 0 | Some _ \<Rightarrow> 1)"

definition frontier_nodes :: "walk \<Rightarrow> string list" where
  "frontier_nodes k = map tok_node (wk_frontier k)"

text \<open>
  Every node the walk still has to run resolves and is within its budget; the counters stay below
  the hops handed out, and the hops below the limit.
\<close>

definition work_ok :: "wiring \<Rightarrow> walk \<Rightarrow> bool" where
  "work_ok w k \<longleftrightarrow>
     (\<forall>n \<in> set (frontier_nodes k). w_by_id w n \<noteq> None) \<and>
     (\<forall>a. wk_current k = Some a \<longrightarrow>
        (\<exists>nd. w_by_id w (ac_node a) = Some nd \<and> ac_attempt a < retry_budget (wn_config nd)))"

definition counters_ok :: "wiring \<Rightarrow> walk \<Rightarrow> bool" where
  "counters_ok w k \<longleftrightarrow>
     wk_hops k \<le> w_hop_limit w \<and> wk_step_seq k + in_flight k \<le> wk_hops k \<and>
     (\<forall>n. visits_of k n + running_on k n \<le> wk_hops k)"

text \<open>A failure is recorded exactly by a failed walk, and a verdict is one the delivery can carry.\<close>

definition ending_ok :: "walk \<Rightarrow> bool" where
  "ending_ok k \<longleftrightarrow>
     (wk_failure k \<noteq> None \<longleftrightarrow> wk_status k = Failed) \<and>
     (wk_status k \<noteq> Running \<longrightarrow> wk_current k = None) \<and>
     (wk_status k = Completed \<longrightarrow> wk_frontier k = [] \<and> wk_verdict k \<noteq> None) \<and>
     (\<forall>p n. wk_verdict k = Some (VRespond p n) \<longrightarrow> wk_caller_attached k) \<and>
     (wk_verdict k = Some VDiscard \<longrightarrow> wk_status k = Completed \<and> \<not> wk_caller_attached k)"

definition walk_inv :: "wiring \<Rightarrow> walk \<Rightarrow> bool" where
  "walk_inv w k \<longleftrightarrow> work_ok w k \<and> counters_ok w k \<and> ending_ok k"

lemmas walk_inv_defs = walk_inv_def work_ok_def counters_ok_def ending_ok_def

named_theorems walk_simps

lemma visits_of_simps [walk_simps]:
  "visits_of (k\<lparr>wk_current := cu\<rparr>) = visits_of k"
  "visits_of (k\<lparr>wk_status := st\<rparr>) = visits_of k"
  "visits_of (k\<lparr>wk_hops := h\<rparr>) = visits_of k"
  "visits_of (k\<lparr>wk_frontier := f\<rparr>) = visits_of k"
  "visits_of (k\<lparr>wk_failure := fa\<rparr>) = visits_of k"
  "visits_of (k\<lparr>wk_verdict := v\<rparr>) = visits_of k"
  "visits_of (k\<lparr>wk_result := r\<rparr>) = visits_of k"
  "visits_of (k\<lparr>wk_step_seq := q\<rparr>) = visits_of k"
  by (simp_all add: visits_of_def fun_eq_iff)

lemma visits_of_start [walk_simps]: "visits_of (start w d) n = 0"
  by (simp add: visits_of_def start_def)

lemma count_visit_simps [walk_simps]:
  "visits_of (count_visit k n) m = (if m = n then visits_of k m + 1 else visits_of k m)"
  "wk_current (count_visit k n) = wk_current k"
  "wk_frontier (count_visit k n) = wk_frontier k"
  "wk_status (count_visit k n) = wk_status k"
  "wk_hops (count_visit k n) = wk_hops k"
  "wk_step_seq (count_visit k n) = wk_step_seq k"
  "wk_failure (count_visit k n) = wk_failure k"
  "wk_verdict (count_visit k n) = wk_verdict k"
  "wk_caller_attached (count_visit k n) = wk_caller_attached k"
  "wk_delivery_id (count_visit k n) = wk_delivery_id k"
  "wk_result (count_visit k n) = wk_result k"
  by (simp_all add: count_visit_def visits_of_def)

lemma enqueue_simps [walk_simps]:
  "visits_of (enqueue_successors w k n p v) m = visits_of k m"
  "wk_current (enqueue_successors w k n p v) = wk_current k"
  "tok_node ` set (wk_frontier (enqueue_successors w k n p v)) =
     tok_node ` set (wk_frontier k) \<union> we_to ` set (successors w n p)"
  "frontier_nodes (enqueue_successors w k n p v) = frontier_nodes k @ map we_to (successors w n p)"
  "wk_status (enqueue_successors w k n p v) = wk_status k"
  "wk_hops (enqueue_successors w k n p v) = wk_hops k"
  "wk_step_seq (enqueue_successors w k n p v) = wk_step_seq k"
  "wk_failure (enqueue_successors w k n p v) = wk_failure k"
  "wk_verdict (enqueue_successors w k n p v) = wk_verdict k"
  "wk_caller_attached (enqueue_successors w k n p v) = wk_caller_attached k"
  "wk_delivery_id (enqueue_successors w k n p v) = wk_delivery_id k"
  "wk_result (enqueue_successors w k n p v) = wk_result k"
  by (simp_all add: enqueue_successors_def visits_of_def frontier_nodes_def image_Un image_image)

lemma frontier_nodes_simps [walk_simps]:
  "frontier_nodes (k\<lparr>wk_current := cu\<rparr>) = frontier_nodes k"
  "frontier_nodes (k\<lparr>wk_status := st\<rparr>) = frontier_nodes k"
  "frontier_nodes (k\<lparr>wk_hops := h\<rparr>) = frontier_nodes k"
  "frontier_nodes (k\<lparr>wk_failure := fa\<rparr>) = frontier_nodes k"
  "frontier_nodes (k\<lparr>wk_verdict := v\<rparr>) = frontier_nodes k"
  "frontier_nodes (k\<lparr>wk_result := r\<rparr>) = frontier_nodes k"
  "frontier_nodes (k\<lparr>wk_step_seq := q\<rparr>) = frontier_nodes k"
  "frontier_nodes (count_visit k n) = frontier_nodes k"
  "frontier_nodes (start w d) = [w_entry w]"
  by (simp_all add: frontier_nodes_def start_def count_visit_def)

text \<open>The three state changes an answer makes, field by field.\<close>

lemma advance_simps [walk_simps]:
  "visits_of (advance w k n p port v) m = visits_of k m + (if m = n then 1 else 0)"
  "wk_current (advance w k n p port v) = None"
  "frontier_nodes (advance w k n p port v) = frontier_nodes k @ map we_to (successors w n port)"
  "wk_status (advance w k n p port v) = wk_status k"
  "wk_hops (advance w k n p port v) = wk_hops k"
  "wk_step_seq (advance w k n p port v) = wk_step_seq k + 1"
  "wk_failure (advance w k n p port v) = wk_failure k"
  "wk_verdict (advance w k n p port v) = (if v \<noteq> None then v else wk_verdict k)"
  "wk_caller_attached (advance w k n p port v) = wk_caller_attached k"
  "wk_delivery_id (advance w k n p port v) = wk_delivery_id k"
  "wk_result (advance w k n p port v) = p"
  by (simp_all add: advance_def Let_def walk_simps)

lemma error_or_fail_simps [walk_simps]:
  "visits_of (error_or_fail w k n d kind) m =
     visits_of k m + (if m = n \<and> successors w n ERROR_PORT \<noteq> [] then 1 else 0)"
  "wk_current (error_or_fail w k n d kind) = None"
  "frontier_nodes (error_or_fail w k n d kind) =
     frontier_nodes k @ map we_to (successors w n ERROR_PORT)"
  "wk_status (error_or_fail w k n d kind) =
     (if successors w n ERROR_PORT = [] then Failed else wk_status k)"
  "wk_failure (error_or_fail w k n d kind) =
     (if successors w n ERROR_PORT = [] then Some \<lparr>fl_node = n, fl_kind = kind, fl_detail = d\<rparr>
      else wk_failure k)"
  "wk_hops (error_or_fail w k n d kind) = wk_hops k"
  "wk_step_seq (error_or_fail w k n d kind) = wk_step_seq k"
  "wk_verdict (error_or_fail w k n d kind) = wk_verdict k"
  "wk_caller_attached (error_or_fail w k n d kind) = wk_caller_attached k"
  "wk_delivery_id (error_or_fail w k n d kind) = wk_delivery_id k"
  "wk_result (error_or_fail w k n d kind) = wk_result k"
  by (simp_all add: error_or_fail_def route_error_def Let_def walk_simps)

lemma schedule_retry_simps [walk_simps]:
  "visits_of (schedule_retry k u t) = visits_of k"
  "frontier_nodes (schedule_retry k u t) = frontier_nodes k"
  "running_on (schedule_retry k u t) = running_on k"
  "in_flight (schedule_retry k u t) = in_flight k"
  "wk_status (schedule_retry k u t) = wk_status k"
  "wk_hops (schedule_retry k u t) = wk_hops k"
  "wk_step_seq (schedule_retry k u t) = wk_step_seq k"
  "wk_failure (schedule_retry k u t) = wk_failure k"
  "wk_verdict (schedule_retry k u t) = wk_verdict k"
  "wk_caller_attached (schedule_retry k u t) = wk_caller_attached k"
  "wk_frontier (schedule_retry k u t) = wk_frontier k"
  by (simp_all add: schedule_retry_def visits_of_def frontier_nodes_def running_on_def in_flight_def
      fun_eq_iff split: option.splits)

lemma frontier_nodes_Nil: "wk_frontier k = [] \<longleftrightarrow> frontier_nodes k = []"
  by (simp add: frontier_nodes_def)

section \<open>What one question does to the walk\<close>

definition fresh_active :: "token \<Rightarrow> active" where
  "fresh_active tok = \<lparr>ac_node = tok_node tok, ac_input_port = tok_input_port tok,
     ac_payload = tok_payload tok, ac_attempt = 0, ac_retry_until_ms = 0, ac_throttle = None\<rparr>"

inductive asked :: "wiring \<Rightarrow> walk \<Rightarrow> u64 \<Rightarrow> step \<Rightarrow> walk \<Rightarrow> bool" for w k now where
  over: "wk_status k \<noteq> Running \<Longrightarrow> asked w k now (Done (wk_status k)) k"
| unreleased: "wk_status k = Running \<Longrightarrow> wk_current k = None \<Longrightarrow> wk_frontier k = [] \<Longrightarrow>
    wk_verdict k = None \<Longrightarrow> wk_caller_attached k \<Longrightarrow>
    k' = k\<lparr>wk_status := Failed, wk_failure := Some fl\<rparr> \<Longrightarrow> fl_kind fl = KUnreleasedCaller \<Longrightarrow>
    asked w k now (Done Failed) k'"
| settled: "wk_status k = Running \<Longrightarrow> wk_current k = None \<Longrightarrow> wk_frontier k = [] \<Longrightarrow>
    wk_verdict k \<noteq> None \<or> \<not> wk_caller_attached k \<Longrightarrow>
    v = (case wk_verdict k of None \<Rightarrow> VDiscard | Some v \<Rightarrow> v) \<Longrightarrow>
    asked w k now (Done Completed) (k\<lparr>wk_verdict := Some v, wk_status := Completed\<rparr>)"
| waiting: "wk_status k = Running \<Longrightarrow> wk_current k = Some a \<Longrightarrow> now < ac_retry_until_ms a \<Longrightarrow>
    asked w k now (Wait (ac_node a) (ac_retry_until_ms a) (ac_attempt a) (ac_throttle a)) k"
| exhausted: "wk_status k = Running \<Longrightarrow> promote k = Some (a, k1) \<Longrightarrow> ac_retry_until_ms a \<le> now \<Longrightarrow>
    w_hop_limit w \<le> wk_hops k \<Longrightarrow>
    asked w k now (Done Failed)
      (k1\<lparr>wk_current := None, wk_status := Failed, wk_failure := Some (hop_limit_failure w (ac_node a))\<rparr>)"
| invoked: "wk_status k = Running \<Longrightarrow> promote k = Some (a, k1) \<Longrightarrow> ac_retry_until_ms a \<le> now \<Longrightarrow>
    wk_hops k < w_hop_limit w \<Longrightarrow> build_call w k1 a = Some c \<Longrightarrow>
    asked w k now (Invoke c) (k1\<lparr>wk_hops := Suc (wk_hops k)\<rparr>)"

lemma promoteE:
  assumes "promote k = Some (a, k1)"
  obtains (current) "wk_current k = Some a" "k1 = k"
  | (fresh) tok rest where "wk_current k = None" "wk_frontier k = tok # rest"
      "a = fresh_active tok" "k1 = k\<lparr>wk_frontier := rest, wk_current := Some (fresh_active tok)\<rparr>"
  using assms
  by (auto simp: promote_def fresh_active_def Let_def split: option.splits list.splits)

lemma promote_None: "promote k = None \<longleftrightarrow> wk_current k = None \<and> wk_frontier k = []"
  by (auto simp: promote_def Let_def split: option.splits list.splits)

lemma promote_keeps:
  "promote k = Some (a, k1) \<Longrightarrow>
     wk_hops k1 = wk_hops k \<and> wk_status k1 = wk_status k \<and> wk_step_seq k1 = wk_step_seq k \<and>
     visits_of k1 = visits_of k \<and> wk_failure k1 = wk_failure k \<and> wk_verdict k1 = wk_verdict k \<and>
     wk_caller_attached k1 = wk_caller_attached k \<and> wk_current k1 = Some a"
  by (auto elim!: promoteE simp: walk_simps)

lemma build_call_hops [simp]: "build_call w (k\<lparr>wk_hops := h\<rparr>) a = build_call w k a"
  by (simp add: build_call_def walk_simps split: option.splits)

lemma work_ok_promote:
  "work_ok w k \<Longrightarrow> promote k = Some (a, k1) \<Longrightarrow> work_ok w k1"
  by (auto simp: work_ok_def frontier_nodes_def fresh_active_def elim!: promoteE)

lemma work_ok_build_call:
  "work_ok w k \<Longrightarrow> promote k = Some (a, k1) \<Longrightarrow> \<exists>c. build_call w k1 a = Some c"
  using work_ok_promote [of w k a k1] promote_keeps [of k a k1]
  by (auto simp: work_ok_def build_call_def w_node_def split: option.splits)

text \<open>On a walk within the invariant \<open>next_step\<close> never panics, and does one of the above.\<close>

lemma next_step_asked:
  assumes "work_ok w k"
  shows "\<exists>st k'. next_step w k now = Some (st, k') \<and> asked w k now st k'"
proof (cases "wk_status k = Running")
  case False
  then show ?thesis by (auto simp: next_step_def is_terminal_def intro: over)
next
  case run: True
  show ?thesis
  proof (cases "promote k")
    case None
    then have idle: "wk_current k = None" "wk_frontier k = []" by (simp_all add: promote_None)
    show ?thesis
    proof (cases "wk_verdict k = None \<and> wk_caller_attached k")
      case True
      with None run idle show ?thesis
        by (auto simp: next_step_def is_terminal_def settle_def intro!: unreleased)
    next
      case False
      with None run idle show ?thesis
        by (auto simp: next_step_def is_terminal_def settle_def intro!: settled)
    qed
  next
    case (Some q)
    obtain a k1 where "q = (a, k1)" by (cases q)
    with Some have prom: "promote k = Some (a, k1)" by simp
    note keeps = promote_keeps [OF prom]
    obtain c where call: "build_call w k1 a = Some c"
      using work_ok_build_call [OF assms prom] by blast
    consider "now < ac_retry_until_ms a"
      | "\<not> now < ac_retry_until_ms a" "w_hop_limit w \<le> wk_hops k"
      | "\<not> now < ac_retry_until_ms a" "\<not> w_hop_limit w \<le> wk_hops k" by blast
    then show ?thesis
    proof cases
      case 1
      with prom have "wk_current k = Some a \<and> k1 = k" by (auto elim!: promoteE simp: fresh_active_def)
      with 1 prom run show ?thesis by (auto simp: next_step_def is_terminal_def intro: waiting)
    next
      case 2
      with prom run keeps show ?thesis
        by (auto simp: next_step_def is_terminal_def not_less intro!: exhausted)
    next
      case 3
      with prom run keeps call show ?thesis
        by (auto simp: next_step_def is_terminal_def not_less not_le Let_def intro!: invoked)
    qed
  qed
qed

lemma asked_next_step:
  "work_ok w k \<Longrightarrow> next_step w k now = Some (st, k') \<Longrightarrow> asked w k now st k'"
  using next_step_asked [of w k now] by auto

lemma answered_feed:
  "handed_out w k c \<Longrightarrow> feed w k c out now = Some k' \<Longrightarrow> answered w k c out now k'"
  using feed_answered [of w k c out now] by auto

section \<open>The invariant is kept\<close>

lemma start_inv: "wiring_ok w \<Longrightarrow> walk_inv w (start w d)"
  by (simp add: walk_inv_defs walk_simps running_on_def in_flight_def wiring_ok_def)
    (simp add: start_def)

lemma asked_work_ok: "asked w k now st k' \<Longrightarrow> work_ok w k \<Longrightarrow> work_ok w k'"
proof (induction rule: asked.induct)
  case (exhausted a k1)
  from work_ok_promote [OF exhausted(5,2)] show ?case by (simp add: work_ok_def walk_simps)
next
  case (invoked a k1 c)
  from work_ok_promote [OF invoked(6,2)] show ?case by (simp add: work_ok_def walk_simps)
qed (simp_all add: work_ok_def walk_simps)

lemma asked_counters_ok: "asked w k now st k' \<Longrightarrow> counters_ok w k \<Longrightarrow> counters_ok w k'"
proof (induction rule: asked.induct)
  case (invoked a k1 c)
  from invoked(2) show ?case
  proof (cases rule: promoteE)
    case current
    with invoked(4,6) show ?thesis
      by (simp add: counters_ok_def walk_simps running_on_def in_flight_def le_SucI)
  next
    case (fresh tok rest)
    with invoked(4,6) show ?thesis
      by (simp add: counters_ok_def walk_simps running_on_def in_flight_def le_SucI)
  qed
next
  case (exhausted a k1)
  from exhausted(2) show ?case
  proof (cases rule: promoteE)
    case current
    moreover from exhausted(5) have "visits_of k n \<le> wk_hops k" for n
      by (auto simp: counters_ok_def dest: add_leD1)
    ultimately show ?thesis using exhausted(5)
      by (simp add: counters_ok_def walk_simps running_on_def in_flight_def)
  next
    case (fresh tok rest)
    with exhausted(5) show ?thesis
      by (auto simp: counters_ok_def walk_simps running_on_def in_flight_def)
  qed
qed (auto simp: counters_ok_def walk_simps running_on_def in_flight_def)

lemma asked_ending_ok: "asked w k now st k' \<Longrightarrow> ending_ok k \<Longrightarrow> ending_ok k'"
  by (induction rule: asked.induct)
    (auto simp: ending_ok_def dest: promote_keeps split: option.splits)

lemma asked_inv: "asked w k now st k' \<Longrightarrow> walk_inv w k \<Longrightarrow> walk_inv w k'"
  by (simp add: walk_inv_def asked_work_ok asked_counters_ok asked_ending_ok)

lemma asked_handed_out: "asked w k now (Invoke c) k' \<Longrightarrow> handed_out w k' c"
  by (erule asked.cases) (auto simp: handed_out_def dest: promote_keeps)

lemma answered_work_ok:
  assumes "answered w k c out now k'" and "wiring_ok w" and "handed_out w k c" and "work_ok w k"
  shows "work_ok w k'"
  using assms(1)
proof (induction rule: answered.induct)
  case (retried out now until throttle)
  with assms(3,4) show ?case
    by (auto simp: work_ok_def walk_simps elim!: handed_outE) (auto simp: schedule_retry_def)
next
  case stopped
  with assms(4) show ?case by (simp add: work_ok_def walk_simps)
qed (use assms(4) successors_resolve [OF assms(2)] in
     \<open>auto simp: work_ok_def walk_simps\<close>)

lemma answered_counters_ok:
  assumes "answered w k c out now k'" and "handed_out w k c" and "counters_ok w k"
  shows "counters_ok w k'"
proof -
  from assms(2) obtain a where cur: "wk_current k = Some a" "nc_node c = ac_node a"
    by (auto elim: handed_outE)
  with assms(3) have bounds: "wk_hops k \<le> w_hop_limit w" "wk_step_seq k + 1 \<le> wk_hops k"
    "Suc (visits_of k (ac_node a)) \<le> wk_hops k" "\<And>n. visits_of k n \<le> wk_hops k"
    by (auto simp: counters_ok_def in_flight_def running_on_def dest: add_leD1 spec [of _ "ac_node a"])
  from assms(1) show ?thesis
  proof (induction rule: answered.induct)
    case retried
    then show ?case using assms(3) by (simp add: counters_ok_def walk_simps)
  qed (use bounds cur in \<open>simp_all add: counters_ok_def walk_simps running_on_def in_flight_def\<close>)
qed

lemma terminal_verdict_Some:
  "terminal_verdict k n t p = Inr (Some v) \<Longrightarrow>
     wk_verdict k = None \<and> v \<noteq> VDiscard \<and> (\<forall>p n. v = VRespond p n \<longrightarrow> wk_caller_attached k)"
  by (cases t) (auto split: if_splits option.splits)

lemma answered_ending_ok:
  assumes "answered w k c out now k'" and "handed_out w k c" and "ending_ok k"
  shows "ending_ok k'"
proof -
  from assms(2) have "wk_status k = Running" by (auto elim: handed_outE)
  with assms(1,3) show ?thesis
    by (induction rule: answered.induct)
      (auto simp: ending_ok_def walk_simps dest: terminal_verdict_Some)
qed

lemma answered_inv:
  "answered w k c out now k' \<Longrightarrow> wiring_ok w \<Longrightarrow> handed_out w k c \<Longrightarrow> walk_inv w k \<Longrightarrow> walk_inv w k'"
  by (simp add: walk_inv_def answered_work_ok answered_counters_ok answered_ending_ok)

end
