(* ===== verification/Router_Trace.thy ===== *)
theory Router_Trace
  imports Router_Walk
begin

text \<open>
  The walk invariants the repository checks at run time
  (\<^verbatim>\<open>crates/execution/workflow/router/src/invariants.rs\<close>): the trace a driver keeps beside a walk and
  the checkers WALK-1 to WALK-6. A violation carries the name of the invariant; its message, which
  nothing reads, is left out. The driver is the relation \<open>driven\<close>: it asks the walk for a step,
  records it, answers the call it was handed, and records the answer, at any clock readings and
  with any outcomes.
\<close>

section \<open>The trace\<close>

datatype call_outcome =
    OSuccess | ORetryable | ORateLimited | OTerminal | OInvalidInput | OCancelled

fun outcome_kind :: "node_outcome \<Rightarrow> call_outcome" where
  "outcome_kind (Success _ _) = OSuccess"
| "outcome_kind Cancelled = OCancelled"
| "outcome_kind (Error (Retryable _)) = ORetryable"
| "outcome_kind (Error (RateLimited _)) = ORateLimited"
| "outcome_kind (Error (Terminal _)) = OTerminal"
| "outcome_kind (Error (InvalidInput _)) = OInvalidInput"

record call =
  cl_node :: string
  cl_attempt :: nat
  cl_occurrence :: nat
  cl_outcome :: call_outcome

record walk_trace =
  tr_calls :: "call list"
  tr_arrivals :: "string \<rightharpoonup> nat"
  tr_waits :: "(u64 \<times> u64) list"
  tr_invokes_after_done :: nat

definition new_trace :: "wiring \<Rightarrow> walk_trace" where
  "new_trace w = \<lparr>tr_calls = [], tr_arrivals = [w_entry w \<mapsto> 1], tr_waits = [], tr_invokes_after_done = 0\<rparr>"

fun stepped :: "walk_trace \<Rightarrow> walk_status \<Rightarrow> step \<Rightarrow> u64 \<Rightarrow> walk_trace" where
  "stepped t before (Invoke _) now_ms =
     (if is_terminal before then t\<lparr>tr_invokes_after_done := tr_invokes_after_done t + 1\<rparr> else t)"
| "stepped t before (Wait _ until_ms _ _) now_ms = t\<lparr>tr_waits := tr_waits t @ [(now_ms, until_ms)]\<rparr>"
| "stepped t before (Done _) now_ms = t"

definition arrivals_of :: "walk_trace \<Rightarrow> string \<Rightarrow> nat" where
  "arrivals_of t n = (case tr_arrivals t n of None \<Rightarrow> 0 | Some v \<Rightarrow> v)"

definition arrive :: "walk_trace \<Rightarrow> wiring_edge \<Rightarrow> walk_trace" where
  "arrive t e = t\<lparr>tr_arrivals := (tr_arrivals t)(we_to e \<mapsto> arrivals_of t (we_to e) + 1)\<rparr>"

text \<open>The port an outcome is expected to leave on: \<open>None\<close> when nothing arrives anywhere.\<close>

fun arrival_port :: "node_call \<Rightarrow> node_outcome \<Rightarrow> string option" where
  "arrival_port c (Success _ port) = Some port"
| "arrival_port c Cancelled = None"
| "arrival_port c (Error (Retryable _)) =
     (if may_retry (from_config (nc_config c)) (nc_attempt c) then None else Some ERROR_PORT)"
| "arrival_port c (Error (RateLimited _)) =
     (if may_retry (from_config (nc_config c)) (nc_attempt c) then None else Some ERROR_PORT)"
| "arrival_port c (Error _) = Some ERROR_PORT"

definition applied :: "wiring \<Rightarrow> walk_trace \<Rightarrow> node_call \<Rightarrow> node_outcome \<Rightarrow> walk_trace" where
  "applied w t c out =
     (let t1 = t\<lparr>tr_calls := tr_calls t @
            [\<lparr>cl_node = nc_node c, cl_attempt = nc_attempt c, cl_occurrence = nc_occurrence c,
              cl_outcome = outcome_kind out\<rparr>]\<rparr>
      in case arrival_port c out of
           None \<Rightarrow> t1
         | Some port \<Rightarrow> foldl arrive t1 (successors w (nc_node c) port))"

section \<open>The checkers\<close>

datatype walk_invariant = WALK_1 | WALK_2 | WALK_3 | WALK_4 | WALK_5 | WALK_6

record walk_state =
  ws_wiring :: wiring
  ws_walk :: walk
  ws_trace :: walk_trace

definition walk_1_hop_limit :: "walk_state \<Rightarrow> (walk_invariant, unit) result" where
  "walk_1_hop_limit s =
     (let limit = w_hop_limit (ws_wiring s) in
      if limit < wk_hops (ws_walk s) then Inl WALK_1
      else if limit < length (tr_calls (ws_trace s)) then Inl WALK_1
      else Inr ())"

definition walk_2_no_invoke_after_done :: "walk_state \<Rightarrow> (walk_invariant, unit) result" where
  "walk_2_no_invoke_after_done s =
     (if 0 < tr_invokes_after_done (ws_trace s) then Inl WALK_2 else Inr ())"

fun started_visits :: "(string \<rightharpoonup> nat) \<Rightarrow> call list \<Rightarrow> (string \<rightharpoonup> nat)" where
  "started_visits m [] = m"
| "started_visits m (c # cs) =
     started_visits (m(cl_node c \<mapsto>
       max (case m (cl_node c) of None \<Rightarrow> 0 | Some v \<Rightarrow> v) (cl_occurrence c + 1))) cs"

definition walk_3_once_per_arriving_token :: "walk_state \<Rightarrow> (walk_invariant, unit) result" where
  "walk_3_once_per_arriving_token s =
     (let started = started_visits Map.empty (tr_calls (ws_trace s)) in
      if list_ex (\<lambda>n. arrivals_of (ws_trace s) n < (case started n of None \<Rightarrow> 0 | Some v \<Rightarrow> v))
           (sort (remdups (map cl_node (tr_calls (ws_trace s)))))
      then Inl WALK_3 else Inr ())"

definition node_budget :: "wiring \<Rightarrow> string \<Rightarrow> nat" where
  "node_budget w n =
     (case w_node w n of None \<Rightarrow> 1 | Some nd \<Rightarrow> max (max_attempts (from_config (wn_config nd))) 1)"

definition retry_kind :: "call_outcome \<Rightarrow> bool" where
  "retry_kind o1 \<longleftrightarrow> o1 = ORetryable \<or> o1 = ORateLimited"

definition bad_retry :: "call \<Rightarrow> call \<Rightarrow> bool" where
  "bad_retry previous nxt \<longleftrightarrow>
     cl_node previous = cl_node nxt \<and> cl_occurrence previous = cl_occurrence nxt
     \<and> cl_attempt nxt = cl_attempt previous + 1 \<and> \<not> retry_kind (cl_outcome previous)"

definition walk_4_retry_budget :: "walk_state \<Rightarrow> (walk_invariant, unit) result" where
  "walk_4_retry_budget s =
     (let calls = tr_calls (ws_trace s) in
      if list_ex (\<lambda>c. node_budget (ws_wiring s) (cl_node c) < cl_attempt c + 1) calls then Inl WALK_4
      else if list_ex (\<lambda>(p, n). bad_retry p n) (zip calls (tl calls)) then Inl WALK_4
      else Inr ())"

definition walk_5_wait_never_in_the_past :: "walk_state \<Rightarrow> (walk_invariant, unit) result" where
  "walk_5_wait_never_in_the_past s =
     (if list_ex (\<lambda>(asked_at, until_ms). until_ms < asked_at) (tr_waits (ws_trace s))
      then Inl WALK_5 else Inr ())"

definition walk_6_terminal_outcome_matches :: "walk_state \<Rightarrow> (walk_invariant, unit) result" where
  "walk_6_terminal_outcome_matches s =
     (let calls = tr_calls (ws_trace s); k = ws_walk s in
      if calls = [] then Inr ()
      else
        let l = last calls in
        if cl_outcome l \<noteq> OTerminal then Inr ()
        else if successors (ws_wiring s) (cl_node l) ERROR_PORT = [] then
          (case wk_failure k of
             Some f \<Rightarrow>
               if wk_status k = Failed \<and> fl_kind f = KTerminal \<and> fl_node f = cl_node l then Inr ()
               else Inl WALK_6
           | None \<Rightarrow> Inl WALK_6)
        else
          (case wk_failure k of
             None \<Rightarrow> Inr ()
           | Some f \<Rightarrow> if fl_kind f = KHopLimit then Inr () else Inl WALK_6))"

definition then_check :: "(walk_invariant, unit) result \<Rightarrow> (walk_invariant, unit) result \<Rightarrow> (walk_invariant, unit) result" where
  "then_check a b = (case a of Inl e \<Rightarrow> Inl e | Inr _ \<Rightarrow> b)"

definition check :: "walk_state \<Rightarrow> (walk_invariant, unit) result" where
  "check s =
     then_check (walk_1_hop_limit s)
    (then_check (walk_2_no_invoke_after_done s)
    (then_check (walk_3_once_per_arriving_token s)
    (then_check (walk_4_retry_budget s)
    (then_check (walk_5_wait_never_in_the_past s)
      (walk_6_terminal_outcome_matches s)))))"

section \<open>The driver\<close>

inductive driven :: "wiring \<Rightarrow> delivery \<Rightarrow> walk \<Rightarrow> walk_trace \<Rightarrow> node_call option \<Rightarrow> bool" for w d where
  begun: "driven w d (start w d) (new_trace w) None"
| ask: "driven w d k t None \<Longrightarrow> next_step w k now = Some (st, k') \<Longrightarrow>
    driven w d k' (stepped t (wk_status k) st now) (case st of Invoke c \<Rightarrow> Some c | _ \<Rightarrow> None)"
| answer: "driven w d k t (Some c) \<Longrightarrow> feed w k c out now = Some k' \<Longrightarrow>
    driven w d k' (applied w t c out) None"

definition observed :: "wiring \<Rightarrow> walk \<Rightarrow> walk_trace \<Rightarrow> walk_state" where
  "observed w k t = \<lparr>ws_wiring = w, ws_walk = k, ws_trace = t\<rparr>"

section \<open>Invariants of the driver\<close>

definition pending_ok :: "wiring \<Rightarrow> walk \<Rightarrow> node_call option \<Rightarrow> bool" where
  "pending_ok w k p \<longleftrightarrow> (case p of None \<Rightarrow> True | Some c \<Rightarrow> handed_out w k c)"

lemma driven_inv:
  assumes "driven w d k t p" and "wiring_ok w"
  shows "walk_inv w k \<and> pending_ok w k p"
  using assms(1)
proof (induction rule: driven.induct)
  case begun
  with assms(2) show ?case by (simp add: start_inv pending_ok_def)
next
  case (ask k t now st k')
  then have "asked w k now st k'" by (auto simp: walk_inv_def intro: asked_next_step)
  with ask show ?case
    by (auto simp: pending_ok_def asked_handed_out split: step.splits intro: asked_inv)
next
  case (answer k t c out now k')
  then have "answered w k c out now k'" by (simp add: pending_ok_def answered_feed)
  with answer assms(2) show ?case by (auto simp: pending_ok_def intro: answered_inv)
qed

text \<open>
  Rule induction in terms of \<open>asked\<close> and \<open>answered\<close>, with the walk invariant at hand in every step:
  the form the remaining invariants use.
\<close>

lemma driven_induct [consumes 2, case_names begun ask answer]:
  assumes "driven w d k t p" and "wiring_ok w"
    and begun: "P (start w d) (new_trace w) None"
    and ask: "\<And>k t now st k'. \<lbrakk>walk_inv w k; P k t None; asked w k now st k'\<rbrakk> \<Longrightarrow>
      P k' (stepped t (wk_status k) st now) (case st of Invoke c \<Rightarrow> Some c | _ \<Rightarrow> None)"
    and answer: "\<And>k t c out now k'. \<lbrakk>walk_inv w k; handed_out w k c; P k t (Some c);
      answered w k c out now k'\<rbrakk> \<Longrightarrow> P k' (applied w t c out) None"
  shows "P k t p"
  using assms(1)
proof (induction rule: driven.induct)
  case begun
  show ?case by (rule assms(3))
next
  case (ask k t now st k')
  from driven_inv [OF ask(1) assms(2)] ask show ?case
    by (auto simp: walk_inv_def intro!: assms(4) asked_next_step)
next
  case (answer k t c out now k')
  from driven_inv [OF answer(1) assms(2)] answer show ?case
    by (auto simp: pending_ok_def intro!: assms(5) answered_feed)
qed

subsection \<open>Effects on the trace\<close>

definition call_of :: "node_call \<Rightarrow> node_outcome \<Rightarrow> call" where
  "call_of c out = \<lparr>cl_node = nc_node c, cl_attempt = nc_attempt c, cl_occurrence = nc_occurrence c,
     cl_outcome = outcome_kind out\<rparr>"

named_theorems trace_simps

lemma arrive_simps [trace_simps]:
  "arrivals_of (arrive t e) n = arrivals_of t n + (if we_to e = n then 1 else 0)"
  "tr_calls (arrive t e) = tr_calls t" "tr_waits (arrive t e) = tr_waits t"
  "tr_invokes_after_done (arrive t e) = tr_invokes_after_done t"
  by (simp_all add: arrive_def arrivals_of_def)

lemma foldl_arrive_simps [trace_simps]:
  "arrivals_of (foldl arrive t es) n = arrivals_of t n + count_list (map we_to es) n"
  "tr_calls (foldl arrive t es) = tr_calls t" "tr_waits (foldl arrive t es) = tr_waits t"
  "tr_invokes_after_done (foldl arrive t es) = tr_invokes_after_done t"
  by (induction es arbitrary: t) (simp_all add: trace_simps)

lemma applied_simps [trace_simps]:
  "tr_calls (applied w t c out) = tr_calls t @ [call_of c out]"
  "tr_waits (applied w t c out) = tr_waits t"
  "tr_invokes_after_done (applied w t c out) = tr_invokes_after_done t"
  "arrivals_of (applied w t c out) n = arrivals_of t n +
     (case arrival_port c out of None \<Rightarrow> 0
      | Some port \<Rightarrow> count_list (map we_to (successors w (nc_node c) port)) n)"
  by (simp_all add: applied_def Let_def trace_simps call_of_def split: option.splits)
    (simp_all add: arrivals_of_def)

lemma stepped_simps [trace_simps]:
  "tr_calls (stepped t b st now) = tr_calls t"
  "arrivals_of (stepped t b st now) n = arrivals_of t n"
  by (cases st; simp add: arrivals_of_def)+

lemma new_trace_simps [trace_simps]:
  "tr_calls (new_trace w) = []" "tr_waits (new_trace w) = []"
  "tr_invokes_after_done (new_trace w) = 0"
  "arrivals_of (new_trace w) n = (if n = w_entry w then 1 else 0)"
  by (simp_all add: new_trace_def arrivals_of_def)

lemma retry_kind_outcome [simp]: "retry_kind (outcome_kind out) = retry_outcome out"
  by (cases out rule: outcome_kind.cases) (simp_all add: retry_kind_def)

lemma outcome_kind_OTerminal: "outcome_kind out = OTerminal \<longleftrightarrow> (\<exists>d. out = Error (Terminal d))"
  by (cases out rule: outcome_kind.cases) simp_all

subsection \<open>WALK-1 and WALK-2\<close>

lemma driven_calls:
  assumes "driven w d k t p" and "wiring_ok w"
  shows "length (tr_calls t) + (case p of None \<Rightarrow> 0 | Some _ \<Rightarrow> 1) = wk_hops k"
  using assms
proof (induction rule: driven_induct)
  case begun
  then show ?case by (simp add: trace_simps) (simp add: start_def)
next
  case (ask k t now st k')
  from ask.hyps(2) ask.IH show ?case
    by (cases rule: asked.cases) (auto simp: trace_simps dest: promote_keeps)
next
  case (answer k t c out now k')
  from answer.hyps(3) answer.IH show ?case
    by (cases rule: answered.cases) (simp_all add: trace_simps walk_simps)
qed

lemma driven_no_late_invoke:
  assumes "driven w d k t p" and "wiring_ok w"
  shows "tr_invokes_after_done t = 0"
  using assms
proof (induction rule: driven_induct)
  case (ask k t now st k')
  from ask.hyps(2) ask.IH show ?case by (cases rule: asked.cases) (simp_all add: is_terminal_def)
qed (simp_all add: trace_simps)

subsection \<open>WALK-4\<close>

lemma driven_budget:
  assumes "driven w d k t p" and "wiring_ok w"
  shows "\<forall>c \<in> set (tr_calls t). cl_attempt c < node_budget w (cl_node c)"
  using assms
proof (induction rule: driven_induct)
  case (answer k t c out now k')
  from answer.hyps(1,2) have "nc_attempt c < node_budget w (nc_node c)"
    by (auto simp: walk_inv_def work_ok_def node_budget_def w_node_def retry_budget_def
        elim!: handed_outE)
  with answer.IH show ?case by (simp add: trace_simps call_of_def)
qed (simp_all add: trace_simps)

lemma zip_tl_snoc:
  "zip (xs @ [x]) (tl (xs @ [x])) = (if xs = [] then [] else zip xs (tl xs) @ [(last xs, x)])"
proof (induction xs)
  case (Cons y ys)
  then show ?case by (cases ys) simp_all
qed simp

definition retries_ok :: "walk \<Rightarrow> call list \<Rightarrow> bool" where
  "retries_ok k calls \<longleftrightarrow>
     \<not> list_ex (\<lambda>(p, n). bad_retry p n) (zip calls (tl calls)) \<and>
     (\<forall>a. wk_current k = Some a \<longrightarrow> 0 < ac_attempt a \<longrightarrow> calls \<noteq> [] \<and> retry_kind (cl_outcome (last calls)))"

lemma driven_retries:
  assumes "driven w d k t p" and "wiring_ok w"
  shows "retries_ok k (tr_calls t)"
  using assms
proof (induction rule: driven_induct)
  case begun
  then show ?case by (simp add: retries_ok_def trace_simps) (simp add: start_def)
next
  case (ask k t now st k')
  from ask.hyps(2) ask.IH show ?case
    by (cases rule: asked.cases) (auto simp: retries_ok_def trace_simps fresh_active_def elim!: promoteE)
next
  case (answer k t c out now k')
  from answer.hyps(2) obtain a where a: "wk_current k = Some a" "nc_attempt c = ac_attempt a"
    by (auto elim: handed_outE)
  with answer.IH have "\<not> list_ex (\<lambda>(p, n). bad_retry p n)
      (zip (tr_calls t @ [call_of c out]) (tl (tr_calls t @ [call_of c out])))"
    by (auto simp: retries_ok_def zip_tl_snoc bad_retry_def call_of_def)
  with answer.hyps(3) show ?case
    by (cases rule: answered.cases)
      (auto simp: retries_ok_def trace_simps walk_simps call_of_def simp del: tl_append2)
qed

subsection \<open>WALK-5\<close>

lemma driven_waits:
  assumes "driven w d k t p" and "wiring_ok w"
  shows "\<forall>(asked_at, until_ms) \<in> set (tr_waits t). asked_at < until_ms"
  using assms
proof (induction rule: driven_induct)
  case (ask k t now st k')
  from ask.hyps(2) ask.IH show ?case by (cases rule: asked.cases) auto
qed (simp_all add: trace_simps)

subsection \<open>WALK-6\<close>

definition terminal_ok :: "wiring \<Rightarrow> walk \<Rightarrow> call list \<Rightarrow> bool" where
  "terminal_ok w k calls \<longleftrightarrow>
     (calls \<noteq> [] \<and> cl_outcome (last calls) = OTerminal \<longrightarrow>
        (if successors w (cl_node (last calls)) ERROR_PORT = [] then
           wk_status k = Failed \<and> (\<exists>f. wk_failure k = Some f \<and> fl_kind f = KTerminal
             \<and> fl_node f = cl_node (last calls))
         else
           (wk_failure k = None \<and> wk_status k = Running \<and> (wk_frontier k \<noteq> [] \<or> wk_current k \<noteq> None))
           \<or> (wk_status k = Failed \<and> (\<exists>f. wk_failure k = Some f \<and> fl_kind f = KHopLimit))))"

lemma driven_terminal:
  assumes "driven w d k t p" and "wiring_ok w"
  shows "terminal_ok w k (tr_calls t)"
  using assms
proof (induction rule: driven_induct)
  case begun
  then show ?case by (simp add: terminal_ok_def trace_simps)
next
  case (ask k t now st k')
  from ask.hyps(2) ask.IH show ?case
    by (cases rule: asked.cases)
      (auto simp: terminal_ok_def trace_simps hop_limit_failure_def dest: promote_keeps split: if_splits)
next
  case (answer k t c out now k')
  from answer.hyps(1,2) have "wk_failure k = None" "wk_status k = Running"
    by (auto simp: walk_inv_def ending_ok_def elim!: handed_outE)
  with answer.hyps(3) show ?case
    by (cases rule: answered.cases)
      (auto simp: terminal_ok_def trace_simps walk_simps call_of_def outcome_kind_OTerminal
         frontier_nodes_Nil)
qed

subsection \<open>WALK-3\<close>

text \<open>
  The trace counts the tokens a success is expected to send down its port. A node with a terminal
  can send them down the error port instead, so this one holds of wirings without terminals.
\<close>

definition terminal_free :: "wiring \<Rightarrow> bool" where
  "terminal_free w \<longleftrightarrow> (\<forall>n. Option.bind (w_node w n) wn_terminal = None)"

definition tokens_ok :: "walk \<Rightarrow> walk_trace \<Rightarrow> bool" where
  "tokens_ok k t \<longleftrightarrow>
     (\<forall>n. count_list (frontier_nodes k) n + running_on k n + visits_of k n \<le> arrivals_of t n) \<and>
     (\<forall>c \<in> set (tr_calls t). cl_occurrence c + 1 \<le> arrivals_of t (cl_node c))"

lemma asked_tokens:
  assumes "asked w k now st k'"
  shows "count_list (frontier_nodes k') n + running_on k' n + visits_of k' n
    \<le> count_list (frontier_nodes k) n + running_on k n + visits_of k n"
  using assms
proof (cases rule: asked.cases)
  case (exhausted a k1)
  from exhausted(4) show ?thesis
    by (cases rule: promoteE)
      (simp_all add: exhausted(2) running_on_def frontier_nodes_def walk_simps)
next
  case (invoked a k1 c)
  from invoked(4) show ?thesis
    by (cases rule: promoteE)
      (simp_all add: invoked(2) running_on_def frontier_nodes_def fresh_active_def walk_simps)
qed (simp_all add: running_on_def walk_simps)

lemma answered_tokens:
  assumes "answered w k c out now k'" and "handed_out w k c" and "terminal_free w"
  shows "count_list (frontier_nodes k') n + running_on k' n + visits_of k' n
    \<le> count_list (frontier_nodes k) n + running_on k n + visits_of k n +
      (case arrival_port c out of None \<Rightarrow> 0
       | Some port \<Rightarrow> count_list (map we_to (successors w (nc_node c) port)) n)"
proof -
  from assms(2) obtain a where a: "wk_current k = Some a" "ac_node a = nc_node c"
    by (auto elim: handed_outE)
  have free: "Option.bind (w_node w m) wn_terminal = None" for m
    using assms(3) by (simp add: terminal_free_def)
  from assms(1) show ?thesis
  proof (cases rule: answered.cases)
    case (erred kind detail)
    with free have "arrival_port c out = Some ERROR_PORT"
      by (cases out rule: outcome_kind.cases) (auto simp: may_retry_budget)
    with erred a show ?thesis by (simp add: running_on_def walk_simps)
  next
    case (retried until throttle)
    then show ?thesis by (simp add: walk_simps)
  qed (use a free in \<open>simp_all add: running_on_def walk_simps\<close>)
qed

lemma driven_tokens:
  assumes "driven w d k t p" and "wiring_ok w" and "terminal_free w"
  shows "tokens_ok k t"
  using assms(1,2)
proof (induction rule: driven_induct)
  case begun
  then show ?case by (simp add: tokens_ok_def trace_simps walk_simps running_on_def) (simp add: start_def)
next
  case (ask k t now st k')
  from ask.IH show ?case
    by (auto simp: tokens_ok_def trace_simps intro: order_trans [OF asked_tokens [OF ask.hyps(2)]])
next
  case (answer k t c out now k')
  from answer.IH have IH: "count_list (frontier_nodes k) n + running_on k n + visits_of k n \<le> arrivals_of t n"
    for n by (simp add: tokens_ok_def)
  from answer.hyps(2) have "nc_occurrence c + 1 \<le> running_on k (nc_node c) + visits_of k (nc_node c)"
    by (auto simp: running_on_def elim!: handed_outE)
  also have "\<dots> \<le> arrivals_of t (nc_node c)" using IH [of "nc_node c"] by simp
  finally show ?case
    using answer.IH answered_tokens [OF answer.hyps(3,2) assms(3)] IH
    by (auto simp: tokens_ok_def trace_simps call_of_def trans_le_add1
        intro: order_trans [OF _ add_right_mono])
qed

subsection \<open>The checkers hold\<close>

lemma started_visits_le:
  assumes "\<forall>c \<in> set cs. cl_occurrence c + 1 \<le> f (cl_node c)"
    and "\<forall>n. (case m n of None \<Rightarrow> 0 | Some v \<Rightarrow> v) \<le> f n"
  shows "(case started_visits m cs n of None \<Rightarrow> 0 | Some v \<Rightarrow> v) \<le> (f n :: nat)"
  using assms by (induction cs arbitrary: m) auto

lemma walk_3_ok: "tokens_ok k t \<Longrightarrow> walk_3_once_per_arriving_token (observed w k t) = Inr ()"
  using started_visits_le [of "tr_calls t" "arrivals_of t" Map.empty]
  by (auto simp: walk_3_once_per_arriving_token_def tokens_ok_def observed_def Let_def list_ex_iff not_less)

lemma walk_6_ok:
  "terminal_ok w k (tr_calls t) \<Longrightarrow> walk_6_terminal_outcome_matches (observed w k t) = Inr ()"
  by (auto simp: walk_6_terminal_outcome_matches_def terminal_ok_def observed_def Let_def
      split: if_splits option.splits)

lemma driven_check_but_3:
  assumes "driven w d k t p" and "wiring_ok w"
  shows "check (observed w k t) = walk_3_once_per_arriving_token (observed w k t)"
proof -
  let ?s = "observed w k t"
  from driven_inv [OF assms] have "wk_hops k \<le> w_hop_limit w"
    by (simp add: walk_inv_def counters_ok_def)
  with driven_calls [OF assms] have 1: "walk_1_hop_limit ?s = Inr ()"
    by (auto simp: walk_1_hop_limit_def observed_def Let_def)
  have 2: "walk_2_no_invoke_after_done ?s = Inr ()"
    using driven_no_late_invoke [OF assms] by (simp add: walk_2_no_invoke_after_done_def observed_def)
  have 4: "walk_4_retry_budget ?s = Inr ()"
    using driven_budget [OF assms] driven_retries [OF assms]
    by (auto simp: walk_4_retry_budget_def retries_ok_def observed_def Let_def list_ex_iff not_less
        dest!: bspec)
  have 5: "walk_5_wait_never_in_the_past ?s = Inr ()"
    using driven_waits [OF assms]
    by (fastforce simp: walk_5_wait_never_in_the_past_def observed_def list_ex_iff)
  have 6: "walk_6_terminal_outcome_matches ?s = Inr ()"
    using driven_terminal [OF assms] by (rule walk_6_ok)
  show ?thesis
    by (simp add: check_def then_check_def 1 2 4 5 6 split: sum.splits)
qed

section \<open>Scripted drivers\<close>

text \<open>A driver that plays a list of clock readings and outcomes, and two wirings to play it on.\<close>

fun play :: "wiring \<Rightarrow> walk \<Rightarrow> walk_trace \<Rightarrow> (u64 \<times> node_outcome) list \<Rightarrow> (walk \<times> walk_trace) option" where
  "play w k t [] = Some (k, t)"
| "play w k t ((now, out) # script) =
     (case next_step w k now of
        None \<Rightarrow> None
      | Some (Invoke c, k1) \<Rightarrow>
          (case feed w k1 c out now of
             None \<Rightarrow> None
           | Some k2 \<Rightarrow> play w k2 (applied w (stepped t (wk_status k) (Invoke c) now) c out) script)
      | Some (st, k1) \<Rightarrow> play w k1 (stepped t (wk_status k) st now) script)"

lemma play_driven:
  "driven w d k t None \<Longrightarrow> play w k t script = Some (k', t') \<Longrightarrow> driven w d k' t' None"
proof (induction w k t script rule: play.induct)
  case (2 w k t now out script)
  from 2(5) obtain st k1 where st: "next_step w k now = Some (st, k1)"
    by (auto split: option.splits)
  note asked = driven.ask [OF 2(4) st]
  show ?case
  proof (cases st)
    case (Invoke c)
    with st 2(5) obtain k2 where f: "feed w k1 c out now = Some k2"
      by (auto split: option.splits)
    from driven.answer [OF _ f] asked Invoke
    have "driven w d k2 (applied w (stepped t (wk_status k) (Invoke c) now) c out) None" by simp
    with 2(1) [OF st _ _ f] 2(5) st f Invoke show ?thesis by simp
  next
    case (Wait a b c e)
    with 2 st asked show ?thesis by simp
  next
    case (Done s)
    with 2 st asked show ?thesis by simp
  qed
qed simp

definition plain_node :: "string \<Rightarrow> terminal option \<Rightarrow> wiring_node" where
  "plain_node n t = \<lparr>wn_id = n, wn_component = ''c'', wn_operation = ''op'', wn_config = JObject [],
     wn_connection = None, wn_terminal = t\<rparr>"

definition plain_edge :: "string \<Rightarrow> string \<Rightarrow> string \<Rightarrow> wiring_edge" where
  "plain_edge a port b = \<lparr>we_from = a, we_from_port = port, we_to = b, we_to_port = ''in'', we_ordinal = None\<rparr>"

definition loop_nodes :: "wiring_node list" where
  "loop_nodes = [plain_node ''a'' None, plain_node ''b'' None]"

definition loop_edges :: "wiring_edge list" where
  "loop_edges = [plain_edge ''a'' ''main'' ''b'', plain_edge ''b'' ''error'' ''a'']"

definition loop_wiring :: wiring where
  "loop_wiring = set_hop_limit (projr (compile ''a'' loop_nodes loop_edges)) 5"

definition sample_delivery :: delivery where
  "sample_delivery = \<lparr>dl_id = ''d1'', dl_payload = JNull, dl_caller_attached = False\<rparr>"

definition loop_script :: "(u64 \<times> node_outcome) list" where
  "loop_script = [(0, ok JNull), (0, Error (RateLimited \<lparr>rl_detail = msg ''x'', rl_retry_after_ms = Some 100, rl_target_host = None\<rparr>)), (50, Cancelled), (200, Error (Terminal (msg ''y''))),
     (200, ok JNull), (300, ok JNull), (300, Cancelled)]"


definition emit_nodes :: "wiring_node list" where
  "emit_nodes = [plain_node ''a'' (Some (Emit ''order'' Insert)), plain_node ''b'' None]"

definition emit_edges :: "wiring_edge list" where
  "emit_edges = [plain_edge ''a'' ''error'' ''b'']"

definition emit_wiring :: wiring where
  "emit_wiring = projr (compile ''a'' emit_nodes emit_edges)"

lemmas run_simps = compile_def index_nodes.simps index_edges.simps out_edges_def loop_nodes_def loop_edges_def emit_nodes_def emit_edges_def emit_wiring_def
  plain_node_def plain_edge_def loop_wiring_def set_hop_limit_def sample_delivery_def loop_script_def
  start_def new_trace_def next_step_def is_terminal_def promote_def settle_def build_call_def w_node_def visits_of_def
  count_visit_def successors_def enqueue_successors_def route_error_def error_or_fail_def schedule_retry_def
  advance_def apply_success_def apply_outcome_def fail_on_node_data_def feed_def from_config_def RETRY_DEFAULT_def may_retry_def
  applied_def arrive_def arrivals_of_def ok_def msg_def MAIN_PORT_def ERROR_PORT_def ordinal_key_def Let_def coded_def

  observed_def DEDUP_ID_FIELD_def

lemma loop_compiles: "compile ''a'' loop_nodes loop_edges = Inr (projr (compile ''a'' loop_nodes loop_edges))"
  by (simp add: run_simps)

lemma emit_compiles: "compile ''a'' emit_nodes emit_edges = Inr emit_wiring"
  by (simp add: run_simps)

definition loop_end :: "(walk \<times> walk_trace) option" where
  "loop_end = play loop_wiring (start loop_wiring sample_delivery) (new_trace loop_wiring) loop_script"

lemma loop_end_driven: "loop_end = Some (k, t) \<Longrightarrow> driven loop_wiring sample_delivery k t None"
  unfolding loop_end_def by (rule play_driven [OF driven.begun])

lemma loop_end_state:
  "\<exists>k t. loop_end = Some (k, t) \<and> wk_status k = Completed \<and> wk_hops k = 5 \<and> length (tr_waits t) = 1
     \<and> wk_failure k = None"
  by (simp add: loop_end_def run_simps)

section \<open>Properties\<close>

text \<open>
  C6. On every compiled wiring whose nodes declare no terminal, with any hop limit, every walk a
  driver can produce passes the whole run-time check WALK-1 to WALK-6 at every point, whatever the
  components answer and whatever the clock reads.
\<close>

theorem walk_check_terminal_free:
  assumes "compile entry nodes edges = Inr w0" and "\<forall>n \<in> set nodes. wn_terminal n = None"
    and "driven (set_hop_limit w0 limit) d k t p"
  shows "check (observed (set_hop_limit w0 limit) k t) = Inr ()"
proof -
  let ?w = "set_hop_limit w0 limit"
  have ok: "wiring_ok ?w" using compile_wiring_ok [OF assms(1)] by simp
  have "Option.bind (w_node ?w n) wn_terminal = None" for n
    using compile_Inr(3) [OF assms(1)] assms(2)
    by (cases "w_by_id w0 n") (auto simp: w_node_def set_hop_limit_def dest!: map_of_SomeD)
  then have "terminal_free ?w" by (simp add: terminal_free_def)
  then have "tokens_ok k t" by (rule driven_tokens [OF assms(3) ok])
  then show ?thesis by (simp add: driven_check_but_3 [OF assms(3) ok] walk_3_ok)
qed

theorem walk_check_terminal_free_witness:
  "\<exists>k t. loop_end = Some (k, t) \<and> wk_hops k = 5 \<and> length (tr_waits t) = 1 \<and>
     check (observed loop_wiring k t) = Inr ()"
proof -
  obtain k t where run: "loop_end = Some (k, t)" "wk_hops k = 5" "length (tr_waits t) = 1"
    using loop_end_state by blast
  have "check (observed loop_wiring k t) = Inr ()"
    unfolding loop_wiring_def
    by (rule walk_check_terminal_free [OF loop_compiles _ loop_end_driven [OF run(1), unfolded loop_wiring_def]])
      (simp add: loop_nodes_def plain_node_def)
  with run show ?thesis by blast
qed

text \<open>
  On any compiled wiring, terminals included, the only verdict of the run-time check other than
  success is WALK-3: WALK-1, WALK-2, WALK-4, WALK-5 and WALK-6 hold of every driven walk.
\<close>

lemma walk_check_any:
  assumes "compile entry nodes edges = Inr w0" and "driven (set_hop_limit w0 limit) d k t p"
  shows "check (observed (set_hop_limit w0 limit) k t) \<in> {Inr (), Inl WALK_3}"
proof -
  have "wiring_ok (set_hop_limit w0 limit)" using compile_wiring_ok [OF assms(1)] by simp
  from driven_check_but_3 [OF assms(2) this] show ?thesis
    by (simp add: walk_3_once_per_arriving_token_def Let_def)
qed


text \<open>
  The router never panics on a compiled wiring: asked for a step, the walk has one, and fed the
  outcome of the call it handed out, it takes it, folding into a failure whatever a terminal node
  refuses. Neither \<open>expect\<close> of \<open>build_call\<close> and \<open>route\<close> can be reached.
\<close>

lemma walk_never_panics:
  assumes "compile entry nodes edges = Inr w0" and "driven (set_hop_limit w0 limit) d k t p"
  shows "(p = None \<longrightarrow> (\<exists>st k'. next_step (set_hop_limit w0 limit) k now = Some (st, k'))) \<and>
    (\<forall>c. p = Some c \<longrightarrow> (\<exists>k'. feed (set_hop_limit w0 limit) k c out now = Some k'))"
proof -
  have "wiring_ok (set_hop_limit w0 limit)" using compile_wiring_ok [OF assms(1)] by simp
  from driven_inv [OF assms(2) this] show ?thesis
    using next_step_asked [of "set_hop_limit w0 limit" k now]
      feed_answered [of "set_hop_limit w0 limit" k _ out now]
    by (fastforce simp: walk_inv_def pending_ok_def)
qed

text \<open>
  How a walk can stand: the hops never pass the limit, the completed steps and each node's
  visits never pass the hops, a failure is recorded exactly when the walk has failed, a walk that is
  over has no active node, a completed walk has emptied its frontier and has a verdict, a response
  is recorded only with a caller attached, and a discard only with none.
\<close>

lemma walk_standing:
  assumes "compile entry nodes edges = Inr w0" and "driven (set_hop_limit w0 limit) d k t p"
  shows "wk_hops k \<le> limit \<and> wk_step_seq k \<le> wk_hops k \<and> visits_of k n \<le> wk_hops k
    \<and> (wk_failure k \<noteq> None \<longleftrightarrow> wk_status k = Failed)
    \<and> (wk_status k \<noteq> Running \<longrightarrow> wk_current k = None)
    \<and> (wk_status k = Completed \<longrightarrow> wk_frontier k = [] \<and> wk_verdict k \<noteq> None)
    \<and> (\<forall>q m. wk_verdict k = Some (VRespond q m) \<longrightarrow> wk_caller_attached k)
    \<and> (wk_verdict k = Some VDiscard \<longrightarrow> \<not> wk_caller_attached k)"
proof -
  have "wiring_ok (set_hop_limit w0 limit)" using compile_wiring_ok [OF assms(1)] by simp
  from driven_inv [OF assms(2) this] show ?thesis
    by (auto simp: walk_inv_def counters_ok_def ending_ok_def set_hop_limit_def dest: add_leD1)
qed

text \<open>
  A refused outcome changes nothing: \<open>apply\<close> is atomic, so a driver that is refused sees the
  walk exactly as it was, and the refusals are exactly the five the code names.
\<close>

lemma apply_refusal_atomic:
  "apply_outcome w k call out now = (Inl e, k') \<Longrightarrow>
     k' = k \<and>
     (e = AlreadyTerminal (wk_status k) \<and> wk_status k \<noteq> Running \<or>
      e = NoActiveNode \<and> wk_current k = None \<or>
      (\<exists>a. wk_current k = Some a \<and> e = MismatchedNode (ac_node a) (nc_node call) \<and> ac_node a \<noteq> nc_node call) \<or>
      e = RespondWithoutCaller (nc_node call) \<and> \<not> wk_caller_attached k \<and> wk_verdict k = None \<or>
      e = SecondVerdict (nc_node call) \<and> wk_verdict k \<noteq> None)"
  by (auto simp: apply_outcome_def is_terminal_def apply_success_def elim!: terminal_verdict.elims
      split: if_splits option.splits node_outcome.splits sum.splits)

definition sample_call :: "string \<Rightarrow> node_call" where
  "sample_call n = \<lparr>nc_node = n, nc_input_port = None, nc_component = ''c'', nc_operation = ''op'',
     nc_config = JObject [], nc_connection = None, nc_credential = None, nc_payload = JNull,
     nc_attempt = 0, nc_occurrence = 0, nc_deadline_ms = None\<rparr>"

text \<open>
  C29. The first verdict stands: once a walk has one, no step and no answer, accepted, refused or
  folded into a failure, changes it.
\<close>

theorem verdict_write_once:
  assumes "wk_verdict k = Some v"
  shows "(next_step w k now = Some (st, k1) \<longrightarrow> wk_verdict k1 = Some v)
    \<and> wk_verdict (snd (apply_outcome w k call out now)) = Some v
    \<and> wk_verdict (snd (fail_on_node_data w k node e)) = Some v"
proof (intro conjI impI)
  have sr: "wk_verdict (schedule_retry k u th) = Some v" for u th
    using assms by (simp add: walk_simps)
  have ef: "wk_verdict (error_or_fail w k n dt kd) = Some v" for n dt kd
    using assms by (simp add: walk_simps)
  show "wk_verdict k1 = Some v" if "next_step w k now = Some (st, k1)"
    using that assms
    by (auto simp: next_step_def settle_def Let_def dest!: promote_keeps split: if_splits option.splits)
  have err: "wk_verdict (apply_node_error w k call att ne now) = Some v" for att ne
    by (cases ne) (auto simp: Let_def sr ef)
  have "wk_verdict (snd (apply_success w k n pl port)) = Some v" for n pl port
    using assms terminal_verdict_Some [of k n _ pl]
    by (auto simp: apply_success_def walk_simps split: option.splits sum.splits)
  with err assms show "wk_verdict (snd (apply_outcome w k call out now)) = Some v"
    by (auto simp: apply_outcome_def split: option.splits node_outcome.splits)
  show "wk_verdict (snd (fail_on_node_data w k node e)) = Some v"
    using assms ef by (auto simp: fail_on_node_data_def split: option.splits)
qed

theorem verdict_write_once_witness:
  "\<exists>k. wk_verdict k = Some (VRespond JNull ''a'') \<and>
     wk_verdict (snd (apply_outcome emit_wiring k (sample_call ''b'') (ok JNull) 0)) = Some (VRespond JNull ''a'')"
proof -
  have v: "wk_verdict ((start emit_wiring sample_delivery)\<lparr>wk_verdict := Some (VRespond JNull ''a'')\<rparr>)
      = Some (VRespond JNull ''a'')" by simp
  from verdict_write_once [OF v] v show ?thesis by blast
qed

text \<open>
  A retryable error within the budget keeps the node active for one more attempt, on the same
  input, not before now and at most an hour after now, whatever the node's retry configuration says.
\<close>

lemma retry_deadline:
  assumes "handed_out w k c" and "nc_attempt c + 1 < retry_budget (nc_config c)"
    and "unat now + 3600000 < 2 ^ 64"
  shows "\<exists>k' a a'. apply_outcome w k c (Error (Retryable detail)) now = (Inr (), k')
    \<and> wk_current k = Some a \<and> wk_current k' = Some a' \<and> ac_node a' = ac_node a
    \<and> ac_payload a' = ac_payload a \<and> ac_attempt a' = ac_attempt a + 1
    \<and> unat now \<le> unat (ac_retry_until_ms a') \<and> unat (ac_retry_until_ms a') \<le> unat now + 3600000"
proof -
  from assms(1) obtain a where a: "wk_status k = Running" "wk_current k = Some a" "ac_node a = nc_node c"
    "ac_attempt a = nc_attempt c" by (auto elim: handed_outE)
  let ?delay = "backoff_ms (from_config (nc_config c)) (nc_attempt c)"
  have delay: "unat ?delay \<le> 3600000"
    by (rule order_trans [OF backoff_ms_le_cap cap_ms_from_config])
  then have "unat (now + ?delay) = unat now + unat ?delay"
    using assms(3) by (simp add: unat_plus_if_size word_size)
  with a assms(2) delay show ?thesis
    by (auto simp: apply_outcome_def is_terminal_def may_retry_budget schedule_retry_def Let_def)
qed

definition first_call :: "(node_call \<times> walk) option" where
  "first_call = (case next_step loop_wiring (start loop_wiring sample_delivery) 0 of
     Some (Invoke c, k) \<Rightarrow> Some (c, k) | _ \<Rightarrow> None)"

lemma first_call_state:
  "\<exists>c k. first_call = Some (c, k) \<and> handed_out loop_wiring k c \<and> nc_attempt c = 0
     \<and> nc_config c = JObject []"
  by (simp add: first_call_def handed_out_def run_simps)

text \<open>
  C37. The deadline of a rate-limited retry is the clock plus the delay the component asks for, in
  64-bit arithmetic: a delay past the end of the clock's range wraps to a deadline before now, and
  the node is asked again at once instead of waiting.
\<close>

theorem rate_limit_wraps:
  assumes "handed_out w k c" and "nc_attempt c + 1 < retry_budget (nc_config c)"
    and "rl_retry_after_ms rl = Some delay" and "2 ^ 64 \<le> unat now + unat delay"
  shows "\<exists>k' a. apply_outcome w k c (Error (RateLimited rl)) now = (Inr (), k')
    \<and> wk_current k' = Some a \<and> ac_retry_until_ms a < now
    \<and> (\<forall>n u att th k2. next_step w k' now \<noteq> Some (Wait n u att th, k2))"
proof -
  from assms(1) obtain a where a: "wk_status k = Running" "wk_current k = Some a" "ac_node a = nc_node c"
    "ac_attempt a = nc_attempt c" by (auto elim: handed_outE)
  have "unat delay < 2 ^ 64" using unsigned_less [of delay, where ?'a = nat] by simp
  then have "now + delay < now"
    using assms(4) by (simp add: word_less_nat_alt unat_plus_if_size word_size)
  with a assms(2,3) show ?thesis
    by (auto simp: apply_outcome_def is_terminal_def may_retry_budget schedule_retry_def Let_def
        next_step_def promote_def split: option.splits)
qed

theorem rate_limit_wraps_witness:
  "\<exists>c k k' a. first_call = Some (c, k)
     \<and> apply_outcome loop_wiring k c (Error (RateLimited \<lparr>rl_detail = msg ''slow'',
         rl_retry_after_ms = Some 18446744073709551615, rl_target_host = None\<rparr>)) 5 = (Inr (), k')
     \<and> wk_current k' = Some a \<and> ac_retry_until_ms a < 5"
proof -
  obtain c k where c: "first_call = Some (c, k)" "handed_out loop_wiring k c" "nc_attempt c = 0"
    "nc_config c = JObject []" using first_call_state by blast
  moreover have "nc_attempt c + 1 < retry_budget (nc_config c)"
    by (simp add: c retry_budget_def from_config_def RETRY_DEFAULT_def)
  ultimately show ?thesis
    using rate_limit_wraps [OF c(2), of "\<lparr>rl_detail = msg ''slow'', rl_retry_after_ms = Some 18446744073709551615,
      rl_target_host = None\<rparr>" 18446744073709551615 5] by fastforce
qed


end
