(* ===== verification/Router_Loop.thy ===== *)
theory Router_Loop
  imports Router_Trace
begin

text \<open>
  The contract of a loop that drives a walk: read the clock, ask the walk for its next step, and
  stop, wait, or hand the call to a component and feed its outcome back. Two loops of the repository
  have this shape, the reference driver of the router crate and the production driver of the
  workflow crate; what holds of both is proved here once.
\<close>

locale walk_driver =
  fixes run :: "'h \<Rightarrow> wiring \<Rightarrow> walk \<Rightarrow> 's \<Rightarrow> 'r option"
    and clock :: "'h \<Rightarrow> 's \<Rightarrow> u64"
    and waits :: "'h \<Rightarrow> bool"
    and ended :: "walk \<Rightarrow> 'r \<Rightarrow> bool"
  assumes done_ends: "next_step w k (clock h s) = Some (Done status, k') \<Longrightarrow> wk_status k' = status \<Longrightarrow>
      \<exists>r. run h w k s = Some r \<and> ended k' r"
    and wait_goes_on: "next_step w k (clock h s) = Some (Wait n until_ms att throttle, k') \<Longrightarrow>
      \<exists>s'. run h w k s = run h w k' s' \<and> (waits h \<longrightarrow> until_ms \<le> clock h s')"
    and call_answered: "next_step w k (clock h s) = Some (Invoke c, k') \<Longrightarrow> handed_out w k' c \<Longrightarrow>
      (\<exists>r. run h w k s = Some r \<and> ended k' r)
      \<or> (\<exists>out now k2 s'. feed w k' c out now = Some k2 \<and> run h w k s = run h w k2 s')"
begin

text \<open>The clock the next pass reads does not make the walk wait.\<close>

definition due :: "'h \<Rightarrow> walk \<Rightarrow> 's \<Rightarrow> bool" where
  "due h k s \<longleftrightarrow> (\<forall>a. wk_current k = Some a \<longrightarrow> ac_retry_until_ms a \<le> clock h s)"

text \<open>Every pass hands out a hop, or waits once and then is due, or is the last one.\<close>

definition passes_left :: "wiring \<Rightarrow> 'h \<Rightarrow> walk \<Rightarrow> 's \<Rightarrow> nat" where
  "passes_left w h k s = 2 * (w_hop_limit w - wk_hops k) + (if due h k s then 1 else 2)"

definition finished :: "wiring \<Rightarrow> delivery \<Rightarrow> 'r option \<Rightarrow> bool" where
  "finished w d res \<longleftrightarrow> (\<exists>r k t p. res = Some r \<and> driven w d k t p \<and> ended k r)"

lemma finished_call:
  assumes "asked w k now (Invoke c) k1" and "feed w k1 c out now2 = Some k2" and "handed_out w k1 c"
  shows "passes_left w h k2 s' < passes_left w h k s"
proof -
  from feed_answered [OF assms(3), of out now2] assms(2) have "answered w k1 c out now2 k2" by auto
  then have "wk_hops k2 = wk_hops k1" by (cases rule: answered.cases) (simp_all add: walk_simps)
  moreover from assms(1) have "wk_hops k1 = Suc (wk_hops k)" "wk_hops k < w_hop_limit w"
    by (auto elim: asked.cases)
  ultimately show ?thesis by (auto simp: passes_left_def)
qed

lemma finished_wait:
  assumes "asked w k (clock h s) (Wait n until_ms att throttle) k1" and "until_ms \<le> clock h s'"
  shows "k1 = k" and "passes_left w h k s' < passes_left w h k s"
proof -
  from assms(1) show "k1 = k" by (auto elim: asked.cases)
  from assms(1) have "\<exists>a. wk_current k = Some a \<and> until_ms = ac_retry_until_ms a \<and> clock h s < until_ms"
    by (auto elim: asked.cases)
  with assms(2) have "due h k s'" "\<not> due h k s" by (auto simp: due_def)
  then show "passes_left w h k s' < passes_left w h k s" by (simp add: passes_left_def)
qed

lemma run_finishes:
  assumes "wiring_ok w" and "waits h"
  shows "driven w d k t None \<Longrightarrow> finished w d (run h w k s)"
proof (induction "passes_left w h k s" arbitrary: k t s rule: less_induct)
  case less
  from driven_inv [OF less(2) assms(1)] have ok: "work_ok w k" by (simp add: walk_inv_def)
  from next_step_asked [OF ok, of "clock h s"] obtain st k1 where
    st: "next_step w k (clock h s) = Some (st, k1)" and asked: "asked w k (clock h s) st k1" by blast
  note drv = driven.ask [OF less(2) st]
  show ?case
  proof (cases st)
    case (Done status)
    with asked have "wk_status k1 = status" by (auto elim: asked.cases)
    with done_ends [OF st [unfolded Done]] drv show ?thesis unfolding finished_def by blast
  next
    case (Wait n until_ms att throttle)
    from wait_goes_on [OF st [unfolded Wait]] assms(2) obtain s' where
      s': "run h w k s = run h w k1 s'" "until_ms \<le> clock h s'" by blast
    from finished_wait [OF asked [unfolded Wait] s'(2)] less s'(1) show ?thesis by simp
  next
    case (Invoke c)
    note out = asked_handed_out [OF asked [unfolded Invoke]]
    from call_answered [OF st [unfolded Invoke] out] show ?thesis
    proof
      assume "\<exists>r. run h w k s = Some r \<and> ended k1 r"
      with drv show ?thesis unfolding finished_def by blast
    next
      assume "\<exists>out now k2 s'. feed w k1 c out now = Some k2 \<and> run h w k s = run h w k2 s'"
      then obtain o2 now2 k2 s' where k2: "feed w k1 c o2 now2 = Some k2" "run h w k s = run h w k2 s'" by blast
      from drv Invoke have "driven w d k1 (stepped t (wk_status k) st (clock h s)) (Some c)" by simp
      then have "driven w d k2 (applied w (stepped t (wk_status k) st (clock h s)) c o2) None"
        by (rule driven.answer [OF _ k2(1)])
      with less(1) [OF finished_call [OF asked [unfolded Invoke] k2(1) out]] k2(2) show ?thesis by simp
    qed
  qed
qed

end

text \<open>What the outcome of a walk that is over carries.\<close>

lemma driven_over:
  assumes "driven w d k t p" and "wiring_ok w"
  shows "wk_hops k \<le> w_hop_limit w"
    and "wk_failure k \<noteq> None \<longleftrightarrow> wk_status k = Failed"
    and "wk_status k = Completed \<Longrightarrow> wk_verdict k \<noteq> None"
    and "wk_verdict k = Some (VRespond payload n) \<Longrightarrow> wk_caller_attached k"
    and "wk_verdict k = Some VDiscard \<Longrightarrow> wk_status k = Completed \<and> \<not> wk_caller_attached k"
  using driven_inv [OF assms] by (auto simp: walk_inv_def counters_ok_def ending_ok_def)

end
