(* ===== verification/Router_Route.thy ===== *)
theory Router_Route
  imports Router_Loop
begin

text \<open>
  The reference driver (\<^verbatim>\<open>crates/execution/workflow/router/src/lib.rs\<close>): \<open>route\<close> walks one delivery
  with an invoker until the walk is done. The invoker is the embedder's, so its three methods are
  fields of a record over a state of its own. The loop is a partial function: \<open>None\<close> is a loop that
  never returns, \<open>Some Panicked\<close> one of the two \<open>expect\<close>s.
\<close>

record 'i node_invoker =
  iv_invoke :: "'i \<Rightarrow> node_call \<Rightarrow> node_outcome \<times> 'i"
  iv_now_ms :: "'i \<Rightarrow> u64 \<times> 'i"
  iv_wait_until :: "'i \<Rightarrow> u64 \<Rightarrow> throttle_key option \<Rightarrow> 'i"

record outcome =
  oc_status :: walk_status
  oc_result :: json
  oc_failure :: "failure option"
  oc_hops :: nat
  oc_verdict :: "verdict option"

definition outcome_of :: "walk_status \<Rightarrow> walk \<Rightarrow> outcome" where
  "outcome_of status k = \<lparr>oc_status = status, oc_result = wk_result k, oc_failure = wk_failure k,
     oc_hops = wk_hops k, oc_verdict = wk_verdict k\<rparr>"

datatype 'i route_end = Panicked | Returned outcome 'i

partial_function (option) route_loop ::
    "'i node_invoker \<Rightarrow> wiring \<Rightarrow> walk \<Rightarrow> 'i \<Rightarrow> 'i route_end option" where
  "route_loop iv w k i =
     (case iv_now_ms iv i of (now, i1) \<Rightarrow>
      case next_step w k now of
        None \<Rightarrow> Some Panicked
      | Some (st, k1) \<Rightarrow>
          (case st of
             Done status \<Rightarrow> Some (Returned (outcome_of status k1) i1)
           | Wait _ until_ms _ throttle \<Rightarrow> route_loop iv w k1 (iv_wait_until iv i1 until_ms throttle)
           | Invoke call \<Rightarrow>
               (case iv_invoke iv i1 call of (out, i2) \<Rightarrow>
                case iv_now_ms iv i2 of (now2, i3) \<Rightarrow>
                case feed w k1 call out now2 of
                  None \<Rightarrow> Some Panicked
                | Some k2 \<Rightarrow> route_loop iv w k2 i3)))"

definition route :: "delivery \<Rightarrow> wiring \<Rightarrow> 'i node_invoker \<Rightarrow> 'i \<Rightarrow> 'i route_end option" where
  "route d w iv i = route_loop iv w (start w d) i"

text \<open>
  What the trait documents of \<open>wait_until\<close>: the wait lasts until the deadline, so the clock read
  next has reached it.
\<close>

definition waits_out :: "'i node_invoker \<Rightarrow> bool" where
  "waits_out iv \<longleftrightarrow> (\<forall>i until_ms th. until_ms \<le> fst (iv_now_ms iv (iv_wait_until iv i until_ms th)))"

section \<open>Termination\<close>

definition route_ended :: "walk \<Rightarrow> 'i route_end \<Rightarrow> bool" where
  "route_ended k r \<longleftrightarrow> wk_status k \<noteq> Running \<and> (\<exists>i. r = Returned (outcome_of (wk_status k) k) i)"

lemma next_step_Done: "next_step w k now = Some (Done status, k') \<Longrightarrow> status \<noteq> Running"
  by (auto simp: next_step_def is_terminal_def settle_def Let_def split: if_splits option.splits)

interpretation rl: walk_driver route_loop "\<lambda>iv i. fst (iv_now_ms iv i)" waits_out route_ended
proof
  fix iv :: "'a node_invoker" and w k i status k'
  assume "next_step w k (fst (iv_now_ms iv i)) = Some (Done status, k')" "wk_status k' = status"
  then show "\<exists>r. route_loop iv w k i = Some r \<and> route_ended k' r"
    using next_step_Done by (fastforce simp: route_loop.simps [of iv w k i] route_ended_def split: prod.splits)
next
  fix iv :: "'a node_invoker" and w k i n until_ms att throttle k'
  assume "next_step w k (fst (iv_now_ms iv i)) = Some (Wait n until_ms att throttle, k')"
  then show "\<exists>i'. route_loop iv w k i = route_loop iv w k' i' \<and> (waits_out iv \<longrightarrow> until_ms \<le> fst (iv_now_ms iv i'))"
    by (intro exI [of _ "iv_wait_until iv (snd (iv_now_ms iv i)) until_ms throttle"])
      (simp add: route_loop.simps [of iv w k i] waits_out_def case_prod_beta)
next
  fix iv :: "'a node_invoker" and w k i c k'
  assume st: "next_step w k (fst (iv_now_ms iv i)) = Some (Invoke c, k')" and out: "handed_out w k' c"
  obtain o2 i2 where o2: "iv_invoke iv (snd (iv_now_ms iv i)) c = (o2, i2)"
    by (cases "iv_invoke iv (snd (iv_now_ms iv i)) c")
  from feed_answered [OF out, of o2 "fst (iv_now_ms iv i2)"] obtain k2 where
    k2: "feed w k' c o2 (fst (iv_now_ms iv i2)) = Some k2" by blast
  with st o2 have "route_loop iv w k i = route_loop iv w k2 (snd (iv_now_ms iv i2))"
    by (simp add: route_loop.simps [of iv w k i] case_prod_beta)
  with k2 show "(\<exists>r. route_loop iv w k i = Some r \<and> route_ended k' r)
    \<or> (\<exists>out now k2 i'. feed w k' c out now = Some k2 \<and> route_loop iv w k i = route_loop iv w k2 i')" by blast
qed

section \<open>Properties\<close>

text \<open>
  C1. \<open>route\<close> returns. On a compiled wiring, with an invoker whose \<open>wait_until\<close> lasts until its
  deadline, whatever the components answer, the loop neither panics nor runs forever: it returns an
  outcome that is over, within the hop limit, whose failure is present exactly when it failed, and
  that carries a verdict when it completed.
\<close>

theorem route_returns:
  assumes "compile entry nodes edges = Inr w0" and "waits_out iv"
  shows "\<exists>out i'. route d (set_hop_limit w0 limit) iv i = Some (Returned out i')
    \<and> oc_status out \<noteq> Running \<and> oc_hops out \<le> limit
    \<and> (oc_failure out \<noteq> None \<longleftrightarrow> oc_status out = Failed)
    \<and> (oc_status out = Completed \<longrightarrow> oc_verdict out \<noteq> None)"
proof -
  let ?w = "set_hop_limit w0 limit"
  have ok: "wiring_ok ?w" using compile_wiring_ok [OF assms(1)] by simp
  have "rl.finished ?w d (route d ?w iv i)"
    unfolding route_def by (rule rl.run_finishes [OF ok assms(2) driven.begun])
  then obtain k t p i' where k: "route d ?w iv i = Some (Returned (outcome_of (wk_status k) k) i')"
    "driven ?w d k t p" "wk_status k \<noteq> Running" by (auto simp: rl.finished_def route_ended_def)
  from driven_over(1-3) [OF k(2) ok] k(1,3) show ?thesis
    by (auto simp: outcome_of_def set_hop_limit_def)
qed

text \<open>An invoker over a counter that every wait sets to its deadline and every call advances.\<close>

definition stepping_invoker :: "u64 node_invoker" where
  "stepping_invoker = \<lparr>iv_invoke = (\<lambda>i c. (Error (Retryable (msg ''busy'')), i + 1)),
     iv_now_ms = (\<lambda>i. (i, i)), iv_wait_until = (\<lambda>i u th. max i u)\<rparr>"

lemma stepping_waits_out: "waits_out stepping_invoker"
  by (simp add: waits_out_def stepping_invoker_def)

theorem route_returns_witness:
  "\<exists>out i'. route sample_delivery loop_wiring stepping_invoker 0 = Some (Returned out i')
     \<and> oc_status out \<noteq> Running \<and> oc_hops out \<le> 5"
  using route_returns [OF loop_compiles stepping_waits_out, of sample_delivery 5 0]
  by (auto simp: loop_wiring_def)

end
