(* ===== verification/Router_Driver.thy ===== *)
theory Router_Driver
  imports Router_Route
begin

text \<open>
  The production driver (\<^verbatim>\<open>crates/execution/workflow/src/router_driver.rs\<close>): the loop of
  \<open>execute_resolved\<close>, which authorizes and invokes each node and stops at the first invocation
  error, and the lowering of what a component returned. The clock, the sleep, the lookup of the
  workflow principal's grants, the grant test and the invocation of a component are the host's: they
  are fields of a record over a state of the host. Decoding the emitted JSON text is the host's too.
\<close>

section \<open>What a component returns\<close>

record guest_detail =
  gd_message :: string
  gd_code :: "string option"

datatype guest_error =
    GRetryable guest_detail
  | GRateLimited guest_detail "u64 option"
  | GTerminal guest_detail
  | GInvalidInput guest_detail
  | GCancelled

record emission =
  em_payload :: string
  em_port :: "string option"

text \<open>
  The errors of an invocation that the queue tells apart: a refused grant, which no retry changes,
  and any other.
\<close>

datatype driver_error = Refusal string | Internal string

definition lower_detail :: "guest_detail \<Rightarrow> error_detail" where
  "lower_detail d = \<lparr>ed_message = gd_message d, ed_code = gd_code d, ed_data = None\<rparr>"

fun lower_node_outcome ::
    "(string \<Rightarrow> json option) \<Rightarrow> (guest_error, emission) result \<Rightarrow> (driver_error, node_outcome) result" where
  "lower_node_outcome parse (Inr e) =
     (case parse (em_payload e) of
        None \<Rightarrow> Inl (Internal ''wamn:node emitted invalid JSON'')
      | Some payload \<Rightarrow> Inr (Success payload (case em_port e of None \<Rightarrow> MAIN_PORT | Some p \<Rightarrow> p)))"
| "lower_node_outcome parse (Inl (GRetryable d)) = Inr (Error (Retryable (lower_detail d)))"
| "lower_node_outcome parse (Inl (GRateLimited d after)) =
     Inr (Error (RateLimited \<lparr>rl_detail = lower_detail d, rl_retry_after_ms = after, rl_target_host = None\<rparr>))"
| "lower_node_outcome parse (Inl (GTerminal d)) = Inr (Error (Terminal (lower_detail d)))"
| "lower_node_outcome parse (Inl (GInvalidInput d)) = Inr (Error (InvalidInput (lower_detail d)))"
| "lower_node_outcome parse (Inl GCancelled) = Inr Cancelled"

section \<open>Authorization and deadlines\<close>

definition authorize_registered_operation ::
    "('c \<Rightarrow> string \<Rightarrow> bool) \<Rightarrow> 'c option \<Rightarrow> string option \<Rightarrow> (driver_error, unit) result" where
  "authorize_registered_operation permits caller operation =
     (case operation of
        None \<Rightarrow> Inr ()
      | Some op \<Rightarrow>
          (case caller of
             None \<Rightarrow> Inl (Refusal op)
           | Some c \<Rightarrow> if permits c op then Inr () else Inl (Refusal op)))"

definition MAX_HOST_CALL_MS :: u64 where "MAX_HOST_CALL_MS = 30000"

definition bounded_node_deadline_ms :: "u64 option \<Rightarrow> u64" where
  "bounded_node_deadline_ms deadline_ms =
     min (max (case deadline_ms of None \<Rightarrow> MAX_HOST_CALL_MS | Some d \<Rightarrow> d) 1) MAX_HOST_CALL_MS"

record deadline_adjustment =
  da_node :: string
  da_requested_ms :: u64
  da_effective_ms :: u64

definition adjust_deadline :: "node_call \<Rightarrow> deadline_adjustment list \<Rightarrow> deadline_adjustment list" where
  "adjust_deadline call adjustments =
     (case nc_deadline_ms call of
        None \<Rightarrow> adjustments
      | Some requested \<Rightarrow>
          (let effective = bounded_node_deadline_ms (Some requested) in
           if requested \<noteq> effective
           then adjustments @ [\<lparr>da_node = nc_node call, da_requested_ms = requested, da_effective_ms = effective\<rparr>]
           else adjustments))"

section \<open>The loop\<close>

record ('i, 'c) driver_host =
  dh_now_ms :: "'i \<Rightarrow> u64 \<times> 'i"
  dh_sleep :: "'i \<Rightarrow> u64 \<Rightarrow> 'i"
  dh_node_caller :: "'i \<Rightarrow> (driver_error, 'c option) result \<times> 'i"
  dh_permits :: "'c \<Rightarrow> string \<Rightarrow> bool"
  dh_invoke :: "'i \<Rightarrow> node_call \<Rightarrow> 'c option \<Rightarrow> u64 \<Rightarrow> (driver_error, (guest_error, emission) result) result \<times> 'i"
  dh_parse :: "string \<Rightarrow> json option"

text \<open>
  The catalog facts of the active wiring: for each node, the operations its component registers,
  each with the operation a caller must hold. \<open>dr_workflow\<close> is whether the delivery is a workflow
  run, whose grants are read for each node; \<open>dr_caller\<close> is the caller of any other delivery.
\<close>

record 'c driver_run =
  dr_facts :: "string \<Rightarrow> (string \<Rightarrow> string option option) option"
  dr_workflow :: bool
  dr_caller :: "'c option"

definition node_caller ::
    "('i, 'c) driver_host \<Rightarrow> 'c driver_run \<Rightarrow> node_call \<Rightarrow> string option \<Rightarrow> 'i
       \<Rightarrow> (driver_error, 'c option) result \<times> 'i" where
  "node_caller h q call registered i =
     (if \<not> dr_workflow q then (Inr (dr_caller q), i)
      else
        (case dh_node_caller h i of
           (Inl e, i') \<Rightarrow> (Inl e, i')
         | (Inr None, i') \<Rightarrow>
             (Inl (Refusal (case registered of None \<Rightarrow> nc_operation call | Some op \<Rightarrow> op)), i')
         | (Inr (Some c), i') \<Rightarrow> (Inr (Some c), i')))"

definition invoke_call ::
    "('i, 'c) driver_host \<Rightarrow> 'c driver_run \<Rightarrow> node_call \<Rightarrow> deadline_adjustment list \<Rightarrow> 'i
       \<Rightarrow> (driver_error, node_outcome) result \<times> deadline_adjustment list \<times> 'i" where
  "invoke_call h q call adjustments i =
     (case dr_facts q (nc_node call) of
        None \<Rightarrow> (Inl (Internal ''router-node-component-fact-missing''), adjustments, i)
      | Some operations \<Rightarrow>
          (case operations (nc_operation call) of
             None \<Rightarrow> (Inl (Internal ''router-node-operation-fact-missing''), adjustments, i)
           | Some registered \<Rightarrow>
               (case node_caller h q call registered i of
                  (Inl e, i1) \<Rightarrow> (Inl e, adjustments, i1)
                | (Inr caller, i1) \<Rightarrow>
                    (case authorize_registered_operation (dh_permits h) caller registered of
                       Inl e \<Rightarrow> (Inl e, adjustments, i1)
                     | Inr _ \<Rightarrow>
                         (case dh_invoke h i1 call caller (bounded_node_deadline_ms (nc_deadline_ms call)) of
                            (Inl e, i2) \<Rightarrow> (Inl e, adjust_deadline call adjustments, i2)
                          | (Inr answer, i2) \<Rightarrow>
                              (lower_node_outcome (dh_parse h) answer, adjust_deadline call adjustments, i2))))))"

record 'i delivered =
  dv_outcome :: "(driver_error, outcome) result"
  dv_adjustments :: "deadline_adjustment list"
  dv_host :: 'i

datatype 'i driver_end = DriverPanicked | Delivered "'i delivered"

text \<open>
  An invocation error after a verdict was recorded ends the delivery with that verdict; before one
  it is the delivery's error. \<open>None\<close> is a loop that never returns.
\<close>

definition saturating_sub :: "u64 \<Rightarrow> u64 \<Rightarrow> u64" where
  "saturating_sub a b = (if b \<le> a then a - b else 0)"

partial_function (option) execute_loop ::
    "('i, 'c) driver_host \<Rightarrow> 'c driver_run \<Rightarrow> wiring \<Rightarrow> walk \<Rightarrow> deadline_adjustment list \<Rightarrow> 'i
       \<Rightarrow> 'i driver_end option" where
  "execute_loop h q w k adjustments i =
     (case dh_now_ms h i of (now, i1) \<Rightarrow>
      case next_step w k now of
        None \<Rightarrow> Some DriverPanicked
      | Some (st, k1) \<Rightarrow>
          (case st of
             Done status \<Rightarrow>
               Some (Delivered \<lparr>dv_outcome = Inr (outcome_of status k1), dv_adjustments = adjustments, dv_host = i1\<rparr>)
           | Wait _ until_ms _ _ \<Rightarrow>
               (case dh_now_ms h i1 of (now2, i2) \<Rightarrow>
                execute_loop h q w k1 adjustments (dh_sleep h i2 (saturating_sub until_ms now2)))
           | Invoke call \<Rightarrow>
               (case invoke_call h q call adjustments i1 of (result, adjustments', i2) \<Rightarrow>
                case result of
                  Inl e \<Rightarrow>
                    Some (Delivered
                      \<lparr>dv_outcome = (if wk_verdict k1 \<noteq> None
                         then Inr ((outcome_of Failed k1)\<lparr>oc_failure := None\<rparr>) else Inl e),
                       dv_adjustments = adjustments', dv_host = i2\<rparr>)
                | Inr out \<Rightarrow>
                    (case dh_now_ms h i2 of (now3, i3) \<Rightarrow>
                     case feed w k1 call out now3 of
                       None \<Rightarrow> Some (Delivered
                         \<lparr>dv_outcome = Inl (Internal ''router driver applied an impossible transition''),
                          dv_adjustments = adjustments', dv_host = i3\<rparr>)
                     | Some k2 \<Rightarrow> execute_loop h q w k2 adjustments' i3))))"

definition execute_resolved ::
    "('i, 'c) driver_host \<Rightarrow> 'c driver_run \<Rightarrow> wiring \<Rightarrow> delivery \<Rightarrow> 'i \<Rightarrow> 'i driver_end option" where
  "execute_resolved h q w d i = execute_loop h q w (start w d) [] i"

text \<open>What the sleep promises: the clock read after it has reached the deadline it was given.\<close>

definition sleeps_out :: "('i, 'c) driver_host \<Rightarrow> bool" where
  "sleeps_out h \<longleftrightarrow> (\<forall>i until_ms. until_ms \<le> fst (dh_now_ms h
     (dh_sleep h (snd (dh_now_ms h i)) (saturating_sub until_ms (fst (dh_now_ms h i))))))"

section \<open>The driver satisfies the loop contract\<close>

definition adjusted_ok :: "deadline_adjustment \<Rightarrow> bool" where
  "adjusted_ok a \<longleftrightarrow> da_requested_ms a \<noteq> da_effective_ms a
     \<and> da_effective_ms a = bounded_node_deadline_ms (Some (da_requested_ms a))"

definition outcome_ended :: "walk \<Rightarrow> 'i driver_end \<Rightarrow> bool" where
  "outcome_ended k r \<longleftrightarrow> (\<exists>v. r = Delivered v \<and>
     (case dv_outcome v of
        Inl e \<Rightarrow> wk_verdict k = None \<and> wk_status k = Running
      | Inr out \<Rightarrow> out = outcome_of (wk_status k) k \<and> wk_status k \<noteq> Running
          \<or> out = (outcome_of Failed k)\<lparr>oc_failure := None\<rparr> \<and> wk_verdict k \<noteq> None \<and> wk_status k = Running))"

lemma adjust_deadline_ok: "list_all adjusted_ok as \<Longrightarrow> list_all adjusted_ok (adjust_deadline call as)"
  by (auto simp: adjust_deadline_def adjusted_ok_def Let_def split: option.splits)

lemma invoke_call_adjustments:
  "invoke_call h q call as i = (r, as', i') \<Longrightarrow> list_all adjusted_ok as \<Longrightarrow> list_all adjusted_ok as'"
  by (auto simp: invoke_call_def adjust_deadline_ok split: option.splits sum.splits prod.splits)

abbreviation drive :: "('i, 'c) driver_host \<times> 'c driver_run \<Rightarrow> wiring \<Rightarrow> walk \<Rightarrow> deadline_adjustment list \<times> 'i
    \<Rightarrow> 'i driver_end option" where
  "drive hq w k s \<equiv> execute_loop (fst hq) (snd hq) w k (fst s) (snd s)"

abbreviation drive_clock :: "('i, 'c) driver_host \<times> 'c driver_run \<Rightarrow> deadline_adjustment list \<times> 'i \<Rightarrow> u64" where
  "drive_clock hq s \<equiv> fst (dh_now_ms (fst hq) (snd s))"

lemma handed_out_running: "handed_out w k c \<Longrightarrow> wk_status k = Running"
  by (simp add: handed_out_def)

interpretation dl: walk_driver drive drive_clock "\<lambda>hq. sleeps_out (fst hq)" outcome_ended
proof
  fix hq :: "('a, 'b) driver_host \<times> 'b driver_run" and w k status k'
    and s :: "deadline_adjustment list \<times> 'a"
  assume st: "next_step w k (drive_clock hq s) = Some (Done status, k')" and "wk_status k' = status"
  with next_step_Done [OF st] show "\<exists>r. drive hq w k s = Some r \<and> outcome_ended k' r"
    by (auto simp: execute_loop.simps [of "fst hq" "snd hq" w k "fst s" "snd s"] case_prod_beta outcome_ended_def)
next
  fix hq :: "('a, 'b) driver_host \<times> 'b driver_run" and w k n until_ms att throttle k'
    and s :: "deadline_adjustment list \<times> 'a"
  let ?h = "fst hq"
  let ?i = "snd (dh_now_ms ?h (snd s))"
  assume "next_step w k (drive_clock hq s) = Some (Wait n until_ms att throttle, k')"
  then have "drive hq w k s = drive hq w k' (fst s, dh_sleep ?h (snd (dh_now_ms ?h ?i))
      (saturating_sub until_ms (fst (dh_now_ms ?h ?i))))"
    by (simp add: execute_loop.simps [of ?h "snd hq" w k "fst s" "snd s"] case_prod_beta)
  moreover have "sleeps_out ?h \<longrightarrow> until_ms \<le> fst (dh_now_ms ?h (dh_sleep ?h (snd (dh_now_ms ?h ?i))
      (saturating_sub until_ms (fst (dh_now_ms ?h ?i)))))" by (simp add: sleeps_out_def)
  ultimately show "\<exists>s'. drive hq w k s = drive hq w k' s' \<and> (sleeps_out ?h \<longrightarrow> until_ms \<le> drive_clock hq s')"
    by (metis snd_conv)
next
  fix hq :: "('a, 'b) driver_host \<times> 'b driver_run" and w k c k'
    and s :: "deadline_adjustment list \<times> 'a"
  assume st: "next_step w k (drive_clock hq s) = Some (Invoke c, k')" and out: "handed_out w k' c"
  obtain r as i2 where call: "invoke_call (fst hq) (snd hq) c (fst s) (snd (dh_now_ms (fst hq) (snd s))) = (r, as, i2)"
    by (metis prod_cases3)
  note step = execute_loop.simps [of "fst hq" "snd hq" w k "fst s" "snd s"] case_prod_beta st call
  show "(\<exists>r. drive hq w k s = Some r \<and> outcome_ended k' r)
    \<or> (\<exists>out now k2 s'. feed w k' c out now = Some k2 \<and> drive hq w k s = drive hq w k2 s')"
  proof (cases r)
    case (Inl e)
    with handed_out_running [OF out] show ?thesis by (simp add: step outcome_ended_def)
  next
    case (Inr o2)
    from feed_answered [OF out, of o2 "fst (dh_now_ms (fst hq) i2)"] obtain k2 where
      k2: "feed w k' c o2 (fst (dh_now_ms (fst hq) i2)) = Some k2" by blast
    with Inr have "drive hq w k s = drive hq w k2 (as, snd (dh_now_ms (fst hq) i2))" by (simp add: step)
    with k2 show ?thesis by blast
  qed
qed


lemma execute_loop_adjustments:
  "execute_loop h q w k as i = Some r \<Longrightarrow>
     \<forall>v. list_all adjusted_ok as \<longrightarrow> r = Delivered v \<longrightarrow> list_all adjusted_ok (dv_adjustments v)"
proof (erule execute_loop.raw_induct [where P = "\<lambda>h q w k as i r. \<forall>v. list_all adjusted_ok as \<longrightarrow>
    r = Delivered v \<longrightarrow> list_all adjusted_ok (dv_adjustments v)", rotated], goal_cases)
  case (1 loop h q w k as i r)
  from 1(2) show ?case
    by (auto split: prod.splits option.splits step.splits sum.splits
        dest!: 1(1) dest: invoke_call_adjustments [of h q])
qed

section \<open>Properties\<close>

text \<open>
  What the queue may rely on of an outcome: it is over, within the hop limit; a completed walk has a
  verdict and a failed one without a verdict its failure; a response has a caller to go to, and
  nothing is discarded while a caller waits.
\<close>

definition deliverable :: "bool \<Rightarrow> outcome \<Rightarrow> bool" where
  "deliverable attached out \<longleftrightarrow>
     oc_status out \<noteq> Running
     \<and> (oc_status out = Completed \<longrightarrow> oc_verdict out \<noteq> None)
     \<and> (oc_status out = Failed \<and> oc_verdict out = None \<longrightarrow> oc_failure out \<noteq> None)
     \<and> (\<forall>p n. oc_verdict out = Some (VRespond p n) \<longrightarrow> attached)
     \<and> (oc_verdict out = Some VDiscard \<longrightarrow> \<not> attached)"

lemma driven_attached:
  assumes "driven w d k t p" and "wiring_ok w"
  shows "wk_caller_attached k = dl_caller_attached d"
  using assms
proof (induction rule: driven_induct)
  case begun
  then show ?case by (simp add: start_def)
next
  case (ask k t now st k')
  from ask.hyps(2) ask.IH show ?case
    by (cases rule: asked.cases) (auto elim!: promoteE)
next
  case (answer k t c out now k')
  then show ?case by (auto elim!: answered.cases simp: walk_simps)
qed

text \<open>The execution ends in a walk that was driven to its end, whose outcome can be delivered.\<close>

lemma execute_resolved_driven:
  assumes "compile entry nodes edges = Inr w0" and "sleeps_out h"
  obtains v k t p where "execute_resolved h q (set_hop_limit w0 limit) d i = Some (Delivered v)"
    "driven (set_hop_limit w0 limit) d k t p" "outcome_ended k (Delivered v)"
proof -
  let ?w = "set_hop_limit w0 limit"
  have ok: "wiring_ok ?w" using compile_wiring_ok [OF assms(1)] by simp
  have "dl.finished ?w d (drive (h, q) ?w (start ?w d) ([], i))"
    by (rule dl.run_finishes [OF ok _ driven.begun]) (simp add: assms(2))
  with that show thesis by (auto simp: dl.finished_def outcome_ended_def execute_resolved_def)
qed

lemma driven_deliverable:
  assumes "driven (set_hop_limit w0 limit) d k t p" and "wiring_ok w0"
    and "outcome_ended k (Delivered v)" and "dv_outcome v = Inr out"
  shows "deliverable (dl_caller_attached d) out \<and> oc_hops out \<le> limit"
proof -
  have ok: "wiring_ok (set_hop_limit w0 limit)" using assms(2) by simp
  show ?thesis
    using assms(3,4) driven_over [OF assms(1) ok] driven_attached [OF assms(1) ok]
    by (auto simp: outcome_ended_def deliverable_def outcome_of_def set_hop_limit_def split: sum.splits)
qed

lemma resolved_deliverable:
  assumes "compile entry nodes edges = Inr w0" and "sleeps_out h"
    and "execute_resolved h q (set_hop_limit w0 limit) d i = Some (Delivered v)" and "dv_outcome v = Inr out"
  shows "deliverable (dl_caller_attached d) out"
proof -
  obtain v' k t p where "execute_resolved h q (set_hop_limit w0 limit) d i = Some (Delivered v')"
    "driven (set_hop_limit w0 limit) d k t p" "outcome_ended k (Delivered v')"
    by (rule execute_resolved_driven [OF assms(1,2)])
  with assms(3,4) driven_deliverable compile_wiring_ok [OF assms(1)] show ?thesis by fastforce
qed


text \<open>A host over a counter whose components are always busy.\<close>

definition busy_host :: "(u64, unit) driver_host" where
  "busy_host = \<lparr>dh_now_ms = (\<lambda>i. (i, i)), dh_sleep = (\<lambda>i t. i + t), dh_node_caller = (\<lambda>i. (Inr (Some ()), i)),
     dh_permits = (\<lambda>_ _. True),
     dh_invoke = (\<lambda>i c _ _. (Inr (Inl (GRetryable \<lparr>gd_message = ''busy'', gd_code = None\<rparr>)), i)),
     dh_parse = (\<lambda>_. None)\<rparr>"

lemma busy_sleeps_out: "sleeps_out busy_host"
  by (auto simp: sleeps_out_def busy_host_def saturating_sub_def)


end
