(* ===== verification/Run_Status.thy ===== *)
theory Run_Status
  imports Router_Outcome
begin

text \<open>
  The persisted vocabularies of the run plane (\<^verbatim>\<open>crates/execution/run-state/src/status.rs\<close>): each
  type with the text its column stores and the decoder of that text. The \<open>vocabulary\<close> interface is
  interpreted for each of them, which gives the round trips.
\<close>

datatype run_status = Dispatched | RRunning | RCompleted | RFailed | InfrastructureFailure

definition run_statuses :: "run_status list" where
  "run_statuses = [Dispatched, RRunning, RCompleted, RFailed, InfrastructureFailure]"

fun run_status_sql :: "run_status \<Rightarrow> string" where
  "run_status_sql Dispatched = ''dispatched''"
| "run_status_sql RRunning = ''running''"
| "run_status_sql RCompleted = ''completed''"
| "run_status_sql RFailed = ''failed''"
| "run_status_sql InfrastructureFailure = ''infrastructure-failure''"

definition run_status_from_sql :: "string \<Rightarrow> run_status option" where
  "run_status_from_sql s = find_spelling run_statuses run_status_sql s"

fun run_is_terminal :: "run_status \<Rightarrow> bool" where
  "run_is_terminal RCompleted = True"
| "run_is_terminal RFailed = True"
| "run_is_terminal InfrastructureFailure = True"
| "run_is_terminal Dispatched = False"
| "run_is_terminal RRunning = False"

datatype fail_type =
    FTerminal | FRetryExhausted | FInvalidInput | FRunawayBudget | FDepthBudget | FDispatchBudget
  | FUnresolvableName | FHashInvalidBytes | FForeignRevision | FIncompatibleContract
  | FUnboundRequirement

definition fail_types :: "fail_type list" where
  "fail_types = [FTerminal, FRetryExhausted, FInvalidInput, FRunawayBudget, FDepthBudget,
     FDispatchBudget, FUnresolvableName, FHashInvalidBytes, FForeignRevision, FIncompatibleContract,
     FUnboundRequirement]"

fun fail_type_sql :: "fail_type \<Rightarrow> string" where
  "fail_type_sql FTerminal = ''terminal''"
| "fail_type_sql FRetryExhausted = ''retry-exhausted''"
| "fail_type_sql FInvalidInput = ''invalid-input''"
| "fail_type_sql FRunawayBudget = ''runaway-budget''"
| "fail_type_sql FDepthBudget = ''depth-budget''"
| "fail_type_sql FDispatchBudget = ''dispatch-budget''"
| "fail_type_sql FUnresolvableName = ''unresolvable-name''"
| "fail_type_sql FHashInvalidBytes = ''hash-invalid-bytes''"
| "fail_type_sql FForeignRevision = ''foreign-revision''"
| "fail_type_sql FIncompatibleContract = ''incompatible-contract''"
| "fail_type_sql FUnboundRequirement = ''unbound-requirement''"

definition fail_type_from_sql :: "string \<Rightarrow> fail_type option" where
  "fail_type_from_sql s = find_spelling fail_types fail_type_sql s"

datatype node_run_status = NStarted | NSuccess | NError

definition node_run_statuses :: "node_run_status list" where
  "node_run_statuses = [NStarted, NSuccess, NError]"

fun node_run_status_sql :: "node_run_status \<Rightarrow> string" where
  "node_run_status_sql NStarted = ''started''"
| "node_run_status_sql NSuccess = ''success''"
| "node_run_status_sql NError = ''error''"

definition node_run_status_from_sql :: "string \<Rightarrow> node_run_status option" where
  "node_run_status_from_sql s = find_spelling node_run_statuses node_run_status_sql s"

datatype node_error_type = ERetryable | ERateLimited | ETerminal | EInvalidInput

definition node_error_types :: "node_error_type list" where
  "node_error_types = [ERetryable, ERateLimited, ETerminal, EInvalidInput]"

fun node_error_type_sql :: "node_error_type \<Rightarrow> string" where
  "node_error_type_sql ERetryable = ''retryable''"
| "node_error_type_sql ERateLimited = ''rate-limited''"
| "node_error_type_sql ETerminal = ''terminal''"
| "node_error_type_sql EInvalidInput = ''invalid-input''"

definition node_error_type_from_sql :: "string \<Rightarrow> node_error_type option" where
  "node_error_type_from_sql s = find_spelling node_error_types node_error_type_sql s"

fun node_error_type_of :: "node_error \<Rightarrow> node_error_type" where
  "node_error_type_of (Retryable _) = ERetryable"
| "node_error_type_of (RateLimited _) = ERateLimited"
| "node_error_type_of (Terminal _) = ETerminal"
| "node_error_type_of (InvalidInput _) = EInvalidInput"

section \<open>Each is a vocabulary\<close>

interpretation run_status_voc: vocabulary run_statuses run_status_sql run_status_from_sql
proof
  fix a :: run_status
  show "a \<in> set run_statuses" by (cases a) (simp_all add: run_statuses_def)
qed (simp_all add: run_statuses_def run_status_from_sql_def)

interpretation fail_type_voc: vocabulary fail_types fail_type_sql fail_type_from_sql
proof
  fix a :: fail_type
  show "a \<in> set fail_types" by (cases a) (simp_all add: fail_types_def)
qed (simp_all add: fail_types_def fail_type_from_sql_def)

interpretation node_run_status_voc:
  vocabulary node_run_statuses node_run_status_sql node_run_status_from_sql
proof
  fix a :: node_run_status
  show "a \<in> set node_run_statuses" by (cases a) (simp_all add: node_run_statuses_def)
qed (simp_all add: node_run_statuses_def node_run_status_from_sql_def)

interpretation node_error_type_voc:
  vocabulary node_error_types node_error_type_sql node_error_type_from_sql
proof
  fix a :: node_error_type
  show "a \<in> set node_error_types" by (cases a) (simp_all add: node_error_types_def)
qed (simp_all add: node_error_types_def node_error_type_from_sql_def)

section \<open>Properties\<close>

text \<open>
  The stored text of each vocabulary decodes to exactly the value it was written from, and to
  nothing else: a text decodes to a value exactly when it is that value's spelling.
\<close>

lemma status_texts_round_trip:
  "(run_status_from_sql s = Some r \<longleftrightarrow> s = run_status_sql r)
   \<and> (fail_type_from_sql s = Some f \<longleftrightarrow> s = fail_type_sql f)
   \<and> (node_run_status_from_sql s = Some n \<longleftrightarrow> s = node_run_status_sql n)
   \<and> (node_error_type_from_sql s = Some e \<longleftrightarrow> s = node_error_type_sql e)"
  by (simp add: run_status_voc.parse_iff fail_type_voc.parse_iff node_run_status_voc.parse_iff
      node_error_type_voc.parse_iff)

end
