(* ===== verification/Run_Queue.thy ===== *)
theory Run_Queue
  imports Run_Status
begin

text \<open>
  The pure decisions of the run queue (\<^verbatim>\<open>crates/execution/run-state/src/queue\<close>: \<open>model.rs\<close>, \<open>claim.rs\<close>,
  \<open>lease.rs\<close>, \<open>janitor.rs\<close> and \<open>evt.rs\<close>) and the invariants the repository checks over them
  (\<^verbatim>\<open>invariants.rs\<close>, RUN-2, RUN-3, RUN-4 and RUN-7). Instants are \<open>i64\<close> milliseconds and attempts
  \<open>i32\<close>: both are integers whose sums wrap at their width. A violation carries the name of the
  invariant; its message is left out.
\<close>

section \<open>Rows\<close>

definition i64_add :: "int \<Rightarrow> int \<Rightarrow> int" where
  "i64_add a b = signed_take_bit 63 (a + b)"

definition i32_add :: "int \<Rightarrow> int \<Rightarrow> int" where
  "i32_add a b = signed_take_bit 31 (a + b)"

record queue_entry =
  qe_env_key :: string
  qe_run_id :: string
  qe_priority :: int
  qe_available_at :: int
  qe_enqueued_at :: int
  qe_stream_seq :: int
  qe_lease_owner :: "string option"
  qe_lease_expires_at :: "int option"
  qe_attempts :: int
  qe_max_attempts :: int

definition MAX_RETRY_BACKOFF_MS :: int where "MAX_RETRY_BACKOFF_MS = 300000"

definition ready :: "string \<Rightarrow> string \<Rightarrow> int \<Rightarrow> int \<Rightarrow> queue_entry" where
  "ready env_key run_id available_at budget =
     \<lparr>qe_env_key = env_key, qe_run_id = run_id, qe_priority = 0, qe_available_at = available_at,
      qe_enqueued_at = available_at, qe_stream_seq = 0, qe_lease_owner = None,
      qe_lease_expires_at = None, qe_attempts = 0, qe_max_attempts = budget\<rparr>"

definition with_stream_seq :: "queue_entry \<Rightarrow> int \<Rightarrow> queue_entry" where
  "with_stream_seq e seq = e\<lparr>qe_stream_seq := seq\<rparr>"

section \<open>Leases\<close>

definition lease_live :: "int \<Rightarrow> int option \<Rightarrow> bool" where
  "lease_live now lease_expires_at = (case lease_expires_at of None \<Rightarrow> False | Some t \<Rightarrow> now < t)"

definition lease_deadline :: "int \<Rightarrow> int \<Rightarrow> int" where
  "lease_deadline now ttl = i64_add now ttl"

definition should_renew :: "int \<Rightarrow> int \<Rightarrow> int \<Rightarrow> bool" where
  "should_renew now lease_expires_at renew_before \<longleftrightarrow> i64_add lease_expires_at (- now) \<le> renew_before"

section \<open>Claims\<close>

datatype claim_state_kind = Ready | Leased | Parked | Exhausted

datatype production_claim_class = Ordinary | ExpiredPreEffect

fun claim_state_str :: "claim_state_kind \<Rightarrow> string" where
  "claim_state_str Ready = ''ready''"
| "claim_state_str Leased = ''leased''"
| "claim_state_str Parked = ''parked''"
| "claim_state_str Exhausted = ''exhausted''"

fun claim_class_str :: "production_claim_class \<Rightarrow> string" where
  "claim_class_str Ordinary = ''ordinary''"
| "claim_class_str ExpiredPreEffect = ''expired-pre-effect''"

definition claim_state :: "queue_entry \<Rightarrow> int \<Rightarrow> claim_state_kind" where
  "claim_state e now =
     (if now < qe_available_at e then Parked
      else if lease_live now (qe_lease_expires_at e) then Leased
      else if qe_lease_expires_at e \<noteq> None \<and> qe_max_attempts e \<le> qe_attempts e then Exhausted
      else Ready)"

definition classify_production_claim :: "bool \<Rightarrow> production_claim_class" where
  "classify_production_claim had_prior_lease = (if had_prior_lease then ExpiredPreEffect else Ordinary)"

definition is_claimable :: "queue_entry \<Rightarrow> int \<Rightarrow> bool" where
  "is_claimable e now \<longleftrightarrow> claim_state e now = Ready"

record claimed =
  cd_env_key :: string
  cd_run_id :: string
  cd_attempts :: int
  cd_lease_expires_at :: int

definition claim_key :: "queue_entry \<Rightarrow> int \<times> int \<times> string" where
  "claim_key e = (qe_available_at e, qe_stream_seq e, qe_run_id e)"

definition claim_row :: "int \<Rightarrow> int \<Rightarrow> queue_entry \<Rightarrow> claimed" where
  "claim_row now lease_ttl e =
     \<lparr>cd_env_key = qe_env_key e, cd_run_id = qe_run_id e,
      cd_attempts = i32_add (qe_attempts e) (if qe_lease_expires_at e \<noteq> None then 1 else 0),
      cd_lease_expires_at = i64_add now lease_ttl\<rparr>"

definition plan_claim :: "queue_entry list \<Rightarrow> int \<Rightarrow> nat \<Rightarrow> int \<Rightarrow> claimed list" where
  "plan_claim candidates now limit lease_ttl =
     map (claim_row now lease_ttl)
       (take limit (sort_key claim_key (filter (\<lambda>e. is_claimable e now) candidates)))"

section \<open>The janitor\<close>

datatype janitor_verdict_kind = Live | Reclaimable | Orphaned

definition janitor_verdict :: "queue_entry \<Rightarrow> int \<Rightarrow> int \<Rightarrow> janitor_verdict_kind" where
  "janitor_verdict e now grace =
     (case qe_lease_expires_at e of
        None \<Rightarrow> Reclaimable
      | Some t \<Rightarrow>
          if now < t then Live
          else if i64_add t grace \<le> now \<and> qe_max_attempts e \<le> qe_attempts e then Orphaned
          else Reclaimable)"

definition orphans :: "queue_entry list \<Rightarrow> int \<Rightarrow> int \<Rightarrow> queue_entry list" where
  "orphans rows now grace = filter (\<lambda>e. janitor_verdict e now grace = Orphaned) rows"

section \<open>Event run ids\<close>

definition pad20 :: "nat \<Rightarrow> string" where
  "pad20 n = replicate (20 - length (show_nat n)) (CHR ''0'') @ show_nat n"

definition mint_evt_run_id :: "string \<Rightarrow> u64 \<Rightarrow> string" where
  "mint_evt_run_id flow_id stream_seq = flow_id @ '':evt:'' @ pad20 (unat stream_seq)"

section \<open>The checkers\<close>

datatype run_invariant = RUN_2 | RUN_3 | RUN_4 | RUN_7

record queue_state =
  qs_rows :: "queue_entry list"
  qs_plan :: "claimed list option"
  qs_limit :: nat
  qs_grace :: int
  qs_now :: int

fun live_leases :: "int \<Rightarrow> string list \<Rightarrow> queue_entry list \<Rightarrow> (run_invariant, string list) result" where
  "live_leases now leased [] = Inr leased"
| "live_leases now leased (r # rs) =
     (if lease_live now (qe_lease_expires_at r) then
        if qe_run_id r \<in> set leased then Inl RUN_2
        else live_leases now (qe_run_id r # leased) rs
      else live_leases now leased rs)"

fun claims_apart :: "string list \<Rightarrow> string list \<Rightarrow> claimed list \<Rightarrow> (run_invariant, unit) result" where
  "claims_apart leased seen [] = Inr ()"
| "claims_apart leased seen (c # cs) =
     (if cd_run_id c \<in> set seen then Inl RUN_2
      else if cd_run_id c \<in> set leased then Inl RUN_2
      else claims_apart leased (cd_run_id c # seen) cs)"

definition run_2_one_live_lease :: "queue_state \<Rightarrow> (run_invariant, unit) result" where
  "run_2_one_live_lease s =
     (case live_leases (qs_now s) [] (qs_rows s) of
        Inl e \<Rightarrow> Inl e
      | Inr leased \<Rightarrow> (case qs_plan s of None \<Rightarrow> Inr () | Some plan \<Rightarrow> claims_apart leased [] plan))"

definition run_3_claimable_is_claimed :: "queue_state \<Rightarrow> (run_invariant, unit) result" where
  "run_3_claimable_is_claimed s =
     (case qs_plan s of
        None \<Rightarrow> Inr ()
      | Some plan \<Rightarrow>
          if qs_limit s \<le> length plan then Inr ()
          else if list_ex (\<lambda>r. claim_state r (qs_now s) = Ready \<and> qe_run_id r \<notin> set (map cd_run_id plan))
                 (qs_rows s) then Inl RUN_3
          else Inr ())"

definition over_budget :: "queue_entry list \<Rightarrow> claimed \<Rightarrow> bool" where
  "over_budget rows c =
     (case find (\<lambda>r. qe_run_id r = cd_run_id c) rows of
        None \<Rightarrow> False
      | Some r \<Rightarrow> qe_max_attempts r < cd_attempts c)"

definition run_4_budget_and_janitor :: "queue_state \<Rightarrow> (run_invariant, unit) result" where
  "run_4_budget_and_janitor s =
     (if (case qs_plan s of None \<Rightarrow> False | Some plan \<Rightarrow> list_ex (over_budget (qs_rows s)) plan)
      then Inl RUN_4
      else if list_ex (\<lambda>r. janitor_verdict r (qs_now s) (qs_grace s) = Orphaned
                 \<and> (qe_attempts r < qe_max_attempts r \<or> claim_state r (qs_now s) = Ready)) (qs_rows s)
      then Inl RUN_4
      else Inr ())"

definition run_7_claimable_only_past_expiry :: "queue_state \<Rightarrow> (run_invariant, unit) result" where
  "run_7_claimable_only_past_expiry s =
     (if list_ex (\<lambda>r. claim_state r (qs_now s) = Ready \<and> lease_live (qs_now s) (qe_lease_expires_at r))
           (qs_rows s) then Inl RUN_7 else Inr ())"

definition queue_check :: "queue_state \<Rightarrow> (run_invariant, unit) result" where
  "queue_check s =
     (case run_2_one_live_lease s of
        Inl e \<Rightarrow> Inl e
      | Inr _ \<Rightarrow>
          (case run_3_claimable_is_claimed s of
             Inl e \<Rightarrow> Inl e
           | Inr _ \<Rightarrow>
               (case run_4_budget_and_janitor s of
                  Inl e \<Rightarrow> Inl e
                | Inr _ \<Rightarrow> run_7_claimable_only_past_expiry s)))"

section \<open>Lemmas\<close>

lemma i32_add_eq: "- (2 ^ 31) \<le> a + b \<Longrightarrow> a + b < 2 ^ 31 \<Longrightarrow> i32_add a b = a + b"
  by (simp add: i32_add_def signed_take_bit_int_eq_self)

lemma i64_add_eq: "- (2 ^ 63) \<le> a + b \<Longrightarrow> a + b < 2 ^ 63 \<Longrightarrow> i64_add a b = a + b"
  by (simp add: i64_add_def signed_take_bit_int_eq_self)

lemma claim_state_Ready:
  "claim_state e now = Ready \<longleftrightarrow>
     qe_available_at e \<le> now
     \<and> (qe_lease_expires_at e = None \<or> (\<exists>t. qe_lease_expires_at e = Some t \<and> t \<le> now))
     \<and> (qe_attempts e < qe_max_attempts e \<or> qe_lease_expires_at e = None)"
  by (auto simp: claim_state_def lease_live_def not_less split: option.splits)

lemma Ready_not_live: "claim_state e now = Ready \<Longrightarrow> \<not> lease_live now (qe_lease_expires_at e)"
  by (auto simp: claim_state_def split: if_splits)

lemma Orphaned_not_Ready:
  "janitor_verdict e now grace = Orphaned \<Longrightarrow>
     qe_max_attempts e \<le> qe_attempts e \<and> claim_state e now \<noteq> Ready"
  by (auto simp: janitor_verdict_def claim_state_Ready split: option.splits if_splits)

lemma plan_claim_run_ids:
  "map cd_run_id (plan_claim rows now limit ttl) =
     map qe_run_id (take limit (sort_key claim_key (filter (\<lambda>e. is_claimable e now) rows)))"
  by (simp add: plan_claim_def claim_row_def)

lemma plan_claim_member:
  assumes "c \<in> set (plan_claim rows now limit ttl)"
  obtains e where "e \<in> set rows" "claim_state e now = Ready" "c = claim_row now ttl e"
  using assms by (auto simp: plan_claim_def is_claimable_def dest!: in_set_takeD)

lemma live_leases_distinct:
  assumes "distinct (map qe_run_id rows)" and "set leased \<inter> qe_run_id ` set rows = {}"
  shows "\<exists>out. live_leases now leased rows = Inr out
    \<and> set out = set leased \<union> qe_run_id ` {r \<in> set rows. lease_live now (qe_lease_expires_at r)}"
  using assms
proof (induction rows arbitrary: leased)
  case Nil
  then show ?case by simp
next
  case (Cons r rs)
  then have "set (qe_run_id r # leased) \<inter> qe_run_id ` set rs = {}" "set leased \<inter> qe_run_id ` set rs = {}"
    by auto
  with Cons.IH [of "qe_run_id r # leased"] Cons.IH [of leased] Cons.prems show ?case by auto
qed

lemma claims_apart_ok:
  "distinct (map cd_run_id cs) \<Longrightarrow> set (map cd_run_id cs) \<inter> (set leased \<union> set seen) = {} \<Longrightarrow>
     claims_apart leased seen cs = Inr ()"
  by (induction cs arbitrary: seen) auto

lemma pad20_digits: "n < 10 ^ 20 \<Longrightarrow> length (pad20 n) = 20 \<and> list_all is_digit (pad20 n)"
  using show_nat_length [of n 20] show_nat_digits [of _ n]
  by (auto simp: pad20_def list_all_iff is_digit_def)

lemma pad20_value: "digits_value (pad20 n) = n"
  by (simp add: pad20_def digits_value_zeros)

section \<open>Properties\<close>

text \<open>
  The claim planner keeps every invariant the repository checks: for rows with distinct run ids
  whose attempts are within their budget, at any instant, with any limit, lease and grace, the plan
  passes RUN-2, RUN-3, RUN-4 and RUN-7.
\<close>

lemma queue_check_ok:
  assumes "distinct (map qe_run_id rows)"
    and "\<forall>e \<in> set rows. - (2 ^ 31) \<le> qe_attempts e \<and> qe_attempts e \<le> qe_max_attempts e \<and> qe_max_attempts e < 2 ^ 31"
  shows "queue_check \<lparr>qs_rows = rows, qs_plan = Some (plan_claim rows now limit ttl), qs_limit = limit,
     qs_grace = grace, qs_now = now\<rparr> = Inr ()"
proof -
  let ?plan = "plan_claim rows now limit ttl"
  let ?s = "\<lparr>qs_rows = rows, qs_plan = Some ?plan, qs_limit = limit, qs_grace = grace, qs_now = now\<rparr>"
  obtain leased where leased: "live_leases now [] rows = Inr leased"
    "set leased = qe_run_id ` {r \<in> set rows. lease_live now (qe_lease_expires_at r)}"
    using live_leases_distinct [OF assms(1), of "[]" now] by auto
  have inj: "inj_on qe_run_id (set rows)" using assms(1) by (simp add: distinct_map)
  have "distinct (map cd_run_id ?plan)"
    using assms(1) unfolding plan_claim_run_ids
    by (auto simp: distinct_map intro!: inj_on_subset [OF inj] dest: in_set_takeD)
  moreover have "cd_run_id c \<notin> set leased" if "c \<in> set ?plan" for c
  proof
    assume "cd_run_id c \<in> set leased"
    then obtain r where r: "r \<in> set rows" "lease_live now (qe_lease_expires_at r)" "cd_run_id c = qe_run_id r"
      using leased(2) by auto
    from that obtain e where e: "e \<in> set rows" "claim_state e now = Ready" "c = claim_row now ttl e"
      by (rule plan_claim_member)
    with r inj have "r = e" by (simp add: claim_row_def inj_on_eq_iff)
    with r e Ready_not_live show False by simp
  qed
  ultimately have 2: "run_2_one_live_lease ?s = Inr ()"
    by (auto simp: run_2_one_live_lease_def leased(1) intro!: claims_apart_ok)
  have "qe_run_id r \<in> set (map cd_run_id ?plan)"
    if "length ?plan < limit" "r \<in> set rows" "claim_state r now = Ready" for r
    using that unfolding plan_claim_run_ids by (simp add: plan_claim_def is_claimable_def)
  then have 3: "run_3_claimable_is_claimed ?s = Inr ()"
    by (auto simp: run_3_claimable_is_claimed_def list_ex_iff not_le)
  have "\<not> over_budget rows c" if "c \<in> set ?plan" for c
  proof -
    from that obtain e where e: "e \<in> set rows" "claim_state e now = Ready" "c = claim_row now ttl e"
      by (rule plan_claim_member)
    with find_distinct_image [OF assms(1) e(1)] assms(2) show ?thesis
      by (auto simp: over_budget_def claim_row_def claim_state_Ready i32_add_eq)
  qed
  moreover have "\<not> (qe_attempts r < qe_max_attempts r \<or> claim_state r now = Ready)"
    if "janitor_verdict r now grace = Orphaned" for r
    using Orphaned_not_Ready [OF that] by auto
  ultimately have 4: "run_4_budget_and_janitor ?s = Inr ()"
    by (simp add: run_4_budget_and_janitor_def list_ex_iff)
  have 7: "run_7_claimable_only_past_expiry ?s = Inr ()"
    using Ready_not_live by (auto simp: run_7_claimable_only_past_expiry_def list_ex_iff)
  show ?thesis by (simp add: queue_check_def 2 3 4 7)
qed

definition sample_rows :: "queue_entry list" where
  "sample_rows = [with_stream_seq (ready ''e'' ''b'' 5 3) 2, with_stream_seq (ready ''e'' ''a'' 5 3) 9,
     (ready ''e'' ''c'' 1 3)\<lparr>qe_lease_owner := Some ''w'', qe_lease_expires_at := Some 4, qe_attempts := 2\<rparr>,
     (ready ''e'' ''d'' 1 3)\<lparr>qe_lease_owner := Some ''w'', qe_lease_expires_at := Some 40\<rparr>]"

lemmas sample_row_simps = sample_rows_def ready_def with_stream_seq_def

text \<open>
  The claim is first in, first out: a claimable row that a plan leaves behind is left only
  because the batch is full, and every row taken precedes it in the order of availability, stream
  position and run id.
\<close>

lemma plan_claim_fifo:
  assumes "e \<in> set rows" and "is_claimable e now" and "claim_row now ttl e \<notin> set (plan_claim rows now limit ttl)"
  shows "length (plan_claim rows now limit ttl) = limit
    \<and> (\<forall>c \<in> set (plan_claim rows now limit ttl).
         \<exists>e' \<in> set rows. c = claim_row now ttl e' \<and> claim_key e' \<le> claim_key e)"
proof -
  let ?xs = "sort_key claim_key (filter (\<lambda>e. is_claimable e now) rows)"
  have e: "e \<in> set ?xs" using assms by simp
  have "e \<notin> set (take limit ?xs)" using assms(3) by (auto simp: plan_claim_def)
  with e have drop: "e \<in> set (drop limit ?xs)"
    by (metis Un_iff append_take_drop_id set_append)
  have "sorted (map claim_key (take limit ?xs @ drop limit ?xs))" by simp
  then have "\<forall>x \<in> set (take limit ?xs). claim_key x \<le> claim_key e"
    using drop by (auto simp: sorted_append simp del: append_take_drop_id)
  moreover from drop have "limit < length ?xs" by (metis drop_all empty_iff leI set_empty list.set(1))
  moreover have "set (take limit ?xs) \<subseteq> set rows" by (auto dest: in_set_takeD)
  ultimately show ?thesis unfolding plan_claim_def by auto
qed
text \<open>
  An event run id is one-to-one with its stream position within a flow, and the lexical order
  of the ids is the numeric order of the positions, over the whole 64-bit range.
\<close>

lemma mint_evt_run_id_order:
  "(mint_evt_run_id flow a < mint_evt_run_id flow b \<longleftrightarrow> a < b)
   \<and> (mint_evt_run_id flow a = mint_evt_run_id flow b \<longleftrightarrow> a = b)"
proof -
  have lt: "unat x < 10 ^ 20" for x :: u64
    using unsigned_less [of x, where ?'a = nat] by simp
  have "pad20 (unat a) < pad20 (unat b) \<longleftrightarrow> a < b"
    using digits_order [of "pad20 (unat a)" "pad20 (unat b)"] pad20_digits [OF lt [of a]] pad20_digits [OF lt [of b]]
    by (simp add: pad20_value word_less_nat_alt)
  moreover have "pad20 (unat a) = pad20 (unat b) \<longleftrightarrow> a = b"
    by (metis pad20_value word_unat_eq_iff)
  ultimately show ?thesis by (simp add: mint_evt_run_id_def append_less_cancel)
qed

end
