(* ===== verification/Run_Tables.thy ===== *)
theory Run_Tables
  imports Run_Queue
begin

text \<open>
  The run plane's two tables, \<open>runs\<close> and \<open>run_queue\<close>, and the statements over them: the admission,
  park and release statements of \<^verbatim>\<open>crates/execution/run-state/src/queue/workflow.rs\<close>, the claim, lease,
  release and janitor statements of \<^verbatim>\<open>queue/sql.rs\<close>, the fenced transitions of \<^verbatim>\<open>transitions.rs\<close> and
  the retention statement of \<^verbatim>\<open>sql.rs\<close>. A table is the list of its rows; an \<open>UPDATE\<close> maps over the
  rows its \<open>WHERE\<close> selects, a \<open>DELETE\<close> filters them. A statement that a table constraint refuses is
  \<open>None\<close>. Instants are microseconds, \<open>available_at\<close> may be \<open>infinity\<close>; the clocks a statement reads
  (\<open>now()\<close>, \<open>statement_timestamp()\<close>) and the random jitter are arguments.
\<close>

section \<open>Rows\<close>

datatype instant = At int | Infinity

instantiation instant :: linorder
begin

fun less_eq_instant :: "instant \<Rightarrow> instant \<Rightarrow> bool" where
  "less_eq_instant (At a) (At b) = (a \<le> b)"
| "less_eq_instant _ Infinity = True"
| "less_eq_instant Infinity (At _) = False"

definition less_instant :: "instant \<Rightarrow> instant \<Rightarrow> bool" where
  "less_instant a b = (a \<le> b \<and> \<not> b \<le> a)"

instance
proof
  fix x y z :: instant
  show "x < y \<longleftrightarrow> x \<le> y \<and> \<not> y \<le> x" by (simp add: less_instant_def)
  show "x \<le> x" by (cases x) simp_all
  show "x \<le> y \<Longrightarrow> y \<le> z \<Longrightarrow> x \<le> z" by (cases x; cases y; cases z) simp_all
  show "x \<le> y \<Longrightarrow> y \<le> x \<Longrightarrow> x = y" by (cases x; cases y) simp_all
  show "x \<le> y \<or> y \<le> x" by (cases x; cases y) auto
qed

end

text \<open>The columns admission pins, which no later statement writes.\<close>

record run_pins =
  rp_package_id :: string
  rp_manifest_digest :: "string option"
  rp_environment :: string
  rp_flow_id :: "string option"
  rp_flow_version :: "int option"
  rp_wiring_id :: "string option"
  rp_wiring_version :: "int option"
  rp_wiring_hash :: "string option"
  rp_binding_world :: "json option"
  rp_trigger_source :: "string option"
  rp_service_principal :: "string option"
  rp_execution_principal :: "string option"
  rp_execution_role :: "string option"
  rp_invoked_by :: "string option"
  rp_invoked_by_user :: "string option"
  rp_node_digests :: "json option"
  rp_idempotency_key :: "string option"
  rp_input :: "json option"
  rp_durability_class :: string
  rp_event_source :: "string option"
  rp_event_root :: "string option"
  rp_event_depth :: "int option"
  rp_created_at :: int

record caller_columns =
  cc_type :: "string option"
  cc_body :: "json option"
  cc_http_status :: "int option"
  cc_release_node :: "string option"
  cc_hash :: "string option"
  cc_released_at :: "int option"

record run_row =
  rr_env_key :: string
  rr_run_id :: string
  rr_pins :: run_pins
  rr_status :: run_status
  rr_state :: "json option"
  rr_result :: "json option"
  rr_deadline_adjustments :: "json option"
  rr_caller :: caller_columns
  rr_terminal_reason :: "string option"
  rr_fail_type :: "fail_type option"
  rr_updated_at :: int

record queue_row =
  qr_env_key :: string
  qr_run_id :: string
  qr_available_at :: instant
  qr_stream_seq :: int
  qr_lease_owner :: "string option"
  qr_lease_expires_at :: "int option"
  qr_lease_generation :: int
  qr_attempts :: int
  qr_max_attempts :: int
  qr_enqueued_at :: int

record run_db =
  db_runs :: "run_row list"
  db_queue :: "queue_row list"

definition run_key :: "run_row \<Rightarrow> string \<times> string" where
  "run_key r = (rr_env_key r, rr_run_id r)"

definition queue_key :: "queue_row \<Rightarrow> string \<times> string" where
  "queue_key q = (qr_env_key q, qr_run_id q)"

definition find_run :: "run_db \<Rightarrow> string \<times> string \<Rightarrow> run_row option" where
  "find_run db k = find (\<lambda>r. run_key r = k) (db_runs db)"

definition find_queue :: "run_db \<Rightarrow> string \<times> string \<Rightarrow> queue_row option" where
  "find_queue db k = find (\<lambda>q. queue_key q = k) (db_queue db)"

definition update_run :: "string \<times> string \<Rightarrow> (run_row \<Rightarrow> run_row) \<Rightarrow> run_db \<Rightarrow> run_db" where
  "update_run k f db = db\<lparr>db_runs := map (\<lambda>r. if run_key r = k then f r else r) (db_runs db)\<rparr>"

definition update_queue :: "string \<times> string \<Rightarrow> (queue_row \<Rightarrow> queue_row) \<Rightarrow> run_db \<Rightarrow> run_db" where
  "update_queue k f db = db\<lparr>db_queue := map (\<lambda>q. if queue_key q = k then f q else q) (db_queue db)\<rparr>"

definition delete_queue :: "string \<times> string \<Rightarrow> run_db \<Rightarrow> run_db" where
  "delete_queue k db = db\<lparr>db_queue := filter (\<lambda>q. queue_key q \<noteq> k) (db_queue db)\<rparr>"

text \<open>The row constraints of \<open>runs\<close> that an update of the lifecycle columns can break.\<close>

definition runs_check :: "run_row \<Rightarrow> bool" where
  "runs_check r \<longleftrightarrow>
     rp_created_at (rr_pins r) \<le> rr_updated_at r
     \<and> ((cc_released_at (rr_caller r) = None) = (cc_type (rr_caller r) = None))
     \<and> (cc_type (rr_caller r) = None \<or> cc_body (rr_caller r) \<noteq> None)
     \<and> (cc_type (rr_caller r) = Some ''responded'' \<longrightarrow> cc_release_node (rr_caller r) \<noteq> None)
     \<and> (case cc_type (rr_caller r) of None \<Rightarrow> True | Some t \<Rightarrow> t = ''responded'' \<or> t = ''failed'')
     \<and> (case cc_http_status (rr_caller r) of None \<Rightarrow> True | Some h \<Rightarrow> 100 \<le> h \<and> h \<le> 599)"

definition checked_update ::
    "string \<times> string \<Rightarrow> (run_row \<Rightarrow> run_row) \<Rightarrow> run_db \<Rightarrow> run_db option" where
  "checked_update k f db =
     (case find_run db k of
        None \<Rightarrow> Some db
      | Some r \<Rightarrow> if runs_check (f r) then Some (update_run k f db) else None)"

definition runnable :: "run_status \<Rightarrow> bool" where
  "runnable s \<longleftrightarrow> s = Dispatched \<or> s = RRunning"

definition durable_caller :: "run_row \<Rightarrow> bool" where
  "durable_caller r \<longleftrightarrow> rp_trigger_source (rr_pins r) \<in> {Some ''http'', Some ''internal'', Some ''studio''}"

section \<open>Admission\<close>

definition no_caller :: caller_columns where
  "no_caller = \<lparr>cc_type = None, cc_body = None, cc_http_status = None, cc_release_node = None,
     cc_hash = None, cc_released_at = None\<rparr>"

text \<open>The row an admission writes: \<open>dispatched\<close>, with both stamps at the transaction's instant.\<close>

definition admitted_row :: "string \<Rightarrow> string \<Rightarrow> run_pins \<Rightarrow> run_row" where
  "admitted_row env_key run_id pins =
     \<lparr>rr_env_key = env_key, rr_run_id = run_id, rr_pins = pins, rr_status = Dispatched,
      rr_state = None, rr_result = None, rr_deadline_adjustments = None, rr_caller = no_caller,
      rr_terminal_reason = None, rr_fail_type = None, rr_updated_at = rp_created_at pins\<rparr>"

definition workflow_pins ::
    "string \<Rightarrow> string \<Rightarrow> string \<Rightarrow> string \<Rightarrow> int \<Rightarrow> string \<Rightarrow> string \<Rightarrow> string \<Rightarrow> json \<Rightarrow> string \<Rightarrow> int \<Rightarrow> run_pins" where
  "workflow_pins package manifest environment wiring version hash trigger idempotency_key input durability now =
     \<lparr>rp_package_id = package, rp_manifest_digest = Some manifest, rp_environment = environment,
      rp_flow_id = None, rp_flow_version = None, rp_wiring_id = Some wiring,
      rp_wiring_version = Some version, rp_wiring_hash = Some hash, rp_binding_world = None,
      rp_trigger_source = Some trigger, rp_service_principal = None, rp_execution_principal = None,
      rp_execution_role = None, rp_invoked_by = None, rp_invoked_by_user = None,
      rp_node_digests = None, rp_idempotency_key = Some idempotency_key, rp_input = Some input,
      rp_durability_class = durability, rp_event_source = None, rp_event_root = None,
      rp_event_depth = None, rp_created_at = now\<rparr>"

record admission =
  ad_package :: string
  ad_manifest :: string
  ad_environment :: string
  ad_wiring :: string
  ad_version :: int
  ad_hash :: string
  ad_key :: string
  ad_input :: json
  ad_durability :: string

definition pins_of :: "admission \<Rightarrow> string \<Rightarrow> int \<Rightarrow> run_pins" where
  "pins_of a trigger now =
     workflow_pins (ad_package a) (ad_manifest a) (ad_environment a) (ad_wiring a) (ad_version a)
       (ad_hash a) trigger (ad_key a) (ad_input a) (ad_durability a) now"

definition automation_pins :: "admission \<Rightarrow> string \<Rightarrow> int \<Rightarrow> run_pins" where
  "automation_pins a who now =
     (pins_of a ''automation'' now)\<lparr>rp_service_principal := Some who\<rparr>"

definition event_pins ::
    "admission \<Rightarrow> string \<Rightarrow> string \<Rightarrow> string \<Rightarrow> string option \<Rightarrow> json
       \<Rightarrow> (string \<times> string \<times> int) option \<Rightarrow> int \<Rightarrow> run_pins" where
  "event_pins a who role delivery actor node_digests lineage now =
     (pins_of a ''event'' now)\<lparr>rp_execution_principal := Some who, rp_execution_role := Some role,
        rp_invoked_by := Some delivery, rp_invoked_by_user := actor, rp_node_digests := Some node_digests,
        rp_event_source := map_option fst lineage,
        rp_event_root := map_option (fst \<circ> snd) lineage,
        rp_event_depth := map_option (snd \<circ> snd) lineage\<rparr>"

definition manual_pins :: "admission \<Rightarrow> string \<Rightarrow> string \<Rightarrow> string \<Rightarrow> json \<Rightarrow> int \<Rightarrow> run_pins" where
  "manual_pins a who role user node_digests now =
     (pins_of a ''manual'' now)\<lparr>rp_execution_principal := Some who, rp_execution_role := Some role,
        rp_invoked_by := Some ''manual'', rp_invoked_by_user := Some user,
        rp_node_digests := Some node_digests\<rparr>"

definition schedule_pins :: "admission \<Rightarrow> string \<Rightarrow> string \<Rightarrow> json \<Rightarrow> int \<Rightarrow> run_pins" where
  "schedule_pins a who role node_digests now =
     (pins_of a ''schedule'' now)\<lparr>rp_execution_principal := Some who, rp_execution_role := Some role,
        rp_invoked_by := Some ''schedule'', rp_node_digests := Some node_digests\<rparr>"

definition key_taken :: "run_db \<Rightarrow> string \<Rightarrow> string option \<Rightarrow> bool" where
  "key_taken db env_key key \<longleftrightarrow>
     key \<noteq> None \<and> list_ex (\<lambda>r. rr_env_key r = env_key \<and> rp_idempotency_key (rr_pins r) = key) (db_runs db)"

datatype insert_result = Inserted run_db | Conflicted | Refused

text \<open>
  \<open>ON CONFLICT ... DO NOTHING\<close> on the idempotency index inserts nothing for a key that is taken. The
  run id is the table's default, a fresh uuid; one that is already a primary key is refused.
\<close>

definition insert_run :: "string \<Rightarrow> string \<Rightarrow> run_pins \<Rightarrow> run_db \<Rightarrow> insert_result" where
  "insert_run env_key run_id pins db =
     (if key_taken db env_key (rp_idempotency_key pins) then Conflicted
      else if find_run db (env_key, run_id) \<noteq> None then Refused
      else Inserted (db\<lparr>db_runs := db_runs db @ [admitted_row env_key run_id pins]\<rparr>))"

definition select_first_run :: "run_db \<Rightarrow> string \<Rightarrow> string \<Rightarrow> string \<Rightarrow> json \<Rightarrow> string option" where
  "select_first_run db env_key key trigger input =
     map_option rr_run_id (find (\<lambda>r. rr_env_key r = env_key \<and> rp_idempotency_key (rr_pins r) = Some key
       \<and> rp_trigger_source (rr_pins r) = Some trigger \<and> rp_input (rr_pins r) = Some input) (db_runs db))"

definition select_automation_run :: "run_db \<Rightarrow> string \<Rightarrow> admission \<Rightarrow> string \<Rightarrow> string option" where
  "select_automation_run db env_key a who =
     map_option rr_run_id (find (\<lambda>r. rr_env_key r = env_key
       \<and> rp_package_id (rr_pins r) = ad_package a \<and> rp_manifest_digest (rr_pins r) = Some (ad_manifest a)
       \<and> rp_environment (rr_pins r) = ad_environment a \<and> rp_wiring_id (rr_pins r) = Some (ad_wiring a)
       \<and> rp_wiring_version (rr_pins r) = Some (ad_version a) \<and> rp_wiring_hash (rr_pins r) = Some (ad_hash a)
       \<and> rp_trigger_source (rr_pins r) = Some ''automation''
       \<and> rp_service_principal (rr_pins r) = Some who
       \<and> rp_idempotency_key (rr_pins r) = Some (ad_key a) \<and> rp_input (rr_pins r) = Some (ad_input a)) (db_runs db))"

definition DEFAULT_MAX_ATTEMPTS :: int where "DEFAULT_MAX_ATTEMPTS = 20"

definition insert_run_queue :: "string \<Rightarrow> string \<Rightarrow> int \<Rightarrow> run_db \<Rightarrow> run_db option" where
  "insert_run_queue env_key run_id now db =
     (if find_queue db (env_key, run_id) \<noteq> None \<or> find_run db (env_key, run_id) = None then None
      else Some (db\<lparr>db_queue := db_queue db @
        [\<lparr>qr_env_key = env_key, qr_run_id = run_id, qr_available_at = At now, qr_stream_seq = 0,
          qr_lease_owner = None, qr_lease_expires_at = None, qr_lease_generation = 0, qr_attempts = 0,
          qr_max_attempts = DEFAULT_MAX_ATTEMPTS, qr_enqueued_at = now\<rparr>]\<rparr>))"

section \<open>Park, release and retention\<close>

definition not_leased :: "int \<Rightarrow> queue_row \<Rightarrow> bool" where
  "not_leased now q \<longleftrightarrow> (case qr_lease_expires_at q of None \<Rightarrow> True | Some t \<Rightarrow> t \<le> now)"

definition park_queued_run :: "string \<Rightarrow> string \<Rightarrow> string \<Rightarrow> int \<Rightarrow> run_db \<Rightarrow> string option \<times> run_db" where
  "park_queued_run env_key run_id environment now db =
     (case (find_queue db (env_key, run_id), find_run db (env_key, run_id)) of
        (Some q, Some r) \<Rightarrow>
          if rp_environment (rr_pins r) = environment \<and> rr_status r = Dispatched
             \<and> not_leased now q \<and> qr_available_at q \<noteq> Infinity
          then (Some run_id, update_queue (env_key, run_id) (\<lambda>q. q\<lparr>qr_available_at := Infinity\<rparr>) db)
          else (None, db)
      | _ \<Rightarrow> (None, db))"

definition release_parked_run :: "string \<Rightarrow> string \<Rightarrow> string \<Rightarrow> int \<Rightarrow> run_db \<Rightarrow> string option \<times> run_db" where
  "release_parked_run env_key run_id environment now db =
     (case (find_queue db (env_key, run_id), find_run db (env_key, run_id)) of
        (Some q, Some r) \<Rightarrow>
          if rp_environment (rr_pins r) = environment \<and> qr_available_at q = Infinity
          then (Some run_id, update_queue (env_key, run_id) (\<lambda>q. q\<lparr>qr_available_at := At now\<rparr>) db)
          else (None, db)
      | _ \<Rightarrow> (None, db))"

definition MICROS_PER_DAY :: int where "MICROS_PER_DAY = 86400000000"

definition prunable :: "string \<Rightarrow> int \<Rightarrow> int \<Rightarrow> run_row \<Rightarrow> bool" where
  "prunable env_key retention_days now r \<longleftrightarrow>
     rr_env_key r = env_key \<and> run_is_terminal (rr_status r)
     \<and> rp_created_at (rr_pins r) < now - retention_days * MICROS_PER_DAY"

text \<open>The queue rows of a deleted run go with it, by the foreign key's cascade.\<close>

definition prune_terminal_runs :: "string \<Rightarrow> int \<Rightarrow> int \<Rightarrow> run_db \<Rightarrow> run_db" where
  "prune_terminal_runs env_key retention_days now db =
     (let gone = map run_key (filter (prunable env_key retention_days now) (db_runs db)) in
      \<lparr>db_runs = filter (\<lambda>r. \<not> prunable env_key retention_days now r) (db_runs db),
       db_queue = filter (\<lambda>q. queue_key q \<notin> set gone) (db_queue db)\<rparr>)"

end
