(* ===== verification/Run_Statements.thy ===== *)
theory Run_Statements
  imports Run_Tables
begin

text \<open>
  The claim, lease, release and janitor statements (\<^verbatim>\<open>crates/execution/run-state/src/queue/sql.rs\<close>) and the
  fenced transitions (\<^verbatim>\<open>crates/execution/run-state/src/transitions.rs\<close>), each as the change it makes
  and the row it returns. Rows that another transaction holds are the \<open>locked\<close> argument of the two
  selects that \<open>SKIP LOCKED\<close>.
\<close>

section \<open>Claim and lease\<close>

definition claim_order :: "queue_row \<Rightarrow> instant \<times> int \<times> string" where
  "claim_order q = (qr_available_at q, qr_stream_seq q, qr_run_id q)"

definition first_by_order :: "queue_row list \<Rightarrow> queue_row option" where
  "first_by_order qs = (case sort_key claim_order qs of [] \<Rightarrow> None | q # _ \<Rightarrow> Some q)"

definition in_scope :: "run_db \<Rightarrow> string \<Rightarrow> string list \<Rightarrow> string \<Rightarrow> string list \<Rightarrow> (run_row \<Rightarrow> bool) \<Rightarrow> queue_row \<Rightarrow> bool" where
  "in_scope db env_key package_ids environment locked P q \<longleftrightarrow>
     qr_env_key q = env_key \<and> qr_run_id q \<notin> set locked \<and>
     (case find_run db (queue_key q) of
        None \<Rightarrow> False
      | Some r \<Rightarrow> rp_package_id (rr_pins r) \<in> set package_ids
          \<and> rp_environment (rr_pins r) = environment \<and> P r)"

definition claim_eligible :: "int \<Rightarrow> queue_row \<Rightarrow> bool" where
  "claim_eligible now q \<longleftrightarrow>
     qr_available_at q \<le> At now \<and> not_leased now q
     \<and> (qr_attempts q < qr_max_attempts q \<or> qr_lease_expires_at q = None)"

definition select_production_claim ::
    "run_db \<Rightarrow> string \<Rightarrow> string list \<Rightarrow> string \<Rightarrow> string option \<Rightarrow> int \<Rightarrow> string list \<Rightarrow> queue_row option" where
  "select_production_claim db env_key package_ids environment release now locked =
     first_by_order (filter (\<lambda>q. claim_eligible now q \<and>
       in_scope db env_key package_ids environment locked
         (\<lambda>r. rp_manifest_digest (rr_pins r) = release) q) (db_queue db))"

definition router_caller_attached :: "run_row \<Rightarrow> bool" where
  "router_caller_attached r \<longleftrightarrow> durable_caller r \<or>
     (rp_flow_id (rr_pins r) = None \<and> rp_flow_version (rr_pins r) = None
      \<and> rp_trigger_source (rr_pins r) \<in> {Some ''scenario-draft'', Some ''test-case''})"

definition clear_pre_effect_state :: "string \<times> string \<Rightarrow> run_db \<Rightarrow> run_db" where
  "clear_pre_effect_state k db = update_run k (\<lambda>r. r\<lparr>rr_state := None\<rparr>) db"

definition advance_claim_attempts :: "string \<times> string \<Rightarrow> run_db \<Rightarrow> run_db" where
  "advance_claim_attempts k db =
     update_queue k (\<lambda>q. q\<lparr>qr_attempts := qr_attempts q + (if qr_lease_expires_at q \<noteq> None then 1 else 0)\<rparr>) db"

definition lease_row :: "string \<Rightarrow> int \<Rightarrow> int \<Rightarrow> queue_row \<Rightarrow> queue_row" where
  "lease_row owner ttl_ms ts q =
     q\<lparr>qr_lease_owner := Some owner, qr_lease_expires_at := Some (ts + ttl_ms * 1000),
       qr_lease_generation := qr_lease_generation q + 1\<rparr>"

text \<open>\<open>None\<close> is no row: the run is not runnable or its pin is not the claiming pod's.\<close>

definition grant_production_claim ::
    "string \<times> string \<Rightarrow> string \<Rightarrow> int \<Rightarrow> string option \<Rightarrow> int \<Rightarrow> run_db \<Rightarrow> (int \<times> run_db) option" where
  "grant_production_claim k owner ttl_ms digest ts db =
     (case (find_queue db k, find_run db k) of
        (Some q, Some r) \<Rightarrow>
          if runnable (rr_status r) \<and> (digest = None \<or> rp_manifest_digest (rr_pins r) = digest)
          then Some (qr_lease_generation q + 1,
                 update_run k (\<lambda>r. r\<lparr>rr_status := RRunning\<rparr>) (update_queue k (lease_row owner ttl_ms ts) db))
          else None
      | _ \<Rightarrow> None)"

definition holds_live :: "string \<Rightarrow> int \<Rightarrow> int \<Rightarrow> queue_row \<Rightarrow> bool" where
  "holds_live owner generation ts q \<longleftrightarrow>
     qr_lease_owner q = Some owner \<and> qr_lease_generation q = generation
     \<and> (case qr_lease_expires_at q of None \<Rightarrow> False | Some t \<Rightarrow> ts < t)"

definition renew_production_lease ::
    "string \<times> string \<Rightarrow> string \<Rightarrow> int \<Rightarrow> int \<Rightarrow> int \<Rightarrow> run_db \<Rightarrow> run_db option" where
  "renew_production_lease k owner generation ttl_ms ts db =
     (case find_queue db k of
        None \<Rightarrow> None
      | Some q \<Rightarrow>
          if holds_live owner generation ts q
          then Some (update_queue k (\<lambda>q. q\<lparr>qr_lease_expires_at := Some (ts + ttl_ms * 1000)\<rparr>) db)
          else None)"

text \<open>
  The delay of a released claim in microseconds: a second, doubled for each attempt up to the ninth,
  with the jitter \<open>1 + random() * 0.2\<close>, and at most five minutes. \<open>jitter\<close> is the value of \<open>random()\<close>.
\<close>

definition release_delay :: "int \<Rightarrow> rat \<Rightarrow> int" where
  "release_delay attempts jitter =
     round (min (of_int MAX_RETRY_BACKOFF_MS)
              (1000 * 2 ^ nat (min attempts 9) * (1 + jitter * (1 / 5))) * 1000)"

definition released_row :: "int \<Rightarrow> rat \<Rightarrow> queue_row \<Rightarrow> queue_row" where
  "released_row ts jitter q =
     q\<lparr>qr_attempts := qr_attempts q + 1, qr_lease_owner := None, qr_lease_expires_at := None,
       qr_available_at := At (ts + release_delay (qr_attempts q) jitter)\<rparr>"

definition release_production_claim ::
    "string \<times> string \<Rightarrow> string \<Rightarrow> int \<Rightarrow> int \<Rightarrow> rat \<Rightarrow> run_db
       \<Rightarrow> ((bool \<times> string option \<times> int option) \<times> run_db) option" where
  "release_production_claim k owner generation ts jitter db =
     (case (find_queue db k, find_run db k) of
        (Some q, Some r) \<Rightarrow>
          if holds_live owner generation ts q \<and> runnable (rr_status r)
          then Some ((qr_max_attempts q \<le> qr_attempts q + 1, rp_wiring_id (rr_pins r), rp_wiring_version (rr_pins r)),
                 update_queue k (released_row ts jitter) db)
          else None
      | _ \<Rightarrow> None)"

section \<open>The janitor\<close>

definition exhausted_past_grace :: "int \<Rightarrow> int \<Rightarrow> queue_row \<Rightarrow> bool" where
  "exhausted_past_grace grace_ms now q \<longleftrightarrow>
     (case qr_lease_expires_at q of None \<Rightarrow> False | Some t \<Rightarrow> t + grace_ms * 1000 \<le> now)
     \<and> qr_max_attempts q \<le> qr_attempts q"

definition select_exhausted_production ::
    "run_db \<Rightarrow> string \<Rightarrow> int \<Rightarrow> string list \<Rightarrow> string \<Rightarrow> int \<Rightarrow> string list \<Rightarrow> queue_row option" where
  "select_exhausted_production db env_key grace_ms package_ids environment now locked =
     first_by_order (filter (\<lambda>q. exhausted_past_grace grace_ms now q \<and>
       in_scope db env_key package_ids environment locked (\<lambda>r. runnable (rr_status r)) q) (db_queue db))"

definition terminal_row ::
    "run_status \<Rightarrow> fail_type option \<Rightarrow> json \<Rightarrow> string \<Rightarrow> int \<Rightarrow> run_row \<Rightarrow> run_row" where
  "terminal_row status kind body hash stamp r =
     (let candidate_result = (kind \<noteq> None \<or>
            (rp_flow_id (rr_pins r) = None \<and> rp_flow_version (rr_pins r) = None
             \<and> rp_wiring_hash (rr_pins r) \<noteq> None \<and> rp_binding_world (rr_pins r) \<noteq> None));
          unreleased_attached = (durable_caller r \<and> cc_released_at (rr_caller r) = None)
      in r\<lparr>rr_status := status,
           rr_terminal_reason := Some (case kind of None \<Rightarrow> run_status_sql status | Some f \<Rightarrow> fail_type_sql f),
           rr_fail_type := (case kind of None \<Rightarrow> rr_fail_type r | Some f \<Rightarrow> Some f),
           rr_result := (if candidate_result then Some body else rr_result r),
           rr_caller := (if unreleased_attached
              then \<lparr>cc_type = Some ''failed'', cc_body = Some body, cc_http_status = Some 500,
                    cc_release_node = None, cc_hash = Some hash, cc_released_at = Some stamp\<rparr>
              else rr_caller r),
           rr_updated_at := stamp\<rparr>)"

datatype 'a statement = Rows 'a | NoRow | StatementRefused

definition terminalize_exhausted ::
    "string \<times> string \<Rightarrow> run_status \<Rightarrow> fail_type option \<Rightarrow> json \<Rightarrow> string \<Rightarrow> int \<Rightarrow> run_db
       \<Rightarrow> (run_status \<times> run_db) statement" where
  "terminalize_exhausted k status kind body hash stamp db =
     (case find_run db k of
        None \<Rightarrow> NoRow
      | Some r \<Rightarrow>
          if \<not> runnable (rr_status r) then NoRow
          else
            (case checked_update k (terminal_row status kind body hash stamp) db of
               None \<Rightarrow> StatementRefused
             | Some db1 \<Rightarrow>
                 if find_queue db k = None then NoRow
                 else Rows (status, delete_queue k db1)))"

section \<open>The fence\<close>

definition fence_code :: "run_db \<Rightarrow> string \<Rightarrow> string \<Rightarrow> string \<Rightarrow> string \<Rightarrow> int \<Rightarrow> string" where
  "fence_code db env_key target authority owner generation =
     (if target \<noteq> authority then ''cross-run-authority''
      else
        (case find_run db (env_key, target) of
           None \<Rightarrow> ''not-found''
         | Some r \<Rightarrow>
             if run_is_terminal (rr_status r) then ''run-terminal''
             else
               (case find_queue db (env_key, target) of
                  None \<Rightarrow> ''fence-lost''
                | Some q \<Rightarrow>
                    if qr_lease_owner q \<noteq> Some owner \<or> qr_lease_generation q \<noteq> generation
                    then ''fence-lost'' else ''ready'')))"

record stored_caller_outcome =
  so_type :: string
  so_body :: json
  so_http_status :: "int option"
  so_release_node :: "string option"
  so_hash :: "string option"

definition exactly_matches ::
    "stored_caller_outcome \<Rightarrow> string \<Rightarrow> json \<Rightarrow> int option \<Rightarrow> string option \<Rightarrow> string \<Rightarrow> bool" where
  "exactly_matches s kind body http_status release_node hash \<longleftrightarrow>
     so_type s = kind \<and> so_body s = body \<and> so_http_status s = http_status
     \<and> so_release_node s = release_node \<and> so_hash s = Some hash"

datatype caller_release_result =
    Released | AlreadyReleased stored_caller_outcome | RunTerminal run_status | FenceLost
  | CrossRunAuthority | NotFound

definition release_from_parts ::
    "string \<Rightarrow> string \<Rightarrow> string option \<Rightarrow> json option \<Rightarrow> int option \<Rightarrow> string option \<Rightarrow> string option
       \<Rightarrow> caller_release_result option" where
  "release_from_parts code status kind body http_status release_node hash =
     (if code = ''released'' then Some Released
      else if code = ''already-released'' then
        (case (kind, body) of
           (Some t, Some b) \<Rightarrow> Some (AlreadyReleased \<lparr>so_type = t, so_body = b, so_http_status = http_status,
              so_release_node = release_node, so_hash = hash\<rparr>)
         | _ \<Rightarrow> None)
      else if code = ''run-terminal'' then map_option RunTerminal (run_status_from_sql status)
      else if code = ''fence-lost'' then Some FenceLost
      else if code = ''cross-run-authority'' then Some CrossRunAuthority
      else if code = ''not-found'' then Some NotFound
      else None)"

definition release_permits_access :: "caller_release_result \<Rightarrow> bool" where
  "release_permits_access r \<longleftrightarrow> r \<noteq> FenceLost"

record release_row =
  rw_code :: string
  rw_status :: "run_status option"
  rw_caller :: caller_columns

definition fenced_run :: "run_db \<Rightarrow> string \<Rightarrow> string \<Rightarrow> string \<Rightarrow> run_row option" where
  "fenced_run db env_key target authority =
     (if target = authority then find_run db (env_key, target) else None)"

definition release_caller ::
    "string \<Rightarrow> string \<Rightarrow> string \<Rightarrow> string \<Rightarrow> int \<Rightarrow> caller_columns \<Rightarrow> int \<Rightarrow> run_db
       \<Rightarrow> (release_row \<times> run_db) option" where
  "release_caller env_key target authority owner generation outcome stamp db =
     (let run = fenced_run db env_key target authority;
          code = fence_code db env_key target authority owner generation;
          caller = (case run of None \<Rightarrow> no_caller | Some r \<Rightarrow> rr_caller r);
          classified =
            (if code = ''run-terminal'' \<and> cc_released_at caller \<noteq> None then ''already-released''
             else if code \<noteq> ''ready'' then code
             else if cc_released_at caller \<noteq> None then ''already-released''
             else ''ready'');
          write = (\<lambda>r. r\<lparr>rr_caller := outcome\<lparr>cc_released_at := Some stamp\<rparr>, rr_updated_at := stamp\<rparr>)
      in if classified = ''ready'' then
           (case checked_update (env_key, target) write db of
              None \<Rightarrow> None
            | Some db1 \<Rightarrow> Some (\<lparr>rw_code = ''released'', rw_status = map_option rr_status run,
                rw_caller = outcome\<rparr>, db1))
         else Some (\<lparr>rw_code = classified, rw_status = map_option rr_status run, rw_caller = caller\<rparr>, db))"

definition record_deadline_adjustments ::
    "string \<Rightarrow> string \<Rightarrow> string \<Rightarrow> string \<Rightarrow> int \<Rightarrow> json \<Rightarrow> run_db \<Rightarrow> bool \<times> run_db" where
  "record_deadline_adjustments env_key target authority owner generation adjustments db =
     (if fence_code db env_key target authority owner generation = ''ready''
      then (True, update_run (env_key, target) (\<lambda>r. r\<lparr>rr_deadline_adjustments := Some adjustments\<rparr>) db)
      else (False, db))"

datatype terminalize_result =
    Terminalized | TRunTerminal run_status | CallerUnreleased | TFenceLost | TCrossRunAuthority | TNotFound

definition terminalize_from_parts :: "string \<Rightarrow> string \<Rightarrow> terminalize_result option" where
  "terminalize_from_parts code status =
     (if code = ''terminalized'' then Some Terminalized
      else if code = ''run-terminal'' then map_option TRunTerminal (run_status_from_sql status)
      else if code = ''caller-unreleased'' then Some CallerUnreleased
      else if code = ''fence-lost'' then Some TFenceLost
      else if code = ''cross-run-authority'' then Some TCrossRunAuthority
      else if code = ''not-found'' then Some TNotFound
      else None)"

definition terminalize_permits_access :: "terminalize_result \<Rightarrow> bool" where
  "terminalize_permits_access r \<longleftrightarrow> r \<noteq> TFenceLost"

definition terminalize ::
    "string \<Rightarrow> string \<Rightarrow> string \<Rightarrow> string \<Rightarrow> int \<Rightarrow> run_status \<Rightarrow> string \<Rightarrow> json \<Rightarrow> fail_type option \<Rightarrow> int
       \<Rightarrow> run_db \<Rightarrow> ((string \<times> run_status option) \<times> run_db) option" where
  "terminalize env_key target authority owner generation status reason result kind stamp db =
     (let run = fenced_run db env_key target authority;
          code = fence_code db env_key target authority owner generation;
          unreleased = (case run of None \<Rightarrow> False
             | Some r \<Rightarrow> cc_released_at (rr_caller r) = None \<and> durable_caller r);
          classified =
            (if code \<noteq> ''ready'' then code
             else if status = RCompleted \<and> unreleased then ''caller-unreleased''
             else ''ready'');
          write = (\<lambda>r. r\<lparr>rr_status := status, rr_terminal_reason := Some reason,
             rr_result := Some result, rr_fail_type := kind, rr_updated_at := stamp\<rparr>)
      in if classified = ''ready'' then
           (case checked_update (env_key, target) write db of
              None \<Rightarrow> None
            | Some db1 \<Rightarrow> Some ((''terminalized'', Some status), delete_queue (env_key, target) db1))
         else Some ((classified, map_option rr_status run), db))"

end
