(* ===== verification/Run_Store.thy ===== *)
theory Run_Store
  imports Run_Statements
begin

text \<open>
  The queued-run store (\<^verbatim>\<open>crates/platform/runtime/src/plugins/wamn_postgres/production_claim.rs\<close>, the
  implementation of \<^verbatim>\<open>crates/execution/run-state/src/run_store.rs\<close>) and the manual and schedule
  admissions of \<^verbatim>\<open>event_admission.rs\<close>: each operation is one transaction over the two tables, which
  commits the tables it built or, on an error, rolls back to the tables it was given. Checkout,
  the session claims and the role membership are the caller's: \<open>authority\<close> is whether the connected
  user is a member of the executor role. The SHA-256 of the canonical JSON and the decoder of a
  candidate's binding world are arguments.
\<close>

section \<open>Errors and results\<close>

datatype claim_error_type = IdentityError | WiringIdentityError | StorageError | ContractError

type_synonym claim_error = "claim_error_type \<times> string"
type_synonym 'a txn = "(claim_error, 'a \<times> run_db) result"

definition finish :: "run_db \<Rightarrow> 'a txn \<Rightarrow> (claim_error, 'a) result \<times> run_db" where
  "finish db t = (case t of Inl e \<Rightarrow> (Inl e, db) | Inr (v, db') \<Rightarrow> (Inr v, db'))"

definition require_executor_authority :: "bool \<Rightarrow> 'a txn \<Rightarrow> 'a txn" where
  "require_executor_authority authority t =
     (if authority then t else Inl (IdentityError, ''executor-platform-authority-required''))"

record production_workflow =
  pw_wiring_hash :: string
  pw_execution_principal :: string
  pw_execution_role :: string
  pw_node_digests :: "(string \<times> string) list"
  pw_causation :: "(string \<times> string \<times> nat) option"

record selected_claim =
  sc_run_id :: string
  sc_package_id :: string
  sc_had_prior_lease :: bool
  sc_status :: run_status
  sc_payload :: json
  sc_wiring_id :: string
  sc_wiring_version :: int
  sc_router_caller_attached :: bool
  sc_durable_caller_attached :: bool
  sc_candidate :: "(string \<times> json) option"
  sc_service_principal :: "string option"
  sc_workflow :: "production_workflow option"

datatype production_claim_result = Empty | ReadyRun selected_claim int

datatype claim_turn = Claimed production_claim_result | GrantRefused claim_error

datatype production_lease_renewal = Renewed | RenewalFenceLost

datatype production_completion_result =
    CompletionTerminalized | AlreadyTerminal run_status | CompletionFenceLost | CompletionNotFound

datatype production_reap_result = NothingReaped | Reaped string

record production_caller_outcome =
  po_kind :: string
  po_body :: json
  po_http_status :: int
  po_release_node :: "string option"

definition responded :: "json \<Rightarrow> int \<Rightarrow> string \<Rightarrow> production_caller_outcome" where
  "responded body http_status node =
     \<lparr>po_kind = ''responded'', po_body = body, po_http_status = http_status, po_release_node = Some node\<rparr>"

definition caller_failed :: "json \<Rightarrow> int \<Rightarrow> string option \<Rightarrow> production_caller_outcome" where
  "caller_failed body http_status node =
     \<lparr>po_kind = ''failed'', po_body = body, po_http_status = http_status, po_release_node = node\<rparr>"

record production_completion =
  pc_status :: run_status
  pc_terminal_reason :: string
  pc_result :: json
  pc_fail_type :: "fail_type option"
  pc_caller :: "production_caller_outcome option"

definition completion_completed :: "json \<Rightarrow> production_caller_outcome option \<Rightarrow> production_completion" where
  "completion_completed result caller =
     \<lparr>pc_status = RCompleted, pc_terminal_reason = ''router-completed'', pc_result = result,
      pc_fail_type = None, pc_caller = caller\<rparr>"

definition completion_failed ::
    "json \<Rightarrow> fail_type \<Rightarrow> production_caller_outcome option \<Rightarrow> production_completion" where
  "completion_failed result kind caller =
     \<lparr>pc_status = RFailed, pc_terminal_reason = ''router-failed'', pc_result = result,
      pc_fail_type = Some kind, pc_caller = caller\<rparr>"

section \<open>Decoding the selected run\<close>

definition decode_wiring_identity :: "string option \<Rightarrow> int option \<Rightarrow> (claim_error, string \<times> int) result" where
  "decode_wiring_identity wiring_id wiring_version =
     (case (wiring_id, wiring_version) of
        (Some i, Some v) \<Rightarrow>
          if i \<noteq> '''' \<and> 0 < v then Inr (i, v)
          else Inl (WiringIdentityError, ''run-wiring-identity-corrupt'')
      | (None, None) \<Rightarrow> Inl (WiringIdentityError, ''run-wiring-identity-missing'')
      | _ \<Rightarrow> Inl (WiringIdentityError, ''run-wiring-identity-corrupt''))"

fun string_members :: "(string \<times> json) list \<Rightarrow> (string \<times> string) list option" where
  "string_members [] = Some []"
| "string_members ((k, JString v) # ms) = map_option (\<lambda>rest. (k, v) # rest) (string_members ms)"
| "string_members ((k, _) # ms) = None"

fun string_map :: "json \<Rightarrow> (string \<times> string) list option" where
  "string_map (JObject ms) = string_members ms"
| "string_map _ = None"

definition decode_workflow ::
    "string option \<Rightarrow> string option \<Rightarrow> string option \<Rightarrow> string option \<Rightarrow> json option
       \<Rightarrow> (claim_error, production_workflow option) result" where
  "decode_workflow wiring_hash trigger_source who role node_digests =
     (let workflow = trigger_source \<in> {Some ''manual'', Some ''schedule'', Some ''event''};
          corrupt = Inl (ContractError, ''run-workflow-execution-corrupt'')
      in if \<not> workflow \<and> who = None \<and> role = None \<and> node_digests = None then Inr None
         else
           (case (wiring_hash, who, role, node_digests) of
              (Some h, Some p, Some ro, Some nd) \<Rightarrow>
                if workflow \<and> ro \<noteq> '''' then
                  (case string_map nd of
                     None \<Rightarrow> corrupt
                   | Some m \<Rightarrow> Inr (Some \<lparr>pw_wiring_hash = h, pw_execution_principal = p,
                       pw_execution_role = ro, pw_node_digests = m, pw_causation = None\<rparr>))
                else corrupt
            | _ \<Rightarrow> corrupt))"

definition decode_candidate ::
    "(json \<Rightarrow> bool) \<Rightarrow> run_pins \<Rightarrow> (claim_error, (string \<times> json) option) result" where
  "decode_candidate world_ok p =
     (case (rp_flow_id p, rp_flow_version p, rp_wiring_hash p, rp_binding_world p) of
        (None, None, Some h, None) \<Rightarrow>
          if h \<noteq> '''' then Inr None else Inl (ContractError, ''run-execution-grain-corrupt'')
      | (Some f, Some v, None, None) \<Rightarrow>
          if f \<noteq> '''' \<and> 0 < v then Inr None else Inl (ContractError, ''run-execution-grain-corrupt'')
      | (None, None, Some h, Some b) \<Rightarrow>
          if h = '''' then Inl (ContractError, ''run-execution-grain-corrupt'')
          else if world_ok b then Inr (Some (h, b))
          else Inl (ContractError, ''candidate-binding-world'')
      | _ \<Rightarrow> Inl (ContractError, ''run-execution-grain-corrupt''))"

text \<open>The causation of a workflow run: its depth is an \<open>i32\<close> column read as a \<open>u32\<close>.\<close>

definition with_causation ::
    "run_row \<Rightarrow> production_workflow option \<Rightarrow> (claim_error, production_workflow option) result" where
  "with_causation r workflow =
     (case workflow of
        None \<Rightarrow> Inr None
      | Some w \<Rightarrow>
          (case (rp_event_root (rr_pins r), rp_event_depth (rr_pins r)) of
             (Some origin, Some depth) \<Rightarrow>
               if depth < 0 then Inl (ContractError, ''decode event depth'')
               else Inr (Some (w\<lparr>pw_causation := Some (rr_run_id r, origin, nat depth)\<rparr>))
           | _ \<Rightarrow> Inr (Some w)))"

definition decode_selected_claim ::
    "(json \<Rightarrow> bool) \<Rightarrow> run_row \<Rightarrow> bool \<Rightarrow> (claim_error, selected_claim) result" where
  "decode_selected_claim world_ok r had_prior_lease =
     (let p = rr_pins r in
      case rp_input p of
        None \<Rightarrow> Inl (ContractError, ''authoritative input'')
      | Some payload \<Rightarrow>
          (case decode_wiring_identity (rp_wiring_id p) (rp_wiring_version p) of
             Inl e \<Rightarrow> Inl e
           | Inr (wiring_id, wiring_version) \<Rightarrow>
               (case decode_candidate world_ok p of
                  Inl e \<Rightarrow> Inl e
                | Inr candidate \<Rightarrow>
                    if candidate \<noteq> None \<and> (\<not> router_caller_attached r \<or> durable_caller r)
                    then Inl (ContractError, ''candidate-caller-grain-corrupt'')
                    else
                      (case decode_workflow (rp_wiring_hash p) (rp_trigger_source p)
                          (rp_execution_principal p) (rp_execution_role p) (rp_node_digests p) of
                         Inl e \<Rightarrow> Inl e
                       | Inr w0 \<Rightarrow>
                           (case with_causation r w0 of
                              Inl e \<Rightarrow> Inl e
                            | Inr workflow \<Rightarrow>
                                if workflow \<noteq> None \<and> (candidate \<noteq> None \<or> rp_service_principal p \<noteq> None)
                                then Inl (ContractError, ''run-execution-grain-corrupt'')
                                else Inr
                                  \<lparr>sc_run_id = rr_run_id r, sc_package_id = rp_package_id p,
                                   sc_had_prior_lease = had_prior_lease, sc_status = rr_status r,
                                   sc_payload = payload, sc_wiring_id = wiring_id,
                                   sc_wiring_version = wiring_version,
                                   sc_router_caller_attached = router_caller_attached r,
                                   sc_durable_caller_attached = durable_caller r,
                                   sc_candidate = candidate,
                                   sc_service_principal = rp_service_principal p,
                                   sc_workflow = workflow\<rparr>)))))"

section \<open>Transactions\<close>

text \<open>
  The claim turn. \<open>guard_refuses\<close> is a database guard that may abort the grant: the grant then rolls
  back to its savepoint, and the turn commits what came before it.
\<close>

definition claim_in_transaction ::
    "(json \<Rightarrow> bool) \<Rightarrow> (run_row \<Rightarrow> bool) \<Rightarrow> bool \<Rightarrow> string \<Rightarrow> string \<Rightarrow> string list \<Rightarrow> string \<Rightarrow> int
       \<Rightarrow> string option \<Rightarrow> int \<Rightarrow> int \<Rightarrow> string list \<Rightarrow> run_db \<Rightarrow> claim_turn txn" where
  "claim_in_transaction world_ok guard_refuses authority env_key runner package_ids environment
       lease_ttl_ms release now ts locked db =
     require_executor_authority authority
       (case select_production_claim db env_key package_ids environment release now locked of
          None \<Rightarrow> Inr (Claimed Empty, db)
        | Some q \<Rightarrow>
            (case find_run db (queue_key q) of
               None \<Rightarrow> Inr (Claimed Empty, db)
             | Some r \<Rightarrow>
                 (case decode_selected_claim world_ok r (qr_lease_expires_at q \<noteq> None) of
                    Inl e \<Rightarrow> Inl e
                  | Inr selected \<Rightarrow>
                      if \<not> runnable (sc_status selected) then Inl (ContractError, ''validate selected run'')
                      else
                        (let db1 = (case classify_production_claim (sc_had_prior_lease selected) of
                               ExpiredPreEffect \<Rightarrow> clear_pre_effect_state (queue_key q) db
                             | Ordinary \<Rightarrow> db);
                             db2 = advance_claim_attempts (queue_key q) db1;
                             digest = (if sc_candidate selected = None then release else None)
                         in if guard_refuses r then Inr (GrantRefused (StorageError, ''grant production lease''), db2)
                            else
                              (case grant_production_claim (queue_key q) runner lease_ttl_ms digest ts db2 of
                                 None \<Rightarrow> Inl (ContractError,
                                   ''claiming release digest does not match the run admission pin'')
                               | Some (generation, db3) \<Rightarrow>
                                   Inr (Claimed (ReadyRun selected generation), db3))))))"

definition valid_package_scope :: "string list \<Rightarrow> bool" where
  "valid_package_scope package_ids \<longleftrightarrow> package_ids \<noteq> [] \<and>
     list_all (\<lambda>p. p \<noteq> [] \<and> trims_to_itself p \<and> CHR 0x00 \<notin> set p) package_ids"

definition claim_next ::
    "(json \<Rightarrow> bool) \<Rightarrow> (run_row \<Rightarrow> bool) \<Rightarrow> bool \<Rightarrow> string \<Rightarrow> string \<Rightarrow> string list \<Rightarrow> string \<Rightarrow> int
       \<Rightarrow> string option \<Rightarrow> int \<Rightarrow> int \<Rightarrow> string list \<Rightarrow> run_db
       \<Rightarrow> (claim_error, production_claim_result) result \<times> run_db" where
  "claim_next world_ok guard_refuses authority env_key runner package_ids environment lease_ttl_ms
       release now ts locked db =
     (if \<not> valid_package_scope package_ids \<or> environment = [] \<or> lease_ttl_ms \<le> 0 then
        (Inl (ContractError, ''validate queue scope''), db)
      else
        (case finish db (claim_in_transaction world_ok guard_refuses authority env_key runner
             package_ids environment lease_ttl_ms release now ts locked db) of
           (Inl e, db') \<Rightarrow> (Inl e, db')
         | (Inr (Claimed result), db') \<Rightarrow> (Inr result, db')
         | (Inr (GrantRefused e), db') \<Rightarrow> (Inl e, db')))"

definition renew_in_transaction ::
    "bool \<Rightarrow> string \<Rightarrow> string \<Rightarrow> string \<Rightarrow> int \<Rightarrow> int \<Rightarrow> int \<Rightarrow> run_db \<Rightarrow> production_lease_renewal txn" where
  "renew_in_transaction authority env_key runner run_id generation lease_ttl_ms ts db =
     require_executor_authority authority
       (case renew_production_lease (env_key, run_id) runner generation lease_ttl_ms ts db of
          None \<Rightarrow> Inr (RenewalFenceLost, db)
        | Some db' \<Rightarrow> Inr (Renewed, db'))"

definition renew ::
    "bool \<Rightarrow> string \<Rightarrow> string \<Rightarrow> string \<Rightarrow> int \<Rightarrow> int \<Rightarrow> int \<Rightarrow> run_db
       \<Rightarrow> (claim_error, production_lease_renewal) result \<times> run_db" where
  "renew authority env_key runner run_id generation lease_ttl_ms ts db =
     (if generation \<le> 0 \<or> lease_ttl_ms \<le> 0 then (Inl (ContractError, ''validate production lease renewal''), db)
      else finish db (renew_in_transaction authority env_key runner run_id generation lease_ttl_ms ts db))"

definition decode_http_status :: "int option \<Rightarrow> (claim_error, int option) result" where
  "decode_http_status status =
     (case status of
        None \<Rightarrow> Inr None
      | Some h \<Rightarrow>
          if h < 0 \<or> 65535 < h then Inl (ContractError, ''decode production caller outcome'')
          else Inr (Some h))"

definition status_text :: "run_status option \<Rightarrow> string" where
  "status_text status = (case status of None \<Rightarrow> [] | Some s \<Rightarrow> run_status_sql s)"

definition decode_caller_release :: "release_row \<Rightarrow> (claim_error, caller_release_result) result" where
  "decode_caller_release row =
     (case decode_http_status (cc_http_status (rw_caller row)) of
        Inl e \<Rightarrow> Inl e
      | Inr http_status \<Rightarrow>
          (case release_from_parts (rw_code row) (status_text (rw_status row)) (cc_type (rw_caller row))
             (cc_body (rw_caller row)) http_status (cc_release_node (rw_caller row)) (cc_hash (rw_caller row)) of
             None \<Rightarrow> Inl (ContractError, ''decode production caller release'')
           | Some r \<Rightarrow> Inr r))"

definition decode_terminalization :: "string \<times> run_status option \<Rightarrow> (claim_error, terminalize_result) result" where
  "decode_terminalization row =
     (case terminalize_from_parts (fst row) (status_text (snd row)) of
        None \<Rightarrow> Inl (ContractError, ''decode production terminalization'')
      | Some r \<Rightarrow> Inr r)"

text \<open>The second half of a completion: the terminal write and its decoded result.\<close>

definition terminalize_completion ::
    "string \<Rightarrow> string \<Rightarrow> string \<Rightarrow> int \<Rightarrow> production_completion \<Rightarrow> int \<Rightarrow> run_db
       \<Rightarrow> production_completion_result txn" where
  "terminalize_completion env_key run_id runner generation completion stamp db =
     (case terminalize env_key run_id run_id runner generation (pc_status completion)
          (pc_terminal_reason completion) (pc_result completion) (pc_fail_type completion) stamp db of
        None \<Rightarrow> Inl (StorageError, ''terminalize production run'')
      | Some (row, db') \<Rightarrow>
          (case decode_terminalization row of
             Inl e \<Rightarrow> Inl e
           | Inr Terminalized \<Rightarrow> Inr (CompletionTerminalized, db')
           | Inr (TRunTerminal s) \<Rightarrow> Inr (AlreadyTerminal s, db')
           | Inr TFenceLost \<Rightarrow> Inr (CompletionFenceLost, db')
           | Inr TNotFound \<Rightarrow> Inr (CompletionNotFound, db')
           | Inr CallerUnreleased \<Rightarrow> Inl (ContractError, ''production-caller-unreleased'')
           | Inr TCrossRunAuthority \<Rightarrow> Inl (ContractError, ''production-cross-run-authority'')))"

definition caller_write :: "(json \<Rightarrow> string) \<Rightarrow> production_caller_outcome \<Rightarrow> caller_columns" where
  "caller_write sha caller =
     \<lparr>cc_type = Some (po_kind caller), cc_body = Some (po_body caller),
      cc_http_status = Some (po_http_status caller), cc_release_node = po_release_node caller,
      cc_hash = Some (sha (po_body caller)), cc_released_at = None\<rparr>"

definition complete_in_transaction ::
    "(json \<Rightarrow> string) \<Rightarrow> bool \<Rightarrow> string \<Rightarrow> string \<Rightarrow> string \<Rightarrow> int \<Rightarrow> production_completion \<Rightarrow> int \<Rightarrow> run_db
       \<Rightarrow> production_completion_result txn" where
  "complete_in_transaction sha authority env_key run_id runner generation completion stamp db =
     require_executor_authority authority
       (case pc_caller completion of
          None \<Rightarrow> terminalize_completion env_key run_id runner generation completion stamp db
        | Some caller \<Rightarrow>
            (case release_caller env_key run_id run_id runner generation (caller_write sha caller) stamp db of
               None \<Rightarrow> Inl (StorageError, ''release production caller'')
             | Some (row, db1) \<Rightarrow>
                 (case decode_caller_release row of
                    Inl e \<Rightarrow> Inl e
                  | Inr Released \<Rightarrow> terminalize_completion env_key run_id runner generation completion stamp db1
                  | Inr (AlreadyReleased stored) \<Rightarrow>
                      if exactly_matches stored (po_kind caller) (po_body caller) (Some (po_http_status caller))
                           (po_release_node caller) (sha (po_body caller))
                      then terminalize_completion env_key run_id runner generation completion stamp db1
                      else Inl (ContractError, ''production-caller-outcome-conflict'')
                  | Inr (RunTerminal s) \<Rightarrow> Inr (AlreadyTerminal s, db1)
                  | Inr FenceLost \<Rightarrow> Inr (CompletionFenceLost, db1)
                  | Inr NotFound \<Rightarrow> Inr (CompletionNotFound, db1)
                  | Inr CrossRunAuthority \<Rightarrow> Inl (ContractError, ''production-cross-run-authority''))))"

definition complete ::
    "(json \<Rightarrow> string) \<Rightarrow> bool \<Rightarrow> string \<Rightarrow> string \<Rightarrow> string \<Rightarrow> int \<Rightarrow> production_completion \<Rightarrow> int \<Rightarrow> run_db
       \<Rightarrow> (claim_error, production_completion_result) result \<times> run_db" where
  "complete sha authority env_key run_id runner generation completion stamp db =
     (if generation \<le> 0 then (Inl (ContractError, ''validate production completion''), db)
      else finish db (complete_in_transaction sha authority env_key run_id runner generation completion stamp db))"

definition deadline_report ::
    "bool \<Rightarrow> string \<Rightarrow> string \<Rightarrow> string \<Rightarrow> int \<Rightarrow> json \<Rightarrow> run_db \<Rightarrow> (claim_error, bool) result \<times> run_db" where
  "deadline_report authority env_key run_id runner generation adjustments db =
     (if generation \<le> 0 then (Inl (ContractError, ''validate production deadline report''), db)
      else finish db (require_executor_authority authority
        (Inr (record_deadline_adjustments env_key run_id run_id runner generation adjustments db))))"

section \<open>Exhaustion and release\<close>

datatype exhausted_identity = FlowIdentity string int | WiringIdentity string int

fun failure_coordinate :: "string \<Rightarrow> exhausted_identity \<Rightarrow> string \<Rightarrow> json" where
  "failure_coordinate code (FlowIdentity flow_id version) run_id =
     JObject [(''code'', JString code), (''flow-id'', JString flow_id),
       (''flow-version'', JNumber (PosInt (of_int version))), (''run-id'', JString run_id)]"
| "failure_coordinate code (WiringIdentity wiring_id version) run_id =
     JObject [(''code'', JString code), (''wiring-id'', JString wiring_id),
       (''wiring-version'', JNumber (PosInt (of_int version))), (''run-id'', JString run_id)]"

definition generic_failure_outcome :: "(json \<Rightarrow> string) \<Rightarrow> string \<Rightarrow> exhausted_identity \<Rightarrow> string \<Rightarrow> json \<times> string" where
  "generic_failure_outcome sha code who run_id =
     (let body = JObject [(''error'', failure_coordinate code who run_id)] in (body, sha body))"

definition exhausted_execution :: "run_pins \<Rightarrow> exhausted_identity option" where
  "exhausted_execution p =
     (case (rp_flow_id p, rp_flow_version p, rp_wiring_id p, rp_wiring_version p) of
        (Some f, Some v, _, _) \<Rightarrow> if f \<noteq> [] \<and> 0 < v then Some (FlowIdentity f v) else None
      | (None, None, Some w, Some v) \<Rightarrow> if w \<noteq> [] \<and> 0 < v then Some (WiringIdentity w v) else None
      | _ \<Rightarrow> None)"

definition reap_in_transaction ::
    "(json \<Rightarrow> string) \<Rightarrow> bool \<Rightarrow> string \<Rightarrow> string list \<Rightarrow> string \<Rightarrow> int \<Rightarrow> int \<Rightarrow> string list \<Rightarrow> int \<Rightarrow> run_db
       \<Rightarrow> production_reap_result txn" where
  "reap_in_transaction sha authority env_key package_ids environment grace_ms now locked stamp db =
     require_executor_authority authority
       (case select_exhausted_production db env_key grace_ms package_ids environment now locked of
          None \<Rightarrow> Inr (NothingReaped, db)
        | Some q \<Rightarrow>
            (case find_run db (queue_key q) of
               None \<Rightarrow> Inr (NothingReaped, db)
             | Some r \<Rightarrow>
                 (case exhausted_execution (rr_pins r) of
                    None \<Rightarrow> Inl (ContractError, ''run-execution-grain-corrupt'')
                  | Some who \<Rightarrow>
                      if \<not> runnable (rr_status r) then Inl (ContractError, ''validate exhausted candidate'')
                      else
                        (let (body, hash) = generic_failure_outcome sha ''infrastructure-failure'' who (qr_run_id q)
                         in case terminalize_exhausted (queue_key q) InfrastructureFailure None body hash stamp db of
                              Rows (status, db') \<Rightarrow>
                                if status = InfrastructureFailure then Inr (Reaped (qr_run_id q), db')
                                else Inl (ContractError, ''terminalize exhausted run'')
                            | NoRow \<Rightarrow> Inl (ContractError, ''selected run or queue row disappeared while locked'')
                            | StatementRefused \<Rightarrow> Inl (StorageError, ''terminalize exhausted run'')))))"

definition reap_exhausted ::
    "(json \<Rightarrow> string) \<Rightarrow> bool \<Rightarrow> string \<Rightarrow> string list \<Rightarrow> string \<Rightarrow> int \<Rightarrow> int \<Rightarrow> string list \<Rightarrow> int \<Rightarrow> run_db
       \<Rightarrow> (claim_error, production_reap_result) result \<times> run_db" where
  "reap_exhausted sha authority env_key package_ids environment grace_ms now locked stamp db =
     (if \<not> valid_package_scope package_ids \<or> environment = [] \<or> grace_ms < 0 then
        (Inl (ContractError, ''validate janitor scope''), db)
      else finish db (reap_in_transaction sha authority env_key package_ids environment grace_ms now locked stamp db))"

text \<open>
  A released claim that spent its last attempt fails the run in the same transaction. The wiring
  columns of the returned row are not null for a run that was claimed.
\<close>

definition release_in_transaction ::
    "(json \<Rightarrow> string) \<Rightarrow> bool \<Rightarrow> string \<Rightarrow> string \<Rightarrow> string \<Rightarrow> int \<Rightarrow> int \<Rightarrow> rat \<Rightarrow> int \<Rightarrow> run_db \<Rightarrow> bool txn" where
  "release_in_transaction sha authority env_key run_id runner generation ts jitter stamp db =
     require_executor_authority authority
       (case release_production_claim (env_key, run_id) runner generation ts jitter db of
          None \<Rightarrow> Inr (False, db)
        | Some ((exhausted, wiring_id, wiring_version), db1) \<Rightarrow>
            if \<not> exhausted then Inr (True, db1)
            else
              (case (wiring_id, wiring_version) of
                 (Some w, Some v) \<Rightarrow>
                   (let (body, hash) = generic_failure_outcome sha (fail_type_sql FRetryExhausted) (WiringIdentity w v) run_id
                    in case terminalize_exhausted (env_key, run_id) RFailed (Some FRetryExhausted) body hash stamp db1 of
                         Rows (_, db2) \<Rightarrow> Inr (True, db2)
                       | NoRow \<Rightarrow> Inl (StorageError, ''terminalize release exhaustion'')
                       | StatementRefused \<Rightarrow> Inl (StorageError, ''terminalize release exhaustion''))
               | _ \<Rightarrow> Inl (ContractError, ''decode production claim row'')))"

definition release_claim ::
    "(json \<Rightarrow> string) \<Rightarrow> bool \<Rightarrow> string \<Rightarrow> string \<Rightarrow> string \<Rightarrow> int \<Rightarrow> int \<Rightarrow> rat \<Rightarrow> int \<Rightarrow> run_db
       \<Rightarrow> (claim_error, bool) result \<times> run_db" where
  "release_claim sha authority env_key run_id runner generation ts jitter stamp db =
     (if generation \<le> 0 then (Inl (ContractError, ''validate production lease release''), db)
      else finish db (release_in_transaction sha authority env_key run_id runner generation ts jitter stamp db))"

definition pinned_backlog :: "string \<Rightarrow> string list \<Rightarrow> string \<Rightarrow> string \<Rightarrow> run_db \<Rightarrow> bool" where
  "pinned_backlog env_key package_ids environment digest db \<longleftrightarrow>
     list_ex (\<lambda>q. qr_env_key q = env_key \<and>
       (case find_run db (queue_key q) of
          None \<Rightarrow> False
        | Some r \<Rightarrow> rp_package_id (rr_pins r) \<in> set package_ids \<and> rp_environment (rr_pins r) = environment
            \<and> rp_manifest_digest (rr_pins r) = Some digest \<and> runnable (rr_status r))) (db_queue db)"

section \<open>Admission\<close>

datatype run_admitted = Queued string | AdmissionConflict

text \<open>
  Insert the run and its queue row in one transaction; a key that is taken answers the run that
  holds it when its request is the same. \<open>first\<close> is the select of that run, \<open>durability\<close> the
  environment policy's class.
\<close>

definition admit_run ::
    "bool \<Rightarrow> string \<Rightarrow> string \<Rightarrow> run_pins \<Rightarrow> (run_db \<Rightarrow> string option) \<Rightarrow> run_db
       \<Rightarrow> (claim_error, run_admitted) result \<times> run_db" where
  "admit_run authority env_key run_id pins first db =
     finish db (require_executor_authority authority
       (case insert_run env_key run_id pins db of
          Refused \<Rightarrow> Inl (StorageError, ''admit the run'')
        | Inserted db1 \<Rightarrow>
            (case insert_run_queue env_key run_id (rp_created_at pins) db1 of
               None \<Rightarrow> Inl (StorageError, ''queue the run'')
             | Some db2 \<Rightarrow> Inr (Queued run_id, db2))
        | Conflicted \<Rightarrow>
            (case first db of
               Some i \<Rightarrow> Inr (Queued i, db)
             | None \<Rightarrow> Inr (AdmissionConflict, db))))"

definition admit_manual_run ::
    "bool \<Rightarrow> string \<Rightarrow> string \<Rightarrow> admission \<Rightarrow> string \<Rightarrow> string \<Rightarrow> string \<Rightarrow> json \<Rightarrow> string option \<Rightarrow> int \<Rightarrow> run_db
       \<Rightarrow> (claim_error, run_admitted) result \<times> run_db" where
  "admit_manual_run authority env_key run_id a who role user node_digests durability now db =
     (if \<not> authority then (Inl (IdentityError, ''executor-platform-authority-required''), db)
      else
        (case durability of
           None \<Rightarrow> (Inl (ContractError, ''the environment policy is absent''), db)
         | Some class \<Rightarrow>
             admit_run authority env_key run_id
               (manual_pins (a\<lparr>ad_durability := class\<rparr>) who role user node_digests now)
               (\<lambda>db. select_first_run db env_key (ad_key a) ''manual'' (ad_input a)) db))"

end
