(* ===== verification/Run_Lifecycle.thy ===== *)
theory Run_Lifecycle
  imports Run_Store
begin

text \<open>
  The life of one run, as the store's abstract specification: what a transaction may do to the pair
  of a run's row and its queue row. Every transaction of \<^verbatim>\<open>Run_Store\<close> is shown to take each run one
  step of this machine, so the machine's invariants are the store's: a run is queued exactly while
  it is not terminal (RUN-1), a terminal row never changes (RUN-5), a key admits once (RUN-6), the
  retry budget holds, and a stale lease generation changes nothing.
\<close>

section \<open>The tables as maps\<close>

declare split_paired_All [simp del] split_paired_Ex [simp del]

definition keeps_run_key :: "(run_row \<Rightarrow> run_row) \<Rightarrow> bool" where
  "keeps_run_key f \<longleftrightarrow> (\<forall>r. run_key (f r) = run_key r)"

definition keeps_queue_key :: "(queue_row \<Rightarrow> queue_row) \<Rightarrow> bool" where
  "keeps_queue_key f \<longleftrightarrow> (\<forall>q. queue_key (f q) = queue_key q)"

named_theorems table_simps

lemma find_map_key:
  "(\<And>x. key (f x) = key x) \<Longrightarrow>
     find (\<lambda>x. key x = j) (map (\<lambda>x. if key x = k then f x else x) xs)
       = (if j = k then map_option f (find (\<lambda>x. key x = j) xs) else find (\<lambda>x. key x = j) xs)"
  by (induction xs) auto

lemma find_filter_key:
  "find (\<lambda>x. key x = j) (filter (\<lambda>x. key x \<noteq> k) xs)
     = (if j = k then None else find (\<lambda>x. key x = j) xs)"
  by (induction xs) auto

lemma find_run_update_run:
  "keeps_run_key f \<Longrightarrow> find_run (update_run k f db) j =
     (if j = k then map_option f (find_run db j) else find_run db j)"
  by (simp add: find_run_def update_run_def keeps_run_key_def find_map_key)

lemma find_queue_update_queue:
  "keeps_queue_key f \<Longrightarrow> find_queue (update_queue k f db) j =
     (if j = k then map_option f (find_queue db j) else find_queue db j)"
  by (simp add: find_queue_def update_queue_def keeps_queue_key_def find_map_key)

lemma other_table [table_simps]:
  "find_queue (update_run k f db) = find_queue db"
  "find_run (update_queue k g db) = find_run db"
  "find_run (delete_queue k db) = find_run db"
  "find_queue (delete_queue k db) j = (if j = k then None else find_queue db j)"
  by (simp_all add: fun_eq_iff find_queue_def find_run_def update_run_def update_queue_def
      delete_queue_def find_filter_key)

definition pk_ok :: "run_db \<Rightarrow> bool" where
  "pk_ok db \<longleftrightarrow> distinct (map run_key (db_runs db)) \<and> distinct (map queue_key (db_queue db))"

lemma map_key_map:
  "(\<And>x. key (f x) = key x) \<Longrightarrow> map key (map (\<lambda>x. if key x = k then f x else x) xs) = map key xs"
  by simp

lemma pk_ok_update_run: "keeps_run_key f \<Longrightarrow> pk_ok (update_run k f db) = pk_ok db"
  unfolding pk_ok_def update_run_def keeps_run_key_def by (simp add: map_key_map del: map_map)

lemma pk_ok_update_queue: "keeps_queue_key f \<Longrightarrow> pk_ok (update_queue k f db) = pk_ok db"
  unfolding pk_ok_def update_queue_def keeps_queue_key_def by (simp add: map_key_map del: map_map)

lemma pk_ok_delete_queue: "pk_ok db \<Longrightarrow> pk_ok (delete_queue k db)"
  by (simp add: pk_ok_def delete_queue_def distinct_map_filter)

lemma find_queue_member: "pk_ok db \<Longrightarrow> q \<in> set (db_queue db) \<Longrightarrow> find_queue db (queue_key q) = Some q"
  using find_distinct_image [of queue_key "db_queue db" q] by (simp add: pk_ok_def find_queue_def)

lemma find_key: "find_run db k = Some r \<Longrightarrow> run_key r = k"
  "find_queue db k = Some q \<Longrightarrow> queue_key q = k"
  by (auto simp: find_run_def find_queue_def find_Some_iff)

lemma keeps_key_simps [simp]:
  "keeps_run_key (\<lambda>r. r\<lparr>rr_state := s\<rparr>)"
  "keeps_run_key (\<lambda>r. r\<lparr>rr_status := st\<rparr>)"
  "keeps_run_key (\<lambda>r. r\<lparr>rr_deadline_adjustments := j\<rparr>)"
  "keeps_run_key (terminal_row st kind body hash stamp)"
  "keeps_run_key (\<lambda>r. r\<lparr>rr_caller := c, rr_updated_at := stamp\<rparr>)"
  "keeps_run_key (\<lambda>r. r\<lparr>rr_status := st, rr_terminal_reason := reason, rr_result := res,
     rr_fail_type := kind, rr_updated_at := stamp\<rparr>)"
  by (simp_all add: keeps_run_key_def run_key_def terminal_row_def Let_def)

lemma keeps_queue_key_simps [simp]:
  "keeps_queue_key (\<lambda>q. q\<lparr>qr_attempts := n q\<rparr>)"
  "keeps_queue_key (lease_row owner ttl ts)"
  "keeps_queue_key (\<lambda>q. q\<lparr>qr_lease_expires_at := e\<rparr>)"
  "keeps_queue_key (released_row ts jitter)"
  "keeps_queue_key (\<lambda>q. q\<lparr>qr_available_at := a\<rparr>)"
  by (simp_all add: keeps_queue_key_def queue_key_def lease_row_def released_row_def)

lemmas find_updates [table_simps] = find_run_update_run find_queue_update_queue

section \<open>The life of one run\<close>

type_synonym life = "run_row option \<times> queue_row option"

definition life :: "run_db \<Rightarrow> string \<times> string \<Rightarrow> life" where
  "life db k = (find_run db k, find_queue db k)"

definition fresh_queue_row :: "string \<Rightarrow> string \<Rightarrow> int \<Rightarrow> queue_row" where
  "fresh_queue_row env_key run_id now =
     \<lparr>qr_env_key = env_key, qr_run_id = run_id, qr_available_at = At now, qr_stream_seq = 0,
      qr_lease_owner = None, qr_lease_expires_at = None, qr_lease_generation = 0, qr_attempts = 0,
      qr_max_attempts = DEFAULT_MAX_ATTEMPTS, qr_enqueued_at = now\<rparr>"

definition counted :: "queue_row \<Rightarrow> queue_row" where
  "counted q = q\<lparr>qr_attempts := qr_attempts q + (if qr_lease_expires_at q \<noteq> None then 1 else 0)\<rparr>"

definition claimable_row :: "int \<Rightarrow> queue_row \<Rightarrow> bool" where
  "claimable_row now q \<longleftrightarrow> not_leased now q \<and> (qr_attempts q < qr_max_attempts q \<or> qr_lease_expires_at q = None)"

definition fenced :: "string \<Rightarrow> int \<Rightarrow> queue_row \<Rightarrow> bool" where
  "fenced owner generation q \<longleftrightarrow> qr_lease_owner q = Some owner \<and> qr_lease_generation q = generation"

inductive life_step :: "life \<Rightarrow> life \<Rightarrow> bool" where
  stay: "life_step x x"
| lease: "\<lbrakk>runnable (rr_status r); claimable_row now q; s = rr_state r \<or> s = None\<rbrakk> \<Longrightarrow>
    life_step (Some r, Some q)
      (Some (r\<lparr>rr_state := s, rr_status := RRunning\<rparr>), Some (lease_row owner ttl ts (counted q)))"
| refuse: "\<lbrakk>runnable (rr_status r); claimable_row now q; s = rr_state r \<or> s = None\<rbrakk> \<Longrightarrow>
    life_step (Some r, Some q) (Some (r\<lparr>rr_state := s\<rparr>), Some (counted q))"
| renew: "holds_live owner generation ts q \<Longrightarrow>
    life_step (Some r, Some q) (Some r, Some (q\<lparr>qr_lease_expires_at := Some t\<rparr>))"
| release: "\<lbrakk>holds_live owner generation ts q; qr_attempts q + 1 < qr_max_attempts q\<rbrakk> \<Longrightarrow>
    life_step (Some r, Some q) (Some r, Some (released_row ts jitter q))"
| move: "life_step (Some r, Some q) (Some r, Some (q\<lparr>qr_available_at := a\<rparr>))"
| report: "fenced owner generation q \<Longrightarrow>
    life_step (Some r, Some q) (Some (r\<lparr>rr_deadline_adjustments := j\<rparr>), Some q)"
| finish: "\<lbrakk>runnable (rr_status r); fenced owner generation q; st = RCompleted \<or> st = RFailed;
      cal = rr_caller r \<or> cc_released_at (rr_caller r) = None;
      st = RCompleted \<longrightarrow> durable_caller r \<longrightarrow> cc_released_at cal \<noteq> None;
      r' = r\<lparr>rr_caller := cal, rr_status := st, rr_terminal_reason := reason, rr_result := res,
             rr_fail_type := kind, rr_updated_at := stamp\<rparr>; runs_check r'\<rbrakk> \<Longrightarrow>
    life_step (Some r, Some q) (Some r', None)"
| exhaust: "\<lbrakk>runnable (rr_status r); run_is_terminal st; qr_max_attempts q \<le> qr_attempts q + 1;
      runs_check (terminal_row st kind body hash stamp r)\<rbrakk> \<Longrightarrow>
    life_step (Some r, Some q) (Some (terminal_row st kind body hash stamp r), None)"
| prune: "run_is_terminal (rr_status r) \<Longrightarrow> life_step (Some r, q) (None, None)"

text \<open>Nothing but admission and pruning touches a run's pins, and no key's life affects another's.\<close>

definition evolves :: "run_db \<Rightarrow> run_db \<Rightarrow> bool" where
  "evolves db db' \<longleftrightarrow> (\<forall>k. life_step (life db k) (life db' k)) \<and> (pk_ok db \<longrightarrow> pk_ok db')"

lemma evolves_refl [simp]: "evolves db db"
  by (simp add: evolves_def stay)

lemma evolves_at:
  assumes "life_step (life db k) (life db' k)" and "\<And>j. j \<noteq> k \<Longrightarrow> life db' j = life db j"
    and "pk_ok db \<Longrightarrow> pk_ok db'"
  shows "evolves db db'"
  unfolding evolves_def using assms stay by metis

section \<open>Every transaction is a step of each run\<close>

lemma evolves_finish:
  assumes "\<And>v db'. t = Inr (v, db') \<Longrightarrow> evolves db db'"
  shows "evolves db (snd (finish db t))"
  using assms by (auto simp: finish_def split: sum.splits prod.splits)

lemma first_by_order_member: "first_by_order qs = Some q \<Longrightarrow> q \<in> set qs"
  by (auto simp: first_by_order_def split: list.splits) (metis list.set_intros(1) set_sort)

lemma select_production_claim_found:
  assumes "pk_ok db" and "select_production_claim db env_key pkgs environment rel now locked = Some q"
  shows "find_queue db (queue_key q) = Some q" and "claimable_row now q"
    and "\<exists>r. find_run db (queue_key q) = Some r \<and> rp_manifest_digest (rr_pins r) = rel"
proof -
  from assms(2) have q: "q \<in> set (db_queue db)" "claim_eligible now q"
    "in_scope db env_key pkgs environment locked (\<lambda>r. rp_manifest_digest (rr_pins r) = rel) q"
    unfolding select_production_claim_def by (auto dest!: first_by_order_member)
  then show "find_queue db (queue_key q) = Some q" using assms(1) by (simp add: find_queue_member)
  show "claimable_row now q" using q(2) by (simp add: claim_eligible_def claimable_row_def)
  show "\<exists>r. find_run db (queue_key q) = Some r \<and> rp_manifest_digest (rr_pins r) = rel"
    using q(3) by (auto simp: in_scope_def split: option.splits)
qed

lemma advance_counted: "advance_claim_attempts k db = update_queue k counted db"
  by (simp add: advance_claim_attempts_def counted_def [abs_def])

lemma keeps_counted [simp]: "keeps_queue_key counted"
  by (simp add: counted_def [abs_def])

lemma decode_selected_status:
  "decode_selected_claim world_ok r had = Inr sel \<Longrightarrow> sc_status sel = rr_status r \<and> sc_run_id sel = rr_run_id r"
  by (auto simp: decode_selected_claim_def Let_def split: option.splits sum.splits prod.splits if_splits)

lemma decode_selected_had:
  "decode_selected_claim world_ok r had = Inr sel \<Longrightarrow> sc_had_prior_lease sel = had"
  by (auto simp: decode_selected_claim_def Let_def split: option.splits sum.splits prod.splits if_splits)

lemma claim_evolves:
  assumes "pk_ok db"
    and "claim_in_transaction world_ok guard auth env_key runner pkgs environment ttl rel now ts locked db
      = Inr (turn, db')"
  shows "evolves db db'"
proof (cases "select_production_claim db env_key pkgs environment rel now locked")
  case None
  with assms(2) show ?thesis
    by (auto simp: claim_in_transaction_def require_executor_authority_def split: if_splits)
next
  case (Some q)
  let ?k = "queue_key q"
  note q = select_production_claim_found [OF assms(1) Some]
  from q(3) obtain r where r: "find_run db ?k = Some r" by blast
  define db1 where "db1 = (if qr_lease_expires_at q \<noteq> None then clear_pre_effect_state ?k db else db)"
  define s where "s = (if qr_lease_expires_at q \<noteq> None then None else rr_state r)"
  have db1: "find_run db1 ?k = Some (r\<lparr>rr_state := s\<rparr>)" "find_queue db1 = find_queue db"
    "\<And>j. j \<noteq> ?k \<Longrightarrow> find_run db1 j = find_run db j" "pk_ok db1"
    using r assms(1) by (simp_all add: db1_def s_def clear_pre_effect_state_def table_simps pk_ok_update_run)
  from assms(2) Some r obtain sel where sel: "decode_selected_claim world_ok r (qr_lease_expires_at q \<noteq> None) = Inr sel"
    and run: "runnable (rr_status r)"
    and db': "db' = update_queue ?k counted db1 \<or>
      (\<exists>digest g. grant_production_claim ?k runner ttl digest ts (update_queue ?k counted db1) = Some (g, db'))"
    by (auto simp: claim_in_transaction_def require_executor_authority_def Let_def db1_def advance_counted
        classify_production_claim_def decode_selected_had decode_selected_status
        split: if_splits sum.splits option.splits)
  have pk: "pk_ok (update_queue ?k counted db1)" using db1 by (simp add: pk_ok_update_queue)
  have s: "s = rr_state r \<or> s = None" by (simp add: s_def)
  from db' show ?thesis
  proof
    assume "db' = update_queue ?k counted db1"
    with db1 r q run s pk show ?thesis
      by (intro evolves_at [of db ?k]) (auto simp: life_def table_simps intro!: refuse)
  next
    assume "\<exists>digest g. grant_production_claim ?k runner ttl digest ts (update_queue ?k counted db1) = Some (g, db')"
    then have "db' = update_run ?k (\<lambda>r. r\<lparr>rr_status := RRunning\<rparr>)
        (update_queue ?k (lease_row runner ttl ts) (update_queue ?k counted db1))"
      by (auto simp: grant_production_claim_def split: option.splits if_splits)
    with db1 r q run s pk show ?thesis
      by (intro evolves_at [of db ?k])
        (auto simp: life_def table_simps pk_ok_update_run pk_ok_update_queue intro!: lease)
  qed
qed

lemma runnable_iff: "runnable s \<longleftrightarrow> \<not> run_is_terminal s"
  by (cases s) (simp_all add: runnable_def)

lemma fence_ready:
  assumes "fence_code db env_key target authority owner generation = ''ready''"
  obtains r q where "target = authority" "find_run db (env_key, target) = Some r" "runnable (rr_status r)"
    "find_queue db (env_key, target) = Some q" "fenced owner generation q"
  using assms by (auto simp: fence_code_def fenced_def runnable_iff split: if_splits option.splits)

text \<open>What holds of every run: it is queued exactly while it is not terminal, and within its budget.\<close>

fun life_ok :: "life \<Rightarrow> bool" where
  "life_ok (None, None) = True"
| "life_ok (None, Some q) = False"
| "life_ok (Some r, None) =
     (run_is_terminal (rr_status r) \<and> runs_check r
      \<and> (rr_status r \<noteq> RFailed \<longrightarrow> durable_caller r \<longrightarrow> cc_released_at (rr_caller r) \<noteq> None))"
| "life_ok (Some r, Some q) =
     (runnable (rr_status r) \<and> runs_check r
      \<and> 0 \<le> qr_attempts q \<and> qr_attempts q \<le> qr_max_attempts q
      \<and> (qr_lease_expires_at q = None \<longrightarrow> qr_attempts q < qr_max_attempts q)
      \<and> 0 \<le> qr_lease_generation q
      \<and> (rr_status r = Dispatched \<longrightarrow>
           qr_lease_expires_at q = None \<and> qr_lease_owner q = None \<and> qr_lease_generation q = 0))"

definition store_ok :: "run_db \<Rightarrow> bool" where
  "store_ok db \<longleftrightarrow> pk_ok db \<and> (\<forall>k. life_ok (life db k))"

lemma store_okD: "store_ok db \<Longrightarrow> life_ok (life db k)"
  unfolding store_ok_def by blast

lemma life_ok_queued:
  assumes "store_ok db" and "find_queue db k = Some q"
  obtains r where "find_run db k = Some r" "runnable (rr_status r)" "runs_check r"
proof -
  from assms(1) have "life_ok (find_run db k, Some q)"
    using assms(2) unfolding store_ok_def life_def by metis
  with that show thesis by (cases "find_run db k") auto
qed

lemma runs_check_simps [simp]:
  "runs_check (r\<lparr>rr_state := s\<rparr>) = runs_check r"
  "runs_check (r\<lparr>rr_status := st\<rparr>) = runs_check r"
  "runs_check (r\<lparr>rr_state := s, rr_status := st\<rparr>) = runs_check r"
  "runs_check (r\<lparr>rr_deadline_adjustments := j\<rparr>) = runs_check r"
  "runs_check (admitted_row e i p)"
  by (simp_all add: runs_check_def admitted_row_def no_caller_def)

lemma life_step_ok: "life_step x y \<Longrightarrow> life_ok x \<Longrightarrow> life_ok y"
proof (induction rule: life_step.induct)
  case (lease r now q s owner ttl ts)
  then show ?case by (auto simp: lease_row_def counted_def claimable_row_def runnable_def)
next
  case (refuse r now q s)
  then show ?case by (auto simp: counted_def claimable_row_def)
next
  case (exhaust r st q kind body hash stamp)
  then show ?case by (auto simp: terminal_row_def Let_def durable_caller_def)
next
  case (finish r owner generation q st cal reason res kind stamp r')
  then show ?case by (auto simp: durable_caller_def)
qed (auto simp: holds_live_def released_row_def split: option.splits)

lemma evolves_ok: "evolves db db' \<Longrightarrow> store_ok db \<Longrightarrow> store_ok db'"
  unfolding evolves_def store_ok_def using life_step_ok by blast

lemma renew_evolves:
  assumes "store_ok db" and "renew_production_lease k owner generation ttl ts db = Some db'"
  shows "evolves db db'"
proof -
  from assms(2) obtain q where q: "find_queue db k = Some q" "holds_live owner generation ts q"
    "db' = update_queue k (\<lambda>q. q\<lparr>qr_lease_expires_at := Some (ts + ttl * 1000)\<rparr>) db"
    by (auto simp: renew_production_lease_def split: option.splits if_splits)
  obtain r where "find_run db k = Some r" by (rule life_ok_queued [OF assms(1) q(1)])
  with q show ?thesis
    by (intro evolves_at [of db k]) (auto simp: life_def table_simps pk_ok_update_queue intro!: life_step.renew)
qed

lemma report_evolves:
  "evolves db (snd (record_deadline_adjustments env_key target authority owner generation j db))"
proof (cases "fence_code db env_key target authority owner generation = ''ready''")
  case True
  then obtain r q where "find_run db (env_key, target) = Some r" "find_queue db (env_key, target) = Some q"
    "fenced owner generation q" by (rule fence_ready)
  with True show ?thesis
    by (intro evolves_at [of db "(env_key, target)"])
      (auto simp: record_deadline_adjustments_def life_def table_simps pk_ok_update_run intro!: report)
qed (simp add: record_deadline_adjustments_def)

lemma move_evolves:
  assumes "find_run db k = Some r" and "find_queue db k = Some q"
  shows "evolves db (update_queue k (\<lambda>q. q\<lparr>qr_available_at := a\<rparr>) db)"
  using assms by (intro evolves_at [of db k])
    (auto simp: life_def table_simps pk_ok_update_queue intro: move)

lemma park_evolves: "evolves db (snd (park_queued_run env_key run_id environment now db))"
  by (auto simp: park_queued_run_def intro: move_evolves split: option.splits)

lemma unpark_evolves: "evolves db (snd (release_parked_run env_key run_id environment now db))"
  by (auto simp: release_parked_run_def intro: move_evolves split: option.splits)

lemma checked_update_Some:
  "checked_update k f db = Some db' \<Longrightarrow> find_run db k = Some r \<Longrightarrow> runs_check (f r) \<and> db' = update_run k f db"
  by (auto simp: checked_update_def split: if_splits)

definition terminal_write ::
    "run_status \<Rightarrow> string \<Rightarrow> json \<Rightarrow> fail_type option \<Rightarrow> int \<Rightarrow> run_row \<Rightarrow> run_row" where
  "terminal_write st reason res kind stamp r =
     r\<lparr>rr_status := st, rr_terminal_reason := Some reason, rr_result := Some res,
       rr_fail_type := kind, rr_updated_at := stamp\<rparr>"

definition caller_release_write :: "caller_columns \<Rightarrow> int \<Rightarrow> run_row \<Rightarrow> run_row" where
  "caller_release_write c stamp r = r\<lparr>rr_caller := c\<lparr>cc_released_at := Some stamp\<rparr>, rr_updated_at := stamp\<rparr>"

lemma keeps_writes [simp]:
  "keeps_run_key (terminal_write st reason res kind stamp)" "keeps_run_key (caller_release_write c stamp)"
  by (simp_all add: keeps_run_key_def run_key_def terminal_write_def caller_release_write_def)

lemma terminalize_cases:
  assumes "terminalize env_key run_id run_id owner generation st reason res kind stamp db = Some (row, db')"
  obtains (kept) "db' = db" "fst row \<noteq> ''terminalized''"
  | (ended) r q where "find_run db (env_key, run_id) = Some r" "find_queue db (env_key, run_id) = Some q"
      "runnable (rr_status r)" "fenced owner generation q"
      "st = RCompleted \<longrightarrow> durable_caller r \<longrightarrow> cc_released_at (rr_caller r) \<noteq> None"
      "runs_check (terminal_write st reason res kind stamp r)"
      "db' = delete_queue (env_key, run_id) (update_run (env_key, run_id) (terminal_write st reason res kind stamp) db)"
proof (cases "fence_code db env_key run_id run_id owner generation = ''ready''")
  case False
  with assms kept show thesis
    by (auto simp: terminalize_def Let_def fence_code_def split: option.splits if_splits)
next
  case True
  then obtain r q where rq: "find_run db (env_key, run_id) = Some r" "runnable (rr_status r)"
    "find_queue db (env_key, run_id) = Some q" "fenced owner generation q" by (rule fence_ready)
  show thesis
  proof (cases "st = RCompleted \<and> cc_released_at (rr_caller r) = None \<and> durable_caller r")
    case un: True
    with True rq assms kept show thesis by (auto simp: terminalize_def Let_def fenced_run_def)
  next
    case rel: False
    with True rq assms obtain db1 where
      "checked_update (env_key, run_id) (terminal_write st reason res kind stamp) db = Some db1"
      "db' = delete_queue (env_key, run_id) db1"
      by (auto simp: terminalize_def Let_def fenced_run_def terminal_write_def [abs_def] split: option.splits)
    with rq rel ended show thesis by (auto dest!: checked_update_Some [OF _ rq(1)])
  qed
qed

lemma release_caller_cases:
  assumes "release_caller env_key run_id run_id owner generation outcome stamp db = Some (row, db1)"
  obtains (kept) "db1 = db" "rw_code row \<noteq> ''released''"
  | (released) r where "find_run db (env_key, run_id) = Some r" "cc_released_at (rr_caller r) = None"
      "runs_check (caller_release_write outcome stamp r)" "rw_code row = ''released''"
      "fence_code db env_key run_id run_id owner generation = ''ready''"
      "db1 = update_run (env_key, run_id) (caller_release_write outcome stamp) db"
proof (cases "fence_code db env_key run_id run_id owner generation = ''ready''")
  case False
  with assms kept show thesis
    by (auto simp: release_caller_def Let_def fence_code_def fenced_run_def split: option.splits if_splits)
next
  case True
  then obtain r where r: "find_run db (env_key, run_id) = Some r" by (rule fence_ready)
  show thesis
  proof (cases "cc_released_at (rr_caller r) = None")
    case False
    with True r assms kept show thesis by (auto simp: release_caller_def Let_def fenced_run_def)
  next
    case un: True
    with True r assms obtain
      "checked_update (env_key, run_id) (caller_release_write outcome stamp) db = Some db1"
      "rw_code row = ''released''"
      by (auto simp: release_caller_def Let_def fenced_run_def caller_release_write_def [abs_def] split: option.splits)
    with r un True released show thesis by (auto dest!: checked_update_Some [OF _ r])
  qed
qed

lemma terminalize_completion_cases:
  assumes "terminalize_completion env_key run_id owner generation completion stamp db = Inr (res, db')"
  obtains (kept) "db' = db" "res \<noteq> CompletionTerminalized"
  | (ended) r q where "find_run db (env_key, run_id) = Some r" "find_queue db (env_key, run_id) = Some q"
      "runnable (rr_status r)" "fenced owner generation q"
      "pc_status completion = RCompleted \<longrightarrow> durable_caller r \<longrightarrow> cc_released_at (rr_caller r) \<noteq> None"
      "runs_check (terminal_write (pc_status completion) (pc_terminal_reason completion) (pc_result completion)
         (pc_fail_type completion) stamp r)"
      "db' = delete_queue (env_key, run_id) (update_run (env_key, run_id)
         (terminal_write (pc_status completion) (pc_terminal_reason completion) (pc_result completion)
           (pc_fail_type completion) stamp) db)"
proof -
  from assms obtain row where row: "terminalize env_key run_id run_id owner generation (pc_status completion)
      (pc_terminal_reason completion) (pc_result completion) (pc_fail_type completion) stamp db = Some (row, db')"
    and dec: "res = CompletionTerminalized \<longrightarrow> fst row = ''terminalized''"
    by (auto simp: terminalize_completion_def decode_terminalization_def terminalize_from_parts_def
        split: option.splits sum.splits terminalize_result.splits if_splits)
  from row show thesis
    by (cases rule: terminalize_cases) (use dec kept ended in auto)
qed

lemma fence_code_released:
  "fence_code (update_run k (caller_release_write c stamp) db) env_key target authority owner generation
     = fence_code db env_key target authority owner generation"
  by (simp add: fence_code_def table_simps caller_release_write_def split: option.splits)

lemma terminalize_completion_released:
  assumes "fence_code db env_key run_id run_id owner generation = ''ready''"
    and "find_run db (env_key, run_id) = Some r" and "cc_released_at (rr_caller r) \<noteq> None"
    and "terminalize_completion env_key run_id owner generation completion stamp db = Inr (res, db')"
  shows "res = CompletionTerminalized"
  using assms
  by (auto simp: terminalize_completion_def terminalize_def Let_def fenced_run_def decode_terminalization_def
      terminalize_from_parts_def split: option.splits)

lemma finish_evolves:
  assumes "find_run db k = Some r" "find_queue db k = Some q" "runnable (rr_status r)" "fenced owner generation q"
    "st = RCompleted \<or> st = RFailed" "find_run db1 k = Some r1" "r1 = r\<lparr>rr_caller := cal, rr_updated_at := u\<rparr>"
    "cal = rr_caller r \<or> cc_released_at (rr_caller r) = None"
    "st = RCompleted \<longrightarrow> durable_caller r \<longrightarrow> cc_released_at cal \<noteq> None"
    "runs_check (terminal_write st reason res kind stamp r1)"
    "\<And>j. j \<noteq> k \<Longrightarrow> life db1 j = life db j" "pk_ok db \<Longrightarrow> pk_ok db1"
  shows "evolves db (delete_queue k (update_run k (terminal_write st reason res kind stamp) db1))"
proof (rule evolves_at [of db k])
  let ?r = "terminal_write st reason res kind stamp r1"
  have "?r = r\<lparr>rr_caller := cal, rr_status := st, rr_terminal_reason := Some reason, rr_result := Some res,
      rr_fail_type := kind, rr_updated_at := stamp\<rparr>"
    by (simp add: assms(7) terminal_write_def)
  then have "life_step (Some r, Some q) (Some ?r, None)"
    using assms by (intro finish [where cal = cal and owner = owner and generation = generation]) simp_all
  then show "life_step (life db k) (life (delete_queue k (update_run k (terminal_write st reason res kind stamp) db1)) k)"
    using assms by (simp add: life_def table_simps)
  show "\<And>j. j \<noteq> k \<Longrightarrow> life (delete_queue k (update_run k (terminal_write st reason res kind stamp) db1)) j = life db j"
    using assms(11) by (simp add: life_def table_simps)
  show "pk_ok db \<Longrightarrow> pk_ok (delete_queue k (update_run k (terminal_write st reason res kind stamp) db1))"
    using assms(12) by (simp add: pk_ok_delete_queue pk_ok_update_run)
qed

lemma terminalize_completion_evolves:
  assumes "terminalize_completion env_key run_id owner generation completion stamp db = Inr (res, db')"
    and "pc_status completion = RCompleted \<or> pc_status completion = RFailed"
  shows "evolves db db'"
  using assms(1)
proof (cases rule: terminalize_completion_cases)
  case kept
  then show ?thesis by simp
next
  case (ended r q)
  then show ?thesis
    using assms(2) by (auto intro!: finish_evolves [where ?db1.0 = db and cal = "rr_caller r" and u = "rr_updated_at r"])
qed

lemma complete_evolves:
  assumes "complete_in_transaction sha auth env_key run_id owner generation completion stamp db = Inr (res, db')"
    and "pc_status completion = RCompleted \<or> pc_status completion = RFailed"
  shows "evolves db db'"
proof (cases "pc_caller completion")
  case None
  with assms show ?thesis
    by (auto simp: complete_in_transaction_def require_executor_authority_def split: if_splits
        intro: terminalize_completion_evolves)
next
  case (Some caller)
  let ?out = "caller_write sha caller"
  from assms(1) Some obtain row db1 where
    row: "release_caller env_key run_id run_id owner generation ?out stamp db = Some (row, db1)"
    by (auto simp: complete_in_transaction_def require_executor_authority_def split: if_splits option.splits)
  from row show ?thesis
  proof (cases rule: release_caller_cases)
    case kept
    with assms Some row show ?thesis
      by (auto simp: complete_in_transaction_def require_executor_authority_def
          split: if_splits sum.splits caller_release_result.splits intro: terminalize_completion_evolves)
  next
    case (released r)
    let ?w = "caller_release_write ?out stamp"
    from released(4) assms(1) Some row have tm:
      "terminalize_completion env_key run_id owner generation completion stamp db1 = Inr (res, db')"
      by (auto simp: complete_in_transaction_def require_executor_authority_def decode_caller_release_def
          release_from_parts_def split: if_splits sum.splits)
    have r1: "find_run db1 (env_key, run_id) = Some (?w r)" "cc_released_at (rr_caller (?w r)) \<noteq> None"
      using released by (simp_all add: table_simps caller_release_write_def)
    have "res = CompletionTerminalized"
      using terminalize_completion_released [OF _ r1 tm] released by (simp add: fence_code_released)
    with tm obtain q where q: "find_queue db1 (env_key, run_id) = Some q" "fenced owner generation q"
        "runnable (rr_status (?w r))"
        "runs_check (terminal_write (pc_status completion) (pc_terminal_reason completion)
           (pc_result completion) (pc_fail_type completion) stamp (?w r))"
        "db' = delete_queue (env_key, run_id) (update_run (env_key, run_id)
           (terminal_write (pc_status completion) (pc_terminal_reason completion) (pc_result completion)
             (pc_fail_type completion) stamp) db1)"
      using r1(1) by (auto elim!: terminalize_completion_cases)
    from released q r1 assms(2) show ?thesis
      unfolding q(5)
      by (intro finish_evolves [where r = r and q = q and cal = "?out\<lparr>cc_released_at := Some stamp\<rparr>"
            and u = stamp and ?r1.0 = "?w r"])
        (auto simp: caller_release_write_def life_def table_simps pk_ok_update_run)
  qed
qed

lemma terminalize_exhausted_Rows:
  assumes "terminalize_exhausted k st kind body hash stamp db = Rows (st', db')"
  obtains r where "find_run db k = Some r" "runnable (rr_status r)" "st' = st"
    "runs_check (terminal_row st kind body hash stamp r)"
    "db' = delete_queue k (update_run k (terminal_row st kind body hash stamp) db)"
  using assms
  by (auto simp: terminalize_exhausted_def dest!: checked_update_Some split: option.splits if_splits)

lemma exhaust_evolves:
  assumes "terminalize_exhausted k st kind body hash stamp db1 = Rows (st', db')" and "run_is_terminal st"
    and "find_queue db k = Some q" and "qr_max_attempts q \<le> qr_attempts q + 1"
    and "find_run db1 = find_run db" and "\<And>j. j \<noteq> k \<Longrightarrow> find_queue db1 j = find_queue db j"
    and "pk_ok db \<Longrightarrow> pk_ok db1"
  shows "evolves db db'"
  using assms(1)
proof (rule terminalize_exhausted_Rows)
  fix r assume "find_run db1 k = Some r" "runnable (rr_status r)"
    "runs_check (terminal_row st kind body hash stamp r)"
    "db' = delete_queue k (update_run k (terminal_row st kind body hash stamp) db1)"
  with assms show ?thesis
    by (intro evolves_at [of db k])
      (auto simp: life_def table_simps pk_ok_delete_queue pk_ok_update_run intro!: exhaust)
qed

lemma reap_evolves:
  assumes "pk_ok db"
    and "reap_in_transaction sha auth env_key pkgs environment grace now locked stamp db = Inr (res, db')"
  shows "evolves db db'"
proof (cases "select_exhausted_production db env_key grace pkgs environment now locked")
  case None
  with assms(2) show ?thesis
    by (auto simp: reap_in_transaction_def require_executor_authority_def split: if_splits)
next
  case (Some q)
  then have q: "q \<in> set (db_queue db)" "exhausted_past_grace grace now q"
    unfolding select_exhausted_production_def by (auto dest!: first_by_order_member)
  have fq: "find_queue db (queue_key q) = Some q" using assms(1) q(1) by (rule find_queue_member)
  from assms(2) Some have "db' = db \<or> (\<exists>body hash st. terminalize_exhausted (queue_key q)
      InfrastructureFailure None body hash stamp db = Rows (st, db'))"
    by (auto simp: reap_in_transaction_def require_executor_authority_def Let_def generic_failure_outcome_def
        split: if_splits option.splits statement.splits prod.splits)
  then show ?thesis
    using exhaust_evolves [OF _ _ fq, where ?db1.0 = db] q(2) by (fastforce simp: exhausted_past_grace_def)
qed

lemma release_evolves:
  assumes "store_ok db"
    and "release_in_transaction sha auth env_key run_id owner generation ts jitter stamp db = Inr (res, db')"
  shows "evolves db db'"
proof (cases "release_production_claim (env_key, run_id) owner generation ts jitter db")
  case None
  with assms(2) show ?thesis
    by (auto simp: release_in_transaction_def require_executor_authority_def split: if_splits)
next
  case (Some out)
  let ?k = "(env_key, run_id)"
  let ?db1 = "update_queue ?k (released_row ts jitter) db"
  from Some obtain q r where q: "find_queue db ?k = Some q" "find_run db ?k = Some r"
      "holds_live owner generation ts q"
    and out: "out = ((qr_max_attempts q \<le> qr_attempts q + 1, rp_wiring_id (rr_pins r), rp_wiring_version (rr_pins r)), ?db1)"
    by (auto simp: release_production_claim_def split: option.splits if_splits)
  show ?thesis
  proof (cases "qr_max_attempts q \<le> qr_attempts q + 1")
    case False
    with assms(2) Some out have "db' = ?db1"
      by (auto simp: release_in_transaction_def require_executor_authority_def split: if_splits)
    with False q show ?thesis
      by (intro evolves_at [of db ?k])
        (auto simp: life_def table_simps pk_ok_update_queue intro!: release)
  next
    case True
    with assms(2) Some out obtain body hash st where
      "terminalize_exhausted ?k RFailed (Some FRetryExhausted) body hash stamp ?db1 = Rows (st, db')"
      by (auto simp: release_in_transaction_def require_executor_authority_def Let_def generic_failure_outcome_def
          split: if_splits option.splits statement.splits prod.splits)
    then show ?thesis
      by (rule exhaust_evolves [OF _ _ q(1) True]) (simp_all add: table_simps pk_ok_update_queue)
  qed
qed

inductive admits :: "string \<Rightarrow> string \<Rightarrow> run_pins \<Rightarrow> run_db \<Rightarrow> run_db \<Rightarrow> bool" for env_key run_id pins db where
  kept: "admits env_key run_id pins db db"
| admitted: "\<lbrakk>life db (env_key, run_id) = (None, None);
    life db' (env_key, run_id) = (Some (admitted_row env_key run_id pins),
      Some (fresh_queue_row env_key run_id (rp_created_at pins)));
    \<And>j. j \<noteq> (env_key, run_id) \<Longrightarrow> life db' j = life db j; pk_ok db \<Longrightarrow> pk_ok db';
    \<not> key_taken db env_key (rp_idempotency_key pins)\<rbrakk> \<Longrightarrow>
    admits env_key run_id pins db db'"

lemma admit_admits:
  assumes "store_ok db"
  shows "admits env_key run_id pins db (snd (admit_run auth env_key run_id pins first db))"
proof (cases "insert_run env_key run_id pins db")
  case (Inserted db1)
  let ?k = "(env_key, run_id)" and ?db' = "snd (admit_run auth env_key run_id pins first db)"
  let ?r = "admitted_row env_key run_id pins" and ?q = "fresh_queue_row env_key run_id (rp_created_at pins)"
  from Inserted have new: "find_run db ?k = None" "\<not> key_taken db env_key (rp_idempotency_key pins)"
    and db1: "db1 = db\<lparr>db_runs := db_runs db @ [?r]\<rparr>"
    by (auto simp: insert_run_def split: if_splits)
  have noq: "find_queue db ?k = None"
  proof (rule ccontr)
    assume "find_queue db ?k \<noteq> None"
    then obtain q where "find_queue db ?k = Some q" by blast
    from life_ok_queued [OF assms this] new show False by simp
  qed
  have keys: "run_key ?r = ?k" "queue_key ?q = ?k"
    by (simp_all add: run_key_def queue_key_def admitted_row_def fresh_queue_row_def)
  have "?db' = db1\<lparr>db_queue := db_queue db1 @ [?q]\<rparr> \<or> ?db' = db"
    using Inserted by (auto simp: admit_run_def finish_def require_executor_authority_def insert_run_queue_def
        fresh_queue_row_def split: if_splits option.splits)
  then show ?thesis
  proof
    assume db': "?db' = db1\<lparr>db_queue := db_queue db1 @ [?q]\<rparr>"
    have runs: "find_run ?db' j = (if j = ?k then Some ?r else find_run db j)" for j
      unfolding db' using new keys by (auto simp: db1 find_run_def find_append split: option.splits)
    have queue: "find_queue ?db' j = (if j = ?k then Some ?q else find_queue db j)" for j
      unfolding db' using noq keys by (auto simp: db1 find_queue_def find_append split: option.splits)
    have "?k \<notin> set (map run_key (db_runs db))" "?k \<notin> set (map queue_key (db_queue db))"
      using new noq by (auto simp: find_run_def find_queue_def find_None_iff)
    then have "pk_ok db \<Longrightarrow> pk_ok ?db'" unfolding db' by (simp add: pk_ok_def db1 keys)
    with new noq show ?thesis by (intro admitted) (simp_all add: life_def runs queue)
  next
    assume "?db' = db"
    then show ?thesis by (simp add: kept)
  qed
qed (auto simp: admit_run_def finish_def require_executor_authority_def intro: kept
      split: if_splits option.splits)

lemma admits_ok: "admits env_key run_id pins db db' \<Longrightarrow> store_ok db \<Longrightarrow> store_ok db'"
proof (induction rule: admits.induct)
  case (admitted db')
  have "life_ok (life db' k)" for k
  proof (cases "k = (env_key, run_id)")
    case True
    with admitted show ?thesis
      by (simp add: fresh_queue_row_def DEFAULT_MAX_ATTEMPTS_def runnable_def) (simp add: admitted_row_def)
  next
    case False
    with admitted show ?thesis by (simp add: store_okD)
  qed
  with admitted show ?case unfolding store_ok_def by blast
qed

lemma find_member: "find P xs = Some x \<Longrightarrow> x \<in> set xs \<and> P x"
  by (induction xs) (auto split: if_splits)

lemma find_filter_key2:
  assumes "distinct (map key xs)"
  shows "find (\<lambda>x. key x = k) (filter P xs) =
    (case find (\<lambda>x. key x = k) xs of None \<Rightarrow> None | Some x \<Rightarrow> if P x then Some x else None)"
  using assms
proof (induction xs)
  case (Cons x xs)
  show ?case
  proof (cases "key x = k")
    case True
    with Cons.prems have "find (\<lambda>y. key y = k) xs = None" by (auto simp: find_None_iff image_iff)
    with Cons True show ?thesis by simp
  next
    case False
    with Cons show ?thesis by simp
  qed
qed simp

lemma prune_evolves:
  assumes "pk_ok db"
  shows "evolves db (prune_terminal_runs env_key days now db)"
proof -
  let ?db' = "prune_terminal_runs env_key days now db" and ?P = "prunable env_key days now"
  have runs: "find_run ?db' k = (case find_run db k of None \<Rightarrow> None | Some r \<Rightarrow> if ?P r then None else Some r)" for k
    using find_filter_key2 [of run_key "db_runs db" k "\<lambda>r. \<not> ?P r"] assms
    by (auto simp: find_run_def prune_terminal_runs_def Let_def pk_ok_def split: option.splits)
  have gone: "k \<in> run_key ` {r \<in> set (db_runs db). ?P r} \<longleftrightarrow> (\<exists>r. find_run db k = Some r \<and> ?P r)" (is "?l \<longleftrightarrow> ?r") for k
  proof
    assume ?l
    then obtain r where "r \<in> set (db_runs db)" "run_key r = k" "?P r" by auto
    with find_distinct_image [of run_key "db_runs db" r] assms show ?r
      by (auto simp: find_run_def pk_ok_def)
  next
    assume ?r
    then show ?l by (auto simp: find_run_def dest!: find_member)
  qed
  have queue: "find_queue ?db' k = (if \<exists>r. find_run db k = Some r \<and> ?P r then None else find_queue db k)" for k
  proof (cases "find_queue db k")
    case None
    with find_filter_key2 [of queue_key "db_queue db" k] assms show ?thesis
      by (simp add: find_queue_def prune_terminal_runs_def Let_def pk_ok_def)
  next
    case (Some q)
    then have "queue_key q = k" by (rule find_key)
    with Some gone [of k] find_filter_key2 [of queue_key "db_queue db" k] assms show ?thesis
      by (simp add: find_queue_def prune_terminal_runs_def Let_def pk_ok_def)
  qed
  have "life_step (life db k) (life ?db' k)" for k
    by (cases "find_run db k")
      (auto simp: life_def runs queue prunable_def intro: stay prune)
  moreover have "pk_ok ?db'"
    using assms by (simp add: pk_ok_def prune_terminal_runs_def Let_def distinct_map_filter)
  ultimately show ?thesis by (simp add: evolves_def)
qed

section \<open>Runs of the store\<close>

text \<open>
  The transactions in any order, by any executors, at any instants. The second component is the set
  of run ids ever drawn: \<open>gen_random_uuid\<close> is taken to draw each id once.
\<close>

type_synonym store = "run_db \<times> (string \<times> string) set"

definition empty_db :: run_db where "empty_db = \<lparr>db_runs = [], db_queue = []\<rparr>"

inductive transacts :: "store \<Rightarrow> store \<Rightarrow> bool" where
  t_admit: "(env_key, run_id) \<notin> used \<Longrightarrow>
    transacts (db, used) (snd (admit_run auth env_key run_id pins first db), insert (env_key, run_id) used)"
| t_claim: "transacts (db, used)
    (snd (claim_next world_ok guard auth env_key runner pkgs environment ttl rel now ts locked db), used)"
| t_renew: "transacts (db, used) (snd (renew auth env_key runner run_id generation ttl ts db), used)"
| t_complete: "pc_status completion = RCompleted \<or> pc_status completion = RFailed \<Longrightarrow>
    transacts (db, used) (snd (complete sha auth env_key run_id runner generation completion stamp db), used)"
| t_report: "transacts (db, used) (snd (deadline_report auth env_key run_id runner generation j db), used)"
| t_reap: "transacts (db, used)
    (snd (reap_exhausted sha auth env_key pkgs environment grace now locked stamp db), used)"
| t_release: "transacts (db, used)
    (snd (release_claim sha auth env_key run_id runner generation ts jitter stamp db), used)"
| t_park: "transacts (db, used) (snd (park_queued_run env_key run_id environment now db), used)"
| t_unpark: "transacts (db, used) (snd (release_parked_run env_key run_id environment now db), used)"
| t_prune: "transacts (db, used) (prune_terminal_runs env_key days now db, used)"

lemma claim_next_evolves:
  assumes "store_ok db"
  shows "evolves db (snd (claim_next world_ok guard auth env_key runner pkgs environment ttl rel now ts locked db))"
proof -
  have pk: "pk_ok db" using assms by (simp add: store_ok_def)
  have "snd (claim_next world_ok guard auth env_key runner pkgs environment ttl rel now ts locked db) = db \<or>
    snd (claim_next world_ok guard auth env_key runner pkgs environment ttl rel now ts locked db) =
    snd (finish db (claim_in_transaction world_ok guard auth env_key runner pkgs environment ttl rel now ts locked db))"
    by (auto simp: claim_next_def finish_def split: sum.splits claim_turn.splits prod.splits)
  then show ?thesis using evolves_finish claim_evolves [OF pk] evolves_refl by metis
qed

lemma evolves_guarded:
  "(\<And>v db'. t = Inr (v, db') \<Longrightarrow> evolves db db') \<Longrightarrow> evolves db (snd (if b then (e, db) else finish db t))"
  by (simp add: evolves_finish)

lemma transacts_cases:
  assumes "transacts (db, used) (db', used')" and "store_ok db"
  shows "used' = used \<and> evolves db db' \<or>
    (\<exists>env_key run_id pins. (env_key, run_id) \<notin> used \<and> used' = insert (env_key, run_id) used
       \<and> admits env_key run_id pins db db')"
  using assms
proof (induction "(db, used)" "(db', used')" rule: transacts.induct)
  case (t_admit env_key run_id auth pins first)
  then show ?case using admit_admits [of db env_key run_id pins auth first] by auto
next
  case t_claim
  then show ?case using claim_next_evolves by blast
next
  case (t_renew auth env_key runner run_id generation ttl ts)
  have "evolves db (snd (renew auth env_key runner run_id generation ttl ts db))"
    unfolding renew_def renew_in_transaction_def
    by (rule evolves_guarded) (auto simp: require_executor_authority_def split: if_splits option.splits
        intro: renew_evolves [OF t_renew.prems])
  with t_renew show ?case by simp
next
  case (t_complete completion sha auth env_key run_id runner generation stamp)
  have "evolves db (snd (complete sha auth env_key run_id runner generation completion stamp db))"
    unfolding complete_def by (rule evolves_guarded) (erule complete_evolves [OF _ t_complete.hyps(1)])
  with t_complete show ?case by simp
next
  case (t_report auth env_key run_id runner generation j)
  have "evolves db (snd (deadline_report auth env_key run_id runner generation j db))"
    unfolding deadline_report_def
    by (rule evolves_guarded) (auto simp: require_executor_authority_def split: if_splits
        intro: report_evolves [of db env_key run_id run_id runner generation j, THEN back_subst [of "evolves db"]])
  with t_report show ?case by simp
next
  case (t_reap sha auth env_key pkgs environment grace now locked stamp)
  have "evolves db (snd (reap_exhausted sha auth env_key pkgs environment grace now locked stamp db))"
    unfolding reap_exhausted_def
    by (rule evolves_guarded) (rule reap_evolves, use t_reap.prems in \<open>simp_all add: store_ok_def\<close>)
  with t_reap show ?case by simp
next
  case (t_release sha auth env_key run_id runner generation ts jitter stamp)
  have "evolves db (snd (release_claim sha auth env_key run_id runner generation ts jitter stamp db))"
    unfolding release_claim_def
    by (rule evolves_guarded) (rule release_evolves [OF t_release.prems])
  with t_release show ?case by simp
next
  case t_park
  then show ?case using park_evolves by blast
next
  case t_unpark
  then show ?case using unpark_evolves by blast
next
  case t_prune
  then show ?case using prune_evolves by (auto simp: store_ok_def)
qed

lemma transacts_ok: "transacts (db, used) (db', used') \<Longrightarrow> store_ok db \<Longrightarrow> store_ok db'"
  using transacts_cases [of db used db' used'] evolves_ok admits_ok by blast

lemma empty_ok: "store_ok empty_db"
  by (simp add: store_ok_def pk_ok_def empty_db_def life_def find_run_def find_queue_def)

definition reached :: "run_db \<Rightarrow> (string \<times> string) set \<Rightarrow> bool" where
  "reached db used \<longleftrightarrow> transacts\<^sup>*\<^sup>* (empty_db, {}) (db, used)"

lemma reached_ok: "reached db used \<Longrightarrow> store_ok db"
proof -
  assume "reached db used"
  then have "transacts\<^sup>*\<^sup>* (empty_db, {}) (db, used)" by (simp add: reached_def)
  then have "store_ok (fst (db, used))"
    by (induction rule: rtranclp_induct) (auto simp: empty_ok intro: transacts_ok)
  then show ?thesis by simp
qed

subsection \<open>What a step keeps of a run\<close>

lemma life_step_keeps:
  "life_step (Some r, q) (Some r', q') \<Longrightarrow>
     rr_pins r' = rr_pins r
     \<and> (cc_released_at (rr_caller r) \<noteq> None \<longrightarrow> rr_caller r' = rr_caller r)"
  by (cases rule: life_step.cases) (auto simp: terminal_row_def Let_def)

lemma life_step_terminal:
  assumes "life_step (Some r, q) (x, q')" and "life_ok (Some r, q)" and "run_is_terminal (rr_status r)"
  shows "q = None \<and> q' = None \<and> (x = Some r \<or> x = None)"
proof -
  from assms(2,3) have "q = None" by (cases q) (auto simp: runnable_iff)
  with assms(1) show ?thesis by (cases rule: life_step.cases) auto
qed

lemma life_step_generation:
  "life_step (x, Some q) (y, Some q') \<Longrightarrow>
     qr_lease_generation q \<le> qr_lease_generation q'
     \<and> (qr_lease_generation q = qr_lease_generation q' \<longrightarrow>
          qr_lease_owner q' = qr_lease_owner q \<or> qr_lease_owner q' = None)"
  by (cases rule: life_step.cases) (auto simp: lease_row_def counted_def released_row_def)

lemma life_step_no_birth: "life_step (None, q) y \<Longrightarrow> y = (None, q)"
  by (cases rule: life_step.cases) auto

lemma transacts_life:
  assumes "transacts (db, used) (db', used')" and "store_ok db" and "k \<in> used"
  shows "life_step (life db k) (life db' k) \<and> k \<in> used'"
  using transacts_cases [OF assms(1,2)]
proof
  assume "\<exists>env_key run_id pins. (env_key, run_id) \<notin> used \<and> used' = insert (env_key, run_id) used
       \<and> admits env_key run_id pins db db'"
  then obtain env_key run_id pins where adm: "(env_key, run_id) \<notin> used" "used' = insert (env_key, run_id) used"
    "admits env_key run_id pins db db'" by blast
  with assms(3) have "k \<noteq> (env_key, run_id)" by auto
  with adm(3) have "life db' k = life db k" by (cases rule: admits.cases) auto
  with adm assms(3) show ?thesis by (simp add: stay)
qed (use assms(3) in \<open>auto simp: evolves_def\<close>)

lemma transacts_used:
  assumes "transacts (db, used) (db', used')" and "store_ok db" and "\<And>k. find_run db k \<noteq> None \<Longrightarrow> k \<in> used"
    and "find_run db' k \<noteq> None"
  shows "k \<in> used'"
  using transacts_cases [OF assms(1,2)]
proof
  assume ev: "used' = used \<and> evolves db db'"
  then have "life_step (life db k) (life db' k)" by (simp add: evolves_def)
  with assms(4) have "find_run db k \<noteq> None"
    by (cases "find_run db k") (auto simp: life_def dest: life_step_no_birth)
  with assms(3) ev show ?thesis by simp
next
  assume "\<exists>env_key run_id pins. (env_key, run_id) \<notin> used \<and> used' = insert (env_key, run_id) used
       \<and> admits env_key run_id pins db db'"
  then obtain env_key run_id pins where adm: "used' = insert (env_key, run_id) used"
    "admits env_key run_id pins db db'" by blast
  from adm(2) show ?thesis
  proof (cases rule: admits.cases)
    case admitted
    then have "k = (env_key, run_id) \<or> find_run db k \<noteq> None"
      using assms(4) by (cases "k = (env_key, run_id)") (auto simp: life_def)
    with assms(3) [of k] adm show ?thesis by blast
  next
    case kept
    with assms(3,4) adm show ?thesis by blast
  qed
qed

lemma reached_used: "reached db used \<Longrightarrow> find_run db k \<noteq> None \<Longrightarrow> k \<in> used"
proof -
  assume "reached db used" "find_run db k \<noteq> None"
  have "transacts\<^sup>*\<^sup>* (empty_db, {}) (db, used) \<Longrightarrow>
      store_ok (fst (db, used)) \<and> (\<forall>k. find_run (fst (db, used)) k \<noteq> None \<longrightarrow> k \<in> snd (db, used))"
  proof (induction rule: rtranclp_induct)
    case base
    then show ?case by (simp add: empty_ok) (simp add: empty_db_def find_run_def)
  next
    case (step y z)
    obtain db1 u1 db2 u2 where yz: "y = (db1, u1)" "z = (db2, u2)" by (cases y; cases z)
    from step yz have "transacts (db1, u1) (db2, u2)" "store_ok db1" "\<And>k. find_run db1 k \<noteq> None \<Longrightarrow> k \<in> u1"
      by auto
    from transacts_used [OF this] transacts_ok [OF this(1,2)] yz show ?case by auto
  qed
  with \<open>reached db used\<close> \<open>find_run db k \<noteq> None\<close> show ?thesis by (auto simp: reached_def)
qed

end
