(* ===== verification/Run_History.thy ===== *)
theory Run_History
  imports Run_Lifecycle
begin

text \<open>
  The properties of the run store over every sequence of its transactions: the tables agree,
  a terminal run is final, what a run was admitted with never changes, a caller is answered
  once, an idempotency key names one run, and a stale claim changes nothing.
\<close>

subsection \<open>One run per key\<close>

definition keys_once :: "run_db \<Rightarrow> bool" where
  "keys_once db \<longleftrightarrow> (\<forall>k1 k2 r1 r2 key. find_run db k1 = Some r1 \<and> find_run db k2 = Some r2
     \<and> fst k1 = fst k2 \<and> rp_idempotency_key (rr_pins r1) = Some key
     \<and> rp_idempotency_key (rr_pins r2) = Some key \<longrightarrow> k1 = k2)"

lemma key_taken_iff:
  "pk_ok db \<Longrightarrow> key_taken db e (Some key) \<longleftrightarrow>
     (\<exists>k r. find_run db k = Some r \<and> fst k = e \<and> rp_idempotency_key (rr_pins r) = Some key)"
proof
  assume pk: "pk_ok db" and "key_taken db e (Some key)"
  then obtain r where "r \<in> set (db_runs db)" "rr_env_key r = e" "rp_idempotency_key (rr_pins r) = Some key"
    by (auto simp: key_taken_def list_ex_iff)
  with pk find_distinct_image [of run_key "db_runs db" r]
  have "find_run db (run_key r) = Some r \<and> fst (run_key r) = e" by (simp add: pk_ok_def find_run_def run_key_def)
  with \<open>rp_idempotency_key (rr_pins r) = Some key\<close>
  show "\<exists>k r. find_run db k = Some r \<and> fst k = e \<and> rp_idempotency_key (rr_pins r) = Some key" by blast
next
  assume "\<exists>k r. find_run db k = Some r \<and> fst k = e \<and> rp_idempotency_key (rr_pins r) = Some key"
  then show "key_taken db e (Some key)"
    by (auto simp: key_taken_def list_ex_iff find_run_def run_key_def dest!: find_member)
qed

lemma evolves_rows:
  assumes "evolves db db'" and "find_run db' k = Some r'"
  obtains r where "find_run db k = Some r" "rr_pins r' = rr_pins r"
proof -
  from assms(1) have step: "life_step (life db k) (life db' k)" by (simp add: evolves_def)
  with assms(2) obtain r where r: "find_run db k = Some r"
    by (cases "find_run db k") (auto simp: life_def dest: life_step_no_birth)
  with step assms(2) have "rr_pins r' = rr_pins r" by (auto simp: life_def dest: life_step_keeps)
  with r that show thesis by blast
qed

lemma keys_onceD:
  "\<lbrakk>keys_once db; find_run db k1 = Some r1; find_run db k2 = Some r2; fst k1 = fst k2;
    rp_idempotency_key (rr_pins r1) = Some key; rp_idempotency_key (rr_pins r2) = Some key\<rbrakk> \<Longrightarrow> k1 = k2"
  unfolding keys_once_def by blast

lemma keys_onceI:
  "(\<And>k1 k2 r1 r2 key. \<lbrakk>find_run db k1 = Some r1; find_run db k2 = Some r2; fst k1 = fst k2;
    rp_idempotency_key (rr_pins r1) = Some key; rp_idempotency_key (rr_pins r2) = Some key\<rbrakk> \<Longrightarrow> k1 = k2)
   \<Longrightarrow> keys_once db"
  unfolding keys_once_def by blast

lemma transacts_keys_once:
  assumes "transacts (db, used) (db', used')" and "store_ok db" and "keys_once db"
  shows "keys_once db'"
  using transacts_cases [OF assms(1,2)]
proof
  assume "used' = used \<and> evolves db db'"
  then have ev: "evolves db db'" by simp
  show ?thesis
  proof (rule keys_onceI)
    fix k1 k2 r1 r2 key
    assume rows: "find_run db' k1 = Some r1" "find_run db' k2 = Some r2" and "fst k1 = fst k2"
      and "rp_idempotency_key (rr_pins r1) = Some key" "rp_idempotency_key (rr_pins r2) = Some key"
    moreover obtain s1 where "find_run db k1 = Some s1" "rr_pins r1 = rr_pins s1"
      by (rule evolves_rows [OF ev rows(1)])
    moreover obtain s2 where "find_run db k2 = Some s2" "rr_pins r2 = rr_pins s2"
      by (rule evolves_rows [OF ev rows(2)])
    ultimately show "k1 = k2" by (metis assms(3) keys_onceD)
  qed
next
  assume "\<exists>env_key run_id pins. (env_key, run_id) \<notin> used \<and> used' = insert (env_key, run_id) used
       \<and> admits env_key run_id pins db db'"
  then obtain e i pins where "admits e i pins db db'" by blast
  then show ?thesis
  proof (cases rule: admits.cases)
    case kept
    with assms(3) show ?thesis by simp
  next
    case admitted
    have pk: "pk_ok db" using assms(2) by (simp add: store_ok_def)
    have rows: "find_run db' k = (if k = (e, i) then Some (admitted_row e i pins) else find_run db k)" for k
      using admitted(2) admitted(3) [of k] by (auto simp: life_def)
    have free: "rp_idempotency_key pins = Some key \<Longrightarrow> find_run db k = Some r \<Longrightarrow> fst k = e \<Longrightarrow>
        rp_idempotency_key (rr_pins r) \<noteq> Some key" for key k r
      using admitted(5) key_taken_iff [OF pk] by metis
    show ?thesis
    proof (rule keys_onceI)
      fix k1 k2 r1 r2 key
      assume two: "find_run db' k1 = Some r1" "find_run db' k2 = Some r2" "fst k1 = fst k2"
        "rp_idempotency_key (rr_pins r1) = Some key" "rp_idempotency_key (rr_pins r2) = Some key"
      have pins: "rr_pins (admitted_row e i pins) = pins" by (simp add: admitted_row_def)
      consider "k1 = (e, i)" "k2 = (e, i)" | "k1 = (e, i)" "k2 \<noteq> (e, i)" | "k1 \<noteq> (e, i)" "k2 = (e, i)"
        | "k1 \<noteq> (e, i)" "k2 \<noteq> (e, i)" by blast
      then show "k1 = k2"
      proof cases
        case 2
        with two pins free [of key k2 r2] show ?thesis by (simp add: rows)
      next
        case 3
        with two pins free [of key k1 r1] show ?thesis by (simp add: rows)
      next
        case 4
        with two keys_onceD [OF assms(3), of k1 r1 k2 r2 key] show ?thesis by (simp add: rows)
      qed simp
    qed
  qed
qed

lemma reached_keys_once: "reached db used \<Longrightarrow> keys_once db"
proof -
  assume "reached db used"
  have "transacts\<^sup>*\<^sup>* (empty_db, {}) (db, used) \<Longrightarrow> store_ok (fst (db, used)) \<and> keys_once (fst (db, used))"
  proof (induction rule: rtranclp_induct)
    case base
    then show ?case by (simp add: empty_ok) (simp add: empty_db_def keys_once_def find_run_def)
  next
    case (step y z)
    then show ?case
      by (cases y; cases z) (auto intro: transacts_ok transacts_keys_once)
  qed
  with \<open>reached db used\<close> show ?thesis by (simp add: reached_def)
qed

subsection \<open>The granted claim\<close>

lemma first_by_order_least:
  assumes "first_by_order qs = Some q" and "q' \<in> set qs"
  shows "claim_order q \<le> claim_order q'"
proof -
  from assms(1) obtain rest where s: "sort_key claim_order qs = q # rest"
    by (auto simp: first_by_order_def split: list.splits)
  have "set (q # rest) = set qs" and "sorted (map claim_order (q # rest))"
    using set_sort [of claim_order qs] sorted_sort_key [of claim_order qs] by (simp_all only: s)
  with assms(2) show ?thesis by auto
qed

lemma claim_next_ready:
  assumes "claim_next world_ok guard auth env_key runner pkgs environment ttl rel now ts locked db
    = (Inr (ReadyRun s g), db')"
  obtains "0 < ttl" "claim_in_transaction world_ok guard auth env_key runner pkgs environment ttl rel
    now ts locked db = Inr (Claimed (ReadyRun s g), db')"
  using assms
  by (auto simp: claim_next_def finish_def split: if_splits sum.splits claim_turn.splits prod.splits)

text \<open>The tables after a grant of the head \<open>q\<close> of the queue, whose run is \<open>r\<close>.\<close>

definition granted :: "run_db \<Rightarrow> string \<Rightarrow> int \<Rightarrow> int \<Rightarrow> queue_row \<Rightarrow> run_row \<Rightarrow> run_db \<Rightarrow> bool" where
  "granted db runner ttl ts q r db' \<longleftrightarrow>
     find_queue db' (queue_key q) = Some (lease_row runner ttl ts (counted q))
     \<and> find_run db' (queue_key q) =
         Some (r\<lparr>rr_state := (if qr_lease_expires_at q = None then rr_state r else None), rr_status := RRunning\<rparr>)
     \<and> (\<forall>j. j \<noteq> queue_key q \<longrightarrow> life db' j = life db j)"

lemma claim_in_transaction_ready:
  assumes "pk_ok db"
    and "claim_in_transaction world_ok guard auth env_key runner pkgs environment ttl rel now ts locked db
      = Inr (Claimed (ReadyRun s g), db')"
  obtains q r where "select_production_claim db env_key pkgs environment rel now locked = Some q"
    "find_run db (queue_key q) = Some r" "runnable (rr_status r)" "sc_run_id s = rr_run_id r"
    "g = qr_lease_generation q + 1" "granted db runner ttl ts q r db'"
proof (cases "select_production_claim db env_key pkgs environment rel now locked")
  case None
  with assms(2) that show thesis
    by (auto simp: claim_in_transaction_def require_executor_authority_def split: if_splits)
next
  case (Some q)
  let ?k = "queue_key q"
  note q = select_production_claim_found [OF assms(1) Some]
  from q(3) obtain r where r: "find_run db ?k = Some r" by blast
  define db1 where "db1 = (if qr_lease_expires_at q \<noteq> None then clear_pre_effect_state ?k db else db)"
  from assms(2) Some r obtain sel digest where
    sel: "decode_selected_claim world_ok r (qr_lease_expires_at q \<noteq> None) = Inr sel"
    and run: "runnable (rr_status r)" and s: "s = sel"
    and grant: "grant_production_claim ?k runner ttl digest ts (update_queue ?k counted db1) = Some (g, db')"
    by (auto simp: claim_in_transaction_def require_executor_authority_def Let_def db1_def advance_counted
        classify_production_claim_def decode_selected_had decode_selected_status
        split: if_splits sum.splits option.splits)
  have fq: "find_queue (update_queue ?k counted db1) ?k = Some (counted q)"
    using q(1) by (simp add: db1_def clear_pre_effect_state_def table_simps)
  from grant fq have g: "g = qr_lease_generation q + 1" and db': "db' = update_run ?k (\<lambda>r. r\<lparr>rr_status := RRunning\<rparr>)
      (update_queue ?k (lease_row runner ttl ts) (update_queue ?k counted db1))"
    by (auto simp: grant_production_claim_def counted_def split: option.splits if_splits)
  have "granted db runner ttl ts q r db'"
    using r q(1) by (auto simp: granted_def db' db1_def clear_pre_effect_state_def table_simps life_def)
  with that [OF Some r run _ g] sel s show thesis by (simp add: decode_selected_status)
qed

subsection \<open>Along a history\<close>

lemma reached_step: "reached db used \<Longrightarrow> transacts (db, used) (db', used') \<Longrightarrow> reached db' used'"
  by (auto simp: reached_def intro: rtranclp.rtrancl_into_rtrancl)

lemma reached_steps: "reached db used \<Longrightarrow> transacts\<^sup>*\<^sup>* (db, used) (db', used') \<Longrightarrow> reached db' used'"
  by (auto simp: reached_def)

text \<open>What every step keeps of a run it holds at the end of every history.\<close>

lemma history_stable:
  assumes stable: "\<And>x y. life_step x y \<Longrightarrow> life_ok x \<Longrightarrow> P x \<Longrightarrow> P y"
    and "reached db used" and "k \<in> used" and "P (life db k)"
    and "transacts\<^sup>*\<^sup>* (db, used) (db', used')"
  shows "P (life db' k)"
proof -
  have "transacts\<^sup>*\<^sup>* (db, used) z \<Longrightarrow> reached (fst z) (snd z) \<and> k \<in> snd z \<and> P (life (fst z) k)" for z
  proof (induction rule: rtranclp_induct)
    case base
    with assms show ?case by simp
  next
    case (step y z)
    then have t: "transacts (fst y, snd y) (fst z, snd z)" and "reached (fst y) (snd y)" by simp_all
    then have ok: "store_ok (fst y)" by (blast intro: reached_ok)
    have "life_step (life (fst y) k) (life (fst z) k) \<and> k \<in> snd z"
      using transacts_life [OF t ok] step.IH by blast
    with stable step.IH store_okD [OF ok] reached_step [OF _ t] show ?case by blast
  qed
  from this [OF assms(5)] show ?thesis by simp
qed

lemma reached_row_used: "reached db used \<Longrightarrow> find_run db k = Some r \<Longrightarrow> k \<in> used"
  using reached_used [of db used k] by simp

lemma reached_queue_used: "reached db used \<Longrightarrow> find_queue db k = Some q \<Longrightarrow> k \<in> used"
  using life_ok_queued [OF reached_ok] reached_row_used by metis

section \<open>Sample histories\<close>

definition sample_pins :: run_pins where
  "sample_pins = manual_pins \<lparr>ad_package = ''pkg'', ad_manifest = ''d1'', ad_environment = ''live'',
     ad_wiring = ''orders'', ad_version = 3, ad_hash = ''h'', ad_key = ''k1'', ad_input = JNull,
     ad_durability = ''standard''\<rparr> ''svc'' ''runner-role'' ''u1'' (JObject []) 50"

abbreviation sample_claim :: "string \<Rightarrow> int \<Rightarrow> run_db \<Rightarrow> (claim_error, production_claim_result) result \<times> run_db" where
  "sample_claim runner now \<equiv>
     claim_next (\<lambda>_. True) (\<lambda>_. False) True ''env'' runner [''pkg''] ''live'' 30000 (Some ''d1'') now now []"

definition sample_admitted :: run_db where
  "sample_admitted = snd (admit_run True ''env'' ''run-1'' sample_pins (\<lambda>_. None) empty_db)"

definition sample_claimed :: run_db where
  "sample_claimed = snd (sample_claim ''pod-a'' 100 sample_admitted)"

definition sample_completed :: run_db where
  "sample_completed = snd (complete (\<lambda>_. ''sha'') True ''env'' ''run-1'' ''pod-a'' 1
     (completion_completed JNull None) 200 sample_claimed)"

lemma sample_admitted_eq:
  "sample_admitted = \<lparr>db_runs = [admitted_row ''env'' ''run-1'' sample_pins],
     db_queue = [fresh_queue_row ''env'' ''run-1'' 50]\<rparr>"
  by (simp add: sample_admitted_def admit_run_def finish_def require_executor_authority_def insert_run_def
      key_taken_def empty_db_def find_run_def insert_run_queue_def find_queue_def run_key_def admitted_row_def
      fresh_queue_row_def sample_pins_def manual_pins_def pins_of_def workflow_pins_def)

lemmas claim_eval = claim_next_def claim_in_transaction_def finish_def require_executor_authority_def
  valid_package_scope_def trims_to_itself_def select_production_claim_def first_by_order_def
  claim_eligible_def not_leased_def in_scope_def find_run_def find_queue_def run_key_def queue_key_def
  decode_selected_claim_def decode_wiring_identity_def decode_candidate_def decode_workflow_def
  with_causation_def router_caller_attached_def durable_caller_def classify_production_claim_def
  advance_claim_attempts_def clear_pre_effect_state_def grant_production_claim_def runnable_def
  update_run_def update_queue_def lease_row_def admitted_row_def fresh_queue_row_def
  sample_pins_def manual_pins_def pins_of_def workflow_pins_def DEFAULT_MAX_ATTEMPTS_def no_caller_def

lemma sample_claimed_eq:
  "sample_claimed = \<lparr>db_runs = [(admitted_row ''env'' ''run-1'' sample_pins)\<lparr>rr_status := RRunning\<rparr>],
     db_queue = [lease_row ''pod-a'' 30000 100 (fresh_queue_row ''env'' ''run-1'' 50)]\<rparr>"
  by (simp add: sample_claimed_def sample_admitted_eq claim_eval)

lemma sample_claimed_result:
  "\<exists>s. fst (sample_claim ''pod-a'' 100 sample_admitted) = Inr (ReadyRun s 1) \<and> sc_run_id s = ''run-1''"
  by (simp add: sample_admitted_eq claim_eval)

lemma sample_completed_eq:
  "sample_completed = \<lparr>db_runs = [(admitted_row ''env'' ''run-1'' sample_pins)\<lparr>rr_status := RCompleted,
      rr_terminal_reason := Some ''router-completed'', rr_result := Some JNull, rr_updated_at := 200\<rparr>],
     db_queue = []\<rparr>"
  by (simp add: sample_completed_def sample_claimed_eq complete_def complete_in_transaction_def finish_def
      require_executor_authority_def completion_completed_def terminalize_completion_def terminalize_def
      fenced_run_def fence_code_def find_run_def find_queue_def run_key_def queue_key_def admitted_row_def
      lease_row_def fresh_queue_row_def no_caller_def durable_caller_def checked_update_def runs_check_def
      update_run_def delete_queue_def decode_terminalization_def terminalize_from_parts_def
      sample_pins_def manual_pins_def pins_of_def workflow_pins_def)

lemma reached_admitted: "reached sample_admitted {(''env'', ''run-1'')}"
proof -
  have "reached empty_db {}" by (simp add: reached_def)
  from reached_step [OF this t_admit [of "''env''" "''run-1''" "{}" empty_db True sample_pins "\<lambda>_. None"]]
  show ?thesis by (simp add: sample_admitted_def)
qed

lemma step_claimed: "transacts (sample_admitted, u) (sample_claimed, u)"
  unfolding sample_claimed_def by (rule t_claim)

lemma step_completed: "transacts (sample_claimed, u) (sample_completed, u)"
  unfolding sample_completed_def by (rule t_complete) (simp add: completion_completed_def)

lemmas reached_claimed = reached_step [OF reached_admitted step_claimed]
lemmas reached_completed = reached_step [OF reached_claimed step_completed]

section \<open>Properties\<close>

text \<open>
  C2. Every transaction of the store is one step of each run it knows: admission, claim, renewal,
  completion, deadline report, release, reaping, parking, unparking and pruning, whatever their
  arguments and outcomes, move each admitted run by one step of the life machine \<open>life_step\<close> (the
  abstract specification), and a run id once drawn stays drawn.\<close>

theorem store_refines_life:
  assumes "reached db used" and "transacts (db, used) (db', used')" and "k \<in> used"
  shows "life_step (life db k) (life db' k) \<and> k \<in> used'"
  using transacts_life [OF assms(2) reached_ok [OF assms(1)] assms(3)] .

theorem store_refines_life_witness:
  "life_step (life sample_claimed (''env'', ''run-1'')) (life sample_completed (''env'', ''run-1''))
   \<and> (''env'', ''run-1'') \<in> {(''env'', ''run-1'')}"
  by (rule store_refines_life [OF reached_claimed step_completed]) simp

text \<open>
  C7. RUN-1 over every history: a run has a queue row exactly while it exists and is not terminal,
  primary keys are unique in both tables, and a queued run is within its attempt budget, with room
  for another attempt whenever it has never been leased or was released.\<close>

theorem queue_matches_runs:
  assumes "reached db used"
  shows "(find_queue db k \<noteq> None \<longleftrightarrow> (\<exists>r. find_run db k = Some r \<and> \<not> run_is_terminal (rr_status r)))
    \<and> distinct (map run_key (db_runs db)) \<and> distinct (map queue_key (db_queue db))
    \<and> (\<forall>q. find_queue db k = Some q \<longrightarrow> 0 \<le> qr_attempts q \<and> qr_attempts q \<le> qr_max_attempts q
         \<and> (qr_lease_expires_at q = None \<longrightarrow> qr_attempts q < qr_max_attempts q))"
proof -
  have ok: "store_ok db" by (rule reached_ok [OF assms])
  have "life_ok (find_run db k, find_queue db k)" using store_okD [OF ok, of k] by (simp add: life_def)
  then have "(find_queue db k \<noteq> None \<longleftrightarrow> (\<exists>r. find_run db k = Some r \<and> \<not> run_is_terminal (rr_status r)))
    \<and> (\<forall>q. find_queue db k = Some q \<longrightarrow> 0 \<le> qr_attempts q \<and> qr_attempts q \<le> qr_max_attempts q
         \<and> (qr_lease_expires_at q = None \<longrightarrow> qr_attempts q < qr_max_attempts q))"
    by (cases "find_run db k"; cases "find_queue db k") (auto simp: runnable_iff)
  with ok show ?thesis by (simp add: store_ok_def pk_ok_def)
qed

theorem queue_matches_runs_witness:
  "find_queue sample_claimed (''env'', ''run-1'') \<noteq> None
   \<and> (\<exists>r. find_run sample_claimed (''env'', ''run-1'') = Some r \<and> \<not> run_is_terminal (rr_status r))"
proof -
  have "find_queue sample_claimed (''env'', ''run-1'') \<noteq> None"
    by (simp add: sample_claimed_eq find_queue_def queue_key_def lease_row_def fresh_queue_row_def)
  with queue_matches_runs [OF reached_claimed, of "(''env'', ''run-1'')"] show ?thesis by simp
qed

text \<open>
  C8. RUN-5 over every history: once a run is terminal, no transaction changes any column of its row
  again or queues it again; the only thing left to happen to it is to be pruned.\<close>

theorem terminal_is_final:
  assumes "reached db used" and "find_run db k = Some r" and "run_is_terminal (rr_status r)"
    and "transacts\<^sup>*\<^sup>* (db, used) (db', used')"
  shows "(find_run db' k = Some r \<or> find_run db' k = None) \<and> find_queue db' k = None"
proof -
  let ?P = "\<lambda>x. (fst x = Some r \<or> fst x = None) \<and> snd x = None"
  have "?P (life db' k)"
  proof (rule history_stable [OF _ assms(1) reached_row_used [OF assms(1,2)] _ assms(4)])
    show "?P (life db k)"
      using store_okD [OF reached_ok [OF assms(1)], of k] assms(2,3)
      by (cases "find_queue db k") (auto simp: life_def runnable_iff)
  next
    fix x y
    assume st: "life_step x y" and ok: "life_ok x" and "?P x"
    then consider "x = (Some r, None)" | "x = (None, None)" by (metis prod.collapse)
    then show "?P y"
    proof cases
      case 1
      with st ok assms(3) life_step_terminal [of r None "fst y" "snd y"] show ?thesis by simp
    next
      case 2
      with st show ?thesis by (auto dest: life_step_no_birth)
    qed
  qed
  then show ?thesis by (simp add: life_def)
qed

theorem terminal_is_final_witness:
  "find_run (prune_terminal_runs ''env'' 30 10000 sample_completed) (''env'', ''run-1'') \<in>
     {find_run sample_completed (''env'', ''run-1''), None}"
proof -
  have "\<exists>r. find_run sample_completed (''env'', ''run-1'') = Some r \<and> run_is_terminal (rr_status r)"
    by (simp add: sample_completed_eq find_run_def run_key_def admitted_row_def)
  then obtain r where r: "find_run sample_completed (''env'', ''run-1'') = Some r" "run_is_terminal (rr_status r)"
    by blast
  have "transacts\<^sup>*\<^sup>* (sample_completed, u) (prune_terminal_runs ''env'' 30 10000 sample_completed, u)" for u
    by (rule r_into_rtranclp) (rule t_prune)
  from terminal_is_final [OF reached_completed r this] r show ?thesis by auto
qed

text \<open>
  C32. What a run was admitted with never changes, and a caller is answered once: over any history
  the pinned columns of a run that is still there are those it had, and a caller outcome that was
  released is never overwritten.\<close>

theorem pins_and_answer_fixed:
  assumes "reached db used" and "find_run db k = Some r" and "transacts\<^sup>*\<^sup>* (db, used) (db', used')"
    and "find_run db' k = Some r'"
  shows "rr_pins r' = rr_pins r
    \<and> (cc_released_at (rr_caller r) \<noteq> None \<longrightarrow> rr_caller r' = rr_caller r)"
proof -
  let ?P = "\<lambda>x. case fst x of None \<Rightarrow> True | Some r' \<Rightarrow> rr_pins r' = rr_pins r
    \<and> (cc_released_at (rr_caller r) \<noteq> None \<longrightarrow> rr_caller r' = rr_caller r)"
  have "?P (life db' k)"
  proof (rule history_stable [OF _ assms(1) reached_row_used [OF assms(1,2)] _ assms(3)])
    show "?P (life db k)" using assms(2) by (simp add: life_def)
  next
    fix x y
    assume st: "life_step x y" and px: "?P x"
    obtain xr xq yr yq where xy: "x = (xr, xq)" "y = (yr, yq)" by (metis surj_pair)
    show "?P y"
    proof (cases xr)
      case None
      with st xy life_step_no_birth show ?thesis by fastforce
    next
      case (Some s)
      with st px xy life_step_keeps [of s xq _ yq] show ?thesis by (cases yr) simp_all
    qed
  qed
  with assms(4) show ?thesis by (simp add: life_def)
qed

theorem pins_and_answer_fixed_witness:
  "\<exists>r r'. find_run sample_claimed (''env'', ''run-1'') = Some r
     \<and> find_run sample_completed (''env'', ''run-1'') = Some r' \<and> rr_pins r' = rr_pins r"
proof -
  have "\<exists>r. find_run sample_claimed (''env'', ''run-1'') = Some r"
    "\<exists>r'. find_run sample_completed (''env'', ''run-1'') = Some r'"
    by (simp_all add: sample_claimed_eq sample_completed_eq find_run_def run_key_def admitted_row_def)
  then obtain r r' where "find_run sample_claimed (''env'', ''run-1'') = Some r"
    "find_run sample_completed (''env'', ''run-1'') = Some r'" by blast
  with pins_and_answer_fixed [OF reached_claimed _ r_into_rtranclp [of transacts, OF step_completed]]
  show ?thesis by metis
qed

text \<open>
  C33. No run with a durable caller ends well, or by exhaustion, behind its caller's back: in every
  reachable state a terminal run admitted over http, internally or from the studio has a released
  caller outcome, unless it \<open>failed\<close>, and a released outcome has its kind and its body.\<close>

theorem durable_callers_answered:
  assumes "reached db used" and "find_run db k = Some r" and "run_is_terminal (rr_status r)"
    and "durable_caller r" and "rr_status r \<noteq> RFailed"
  shows "cc_released_at (rr_caller r) \<noteq> None \<and> cc_body (rr_caller r) \<noteq> None
    \<and> cc_type (rr_caller r) \<in> {Some ''responded'', Some ''failed''}"
proof -
  from store_okD [OF reached_ok [OF assms(1)], of k] assms(2,3)
  have "life_ok (Some r, None)" by (cases "find_queue db k") (auto simp: life_def runnable_iff)
  with assms(4,5) show ?thesis by (auto simp: runs_check_def split: option.splits)
qed

definition sample_http_pins :: run_pins where
  "sample_http_pins = sample_pins\<lparr>rp_trigger_source := Some ''http'', rp_execution_principal := None,
     rp_execution_role := None, rp_node_digests := None\<rparr>"

definition sample_answered :: run_db where
  "sample_answered = snd (complete (\<lambda>_. ''sha'') True ''env'' ''run-2'' ''pod-a'' 1
     (completion_completed JNull (Some (responded JNull 200 ''reply''))) 200
     (snd (sample_claim ''pod-a'' 100
       (snd (admit_run True ''env'' ''run-2'' sample_http_pins (\<lambda>_. None) empty_db)))))"

lemma reached_answered: "reached sample_answered {(''env'', ''run-2'')}"
proof -
  have "reached empty_db {}" by (simp add: reached_def)
  from reached_step [OF this t_admit [of "''env''" "''run-2''" "{}" empty_db True sample_http_pins "\<lambda>_. None"]]
  have "reached (snd (sample_claim ''pod-a'' 100
       (snd (admit_run True ''env'' ''run-2'' sample_http_pins (\<lambda>_. None) empty_db)))) {(''env'', ''run-2'')}"
    by (rule reached_step, simp) (rule t_claim)
  then show ?thesis
    unfolding sample_answered_def by (rule reached_step) (rule t_complete, simp add: completion_completed_def)
qed

lemma sample_answered_eq:
  "db_runs sample_answered = [(admitted_row ''env'' ''run-2'' sample_http_pins)\<lparr>rr_status := RCompleted,
      rr_terminal_reason := Some ''router-completed'', rr_result := Some JNull, rr_updated_at := 200,
      rr_caller := \<lparr>cc_type = Some ''responded'', cc_body = Some JNull, cc_http_status = Some 200,
        cc_release_node = Some ''reply'', cc_hash = Some ''sha'', cc_released_at = Some 200\<rparr>\<rparr>]"
  by (simp add: sample_answered_def sample_http_pins_def admit_run_def insert_run_def key_taken_def empty_db_def
      insert_run_queue_def claim_eval complete_def complete_in_transaction_def completion_completed_def
      responded_def caller_write_def release_caller_def decode_caller_release_def release_from_parts_def
      decode_http_status_def terminalize_completion_def terminalize_def fenced_run_def fence_code_def
      checked_update_def runs_check_def delete_queue_def decode_terminalization_def terminalize_from_parts_def)

theorem durable_callers_answered_witness:
  "\<exists>r. find_run sample_answered (''env'', ''run-2'') = Some r \<and> durable_caller r
     \<and> cc_released_at (rr_caller r) \<noteq> None"
proof -
  have "\<exists>r. find_run sample_answered (''env'', ''run-2'') = Some r \<and> run_is_terminal (rr_status r)
     \<and> durable_caller r \<and> rr_status r \<noteq> RFailed"
    by (simp add: find_run_def sample_answered_eq run_key_def admitted_row_def durable_caller_def
        sample_http_pins_def)
  with durable_callers_answered [OF reached_answered] show ?thesis by blast
qed



text \<open>
  C28. What a granted claim is: the run it hands out is the first, in the order of availability,
  stream sequence and run id, of the queued rows in the pod's scope that are due, not under a live
  lease and within budget; its generation is one more than the row's; the row is leased to the
  runner until the ttl after the statement's clock, with an attempt counted when the row had been
  leased before; the run is running, with its pre-effect state cleared in that case; and no other
  run or row changes.\<close>

theorem claim_next_grants_head:
  assumes "reached db used"
    and "claim_next world_ok guard auth env_key runner pkgs environment ttl rel now ts locked db
      = (Inr (ReadyRun s g), db')"
  shows "\<exists>q r. select_production_claim db env_key pkgs environment rel now locked = Some q
    \<and> claim_eligible now q \<and> find_queue db (queue_key q) = Some q
    \<and> (\<forall>q' \<in> set (db_queue db). claim_eligible now q' \<and> in_scope db env_key pkgs environment locked
         (\<lambda>r. rp_manifest_digest (rr_pins r) = rel) q' \<longrightarrow> claim_order q \<le> claim_order q')
    \<and> find_run db (queue_key q) = Some r \<and> runnable (rr_status r)
    \<and> sc_run_id s = rr_run_id r \<and> g = qr_lease_generation q + 1 \<and> granted db runner ttl ts q r db'"
proof -
  have pk: "pk_ok db" using reached_ok [OF assms(1)] by (simp add: store_ok_def)
  from assms(2) obtain q r where q: "select_production_claim db env_key pkgs environment rel now locked = Some q"
    "find_run db (queue_key q) = Some r" "runnable (rr_status r)" "sc_run_id s = rr_run_id r"
    "g = qr_lease_generation q + 1" "granted db runner ttl ts q r db'"
    by (elim claim_next_ready) (erule claim_in_transaction_ready [OF pk], blast)
  note sel = q(1) [unfolded select_production_claim_def]
  from first_by_order_member [OF sel] have "claim_eligible now q" by simp
  moreover have "\<forall>q' \<in> set (db_queue db). claim_eligible now q' \<and> in_scope db env_key pkgs environment locked
         (\<lambda>r. rp_manifest_digest (rr_pins r) = rel) q' \<longrightarrow> claim_order q \<le> claim_order q'"
    using first_by_order_least [OF sel] by simp
  ultimately show ?thesis using q select_production_claim_found(1) [OF pk q(1)] by blast
qed

theorem claim_next_grants_head_witness:
  "\<exists>s q r. fst (sample_claim ''pod-a'' 100 sample_admitted) = Inr (ReadyRun s 1) \<and>
     1 = qr_lease_generation q + 1 \<and> granted sample_admitted ''pod-a'' 30000 100 q r sample_claimed"
proof -
  obtain s where s: "sample_claim ''pod-a'' 100 sample_admitted = (Inr (ReadyRun s 1), sample_claimed)"
    using sample_claimed_result by (metis prod.collapse sample_claimed_def)
  from claim_next_grants_head [OF reached_admitted s] s show ?thesis by auto
qed

definition void :: "run_db \<Rightarrow> string \<Rightarrow> string \<Rightarrow> string \<Rightarrow> int \<Rightarrow> bool" where
  "void db env_key run_id owner generation \<longleftrightarrow>
     (case find_queue db (env_key, run_id) of None \<Rightarrow> True | Some q \<Rightarrow> \<not> fenced owner generation q)"

lemma void_fence: "void db env_key run_id owner generation \<Longrightarrow>
    fence_code db env_key run_id run_id owner generation \<noteq> ''ready''"
  by (auto simp: void_def fence_code_def fenced_def split: option.splits)

lemma void_live: "void db env_key run_id owner generation \<Longrightarrow> find_queue db (env_key, run_id) = Some q \<Longrightarrow>
    \<not> holds_live owner generation ts q"
  by (auto simp: void_def holds_live_def fenced_def split: option.splits)

lemma finish_unchanged: "(\<And>v db'. t = Inr (v, db') \<Longrightarrow> db' = db) \<Longrightarrow> snd (finish db t) = db"
  by (simp add: finish_def split: sum.splits prod.splits)

lemma void_terminalize_completion:
  "void db env_key run_id owner generation \<Longrightarrow>
     terminalize_completion env_key run_id owner generation completion stamp db = Inr (v, db') \<Longrightarrow> db' = db"
  using void_fence [of db env_key run_id owner generation]
  by (auto simp: terminalize_completion_def terminalize_def
      split: option.splits sum.splits terminalize_result.splits prod.splits if_splits)

lemma void_release_caller:
  "void db env_key run_id owner generation \<Longrightarrow>
     release_caller env_key run_id run_id owner generation cols stamp db = Some (row, db') \<Longrightarrow> db' = db"
  using void_fence [of db env_key run_id owner generation]
  by (auto simp: release_caller_def Let_def split: if_splits option.splits)

lemma void_complete:
  assumes "void db env_key run_id owner generation"
  shows "snd (complete sha auth env_key run_id owner generation completion stamp db) = db"
proof -
  have "db' = db"
    if "complete_in_transaction sha auth env_key run_id owner generation completion stamp db = Inr (v, db')" for v db'
  proof (cases "pc_caller completion")
    case None
    with that void_terminalize_completion [OF assms] show ?thesis
      by (simp add: complete_in_transaction_def require_executor_authority_def split: if_splits)
  next
    case (Some caller)
    with that obtain row db1 where rc: "release_caller env_key run_id run_id owner generation (caller_write sha caller) stamp db
        = Some (row, db1)"
      by (auto simp: complete_in_transaction_def require_executor_authority_def split: if_splits option.splits)
    with void_release_caller [OF assms] have "db1 = db" by blast
    with that Some rc void_terminalize_completion [OF assms] show ?thesis
      by (auto simp: complete_in_transaction_def require_executor_authority_def
          split: if_splits sum.splits caller_release_result.splits)
  qed
  then show ?thesis unfolding complete_def by (simp add: finish_unchanged)
qed

lemma void_renew:
  "void db env_key run_id owner generation \<Longrightarrow> snd (renew auth env_key owner run_id generation ttl ts db) = db"
  unfolding renew_def renew_in_transaction_def using void_live [of db env_key run_id owner generation]
  by (auto simp: require_executor_authority_def renew_production_lease_def intro!: finish_unchanged
      split: option.splits if_splits)

lemma void_release_claim:
  "void db env_key run_id owner generation \<Longrightarrow>
     snd (release_claim sha auth env_key run_id owner generation ts jitter stamp db) = db"
  unfolding release_claim_def using void_live [of db env_key run_id owner generation]
  by (auto simp: require_executor_authority_def release_in_transaction_def release_production_claim_def
      intro!: finish_unchanged split: option.splits if_splits)

lemma void_deadline_report:
  "void db env_key run_id owner generation \<Longrightarrow>
     snd (deadline_report auth env_key run_id owner generation j db) = db"
  unfolding deadline_report_def using void_fence [of db env_key run_id owner generation]
  by (auto simp: require_executor_authority_def record_deadline_adjustments_def
      intro!: finish_unchanged split: if_splits)

definition generation_from :: "int \<Rightarrow> run_db \<Rightarrow> string \<times> string \<Rightarrow> bool" where
  "generation_from g db k \<longleftrightarrow> (case find_queue db k of None \<Rightarrow> True | Some q \<Rightarrow> g \<le> qr_lease_generation q)"

lemma life_step_no_requeue: "life_step (x, None) (y, q) \<Longrightarrow> q = None"
  by (cases rule: life_step.cases) auto

lemma generation_from_history:
  assumes "reached db used" and "k \<in> used" and "generation_from g db k"
    and "transacts\<^sup>*\<^sup>* (db, used) (db', used')"
  shows "generation_from g db' k"
proof -
  let ?P = "\<lambda>x. case snd x of None \<Rightarrow> True | Some q \<Rightarrow> g \<le> qr_lease_generation q"
  have "?P (life db' k)"
  proof (rule history_stable [OF _ assms(1,2) _ assms(4)])
    show "?P (life db k)" using assms(3) by (simp add: life_def generation_from_def)
  next
    fix x y
    assume st: "life_step x y" and px: "?P x"
    obtain xr xq yr yq where xy: "x = (xr, xq)" "y = (yr, yq)" by (metis surj_pair)
    show "?P y"
    proof (cases xq)
      case None
      with st xy life_step_no_requeue [of xr yr yq] show ?thesis by simp
    next
      case (Some q)
      with st px xy life_step_generation [of xr q yr] show ?thesis by (cases yq) fastforce+
    qed
  qed
  then show ?thesis by (simp add: life_def generation_from_def)
qed

lemma granted_at:
  assumes "reached db used"
    and "claim_next world_ok guard auth env_key runner pkgs environment ttl rel now ts locked db
      = (Inr (ReadyRun s g), db')"
  shows "reached db' used" and "(env_key, sc_run_id s) \<in> used"
    and "\<exists>q. find_queue db (env_key, sc_run_id s) = Some q \<and> g = qr_lease_generation q + 1
      \<and> find_queue db' (env_key, sc_run_id s) = Some (lease_row runner ttl ts (counted q))"
proof -
  have pk: "pk_ok db" using reached_ok [OF assms(1)] by (simp add: store_ok_def)
  from assms(2) obtain q r where q: "select_production_claim db env_key pkgs environment rel now locked = Some q"
    "find_run db (queue_key q) = Some r" "sc_run_id s = rr_run_id r"
    "g = qr_lease_generation q + 1" "granted db runner ttl ts q r db'"
    by (elim claim_next_ready) (erule claim_in_transaction_ready [OF pk], blast)
  have "qr_env_key q = env_key"
    using first_by_order_member [OF q(1) [unfolded select_production_claim_def]] by (simp add: in_scope_def)
  with find_key(1) [OF q(2)] q(3) have k: "queue_key q = (env_key, sc_run_id s)"
    by (simp add: queue_key_def run_key_def)
  show "reached db' used"
    using reached_step [OF assms(1) t_claim] assms(2) by (metis snd_conv)
  show "(env_key, sc_run_id s) \<in> used" using reached_row_used [OF assms(1) q(2)] k by simp
  show "\<exists>q. find_queue db (env_key, sc_run_id s) = Some q \<and> g = qr_lease_generation q + 1
      \<and> find_queue db' (env_key, sc_run_id s) = Some (lease_row runner ttl ts (counted q))"
    using select_production_claim_found(1) [OF pk q(1)] q(4,5) k by (auto simp: granted_def)
qed

text \<open>
  C3. The fence. When one run is granted twice in a history, the second grant's generation is the
  greater, and from then on, whatever happens next, the first grant's token is void: renewal,
  completion, release and the deadline report under it change no table.\<close>

theorem second_grant_voids_first:
  assumes "reached db used"
    and "claim_next world1 guard1 auth1 env_key runner1 pkgs1 environment1 ttl1 rel1 now1 ts1 locked1 db
      = (Inr (ReadyRun s1 g1), db1)"
    and "transacts\<^sup>*\<^sup>* (db1, used) (db2, used2)"
    and "claim_next world2 guard2 auth2 env_key runner2 pkgs2 environment2 ttl2 rel2 now2 ts2 locked2 db2
      = (Inr (ReadyRun s2 g2), db3)"
    and "sc_run_id s2 = sc_run_id s1"
    and "transacts\<^sup>*\<^sup>* (db3, used2) (db4, used4)"
  shows "g1 < g2
    \<and> snd (renew auth env_key runner1 (sc_run_id s1) g1 ttl ts db4) = db4
    \<and> snd (complete sha auth env_key (sc_run_id s1) runner1 g1 completion stamp db4) = db4
    \<and> snd (release_claim sha auth env_key (sc_run_id s1) runner1 g1 ts jitter stamp db4) = db4
    \<and> snd (deadline_report auth env_key (sc_run_id s1) runner1 g1 j db4) = db4"
proof -
  let ?k = "(env_key, sc_run_id s1)"
  note first = granted_at [OF assms(1,2)]
  have "reached db2 used2" by (rule reached_steps [OF first(1) assms(3)])
  note second = granted_at [OF this assms(4), unfolded assms(5)]
  have "generation_from g1 db1 ?k"
    using first(3) by (auto simp: generation_from_def lease_row_def counted_def)
  from generation_from_history [OF first(1,2) this assms(3)] second(3)
  have less: "g1 < g2" by (auto simp: generation_from_def)
  have "generation_from g2 db3 ?k"
    using second(3) by (auto simp: generation_from_def lease_row_def counted_def)
  from generation_from_history [OF second(1,2) this assms(6)] less
  have "void db4 env_key (sc_run_id s1) runner1 g1"
    by (auto simp: generation_from_def void_def fenced_def split: option.splits)
  with less show ?thesis
    by (simp add: void_renew void_complete void_release_claim void_deadline_report)
qed

definition sample_reclaimed :: run_db where
  "sample_reclaimed = snd (sample_claim ''pod-b'' 30000100 sample_claimed)"

lemma sample_reclaimed_result:
  "\<exists>s. fst (sample_claim ''pod-b'' 30000100 sample_claimed) = Inr (ReadyRun s 2) \<and> sc_run_id s = ''run-1''"
  by (simp add: sample_claimed_eq claim_eval)

theorem second_grant_voids_first_witness:
  "snd (complete (\<lambda>_. ''sha'') True ''env'' ''run-1'' ''pod-a'' 1 (completion_completed JNull None) 1 sample_reclaimed)
     = sample_reclaimed"
proof -
  obtain s1 where s1: "sample_claim ''pod-a'' 100 sample_admitted = (Inr (ReadyRun s1 1), sample_claimed)"
    "sc_run_id s1 = ''run-1''"
    using sample_claimed_result by (metis prod.collapse sample_claimed_def)
  obtain s2 where s2: "sample_claim ''pod-b'' 30000100 sample_claimed = (Inr (ReadyRun s2 2), sample_reclaimed)"
    "sc_run_id s2 = ''run-1''"
    using sample_reclaimed_result by (metis prod.collapse sample_reclaimed_def)
  from second_grant_voids_first [OF reached_admitted s1(1) rtranclp.rtrancl_refl s2(1) _ rtranclp.rtrancl_refl]
  show ?thesis by (simp add: s1(2) s2(2))
qed

lemma update_queue_id:
  assumes "pk_ok db" and "find_queue db k = Some q" and "f q = q"
  shows "update_queue k f db = db"
proof -
  have "f q' = q'" if "q' \<in> set (db_queue db)" "queue_key q' = k" for q'
    using find_queue_member [OF assms(1) that(1)] that(2) assms(2,3) by simp
  then show ?thesis by (simp add: update_queue_def map_idI)
qed



text \<open>
  No queued run falls between the claim and the janitor. In every reachable state and at any
  instant a queued row is never both claimable and reapable, and it is claimable, reapable, not yet
  due (or parked), under a live lease, or an exhausted row still within the janitor's grace.\<close>

lemma queued_rows_partition:
  assumes "reached db used" and "find_queue db k = Some q" and "0 \<le> grace"
  shows "\<not> (claim_eligible now q \<and> exhausted_past_grace grace now q)
    \<and> (claim_eligible now q \<or> exhausted_past_grace grace now q
       \<or> At now < qr_available_at q \<or> \<not> not_leased now q
       \<or> (\<exists>t. qr_lease_expires_at q = Some t \<and> t \<le> now \<and> now < t + grace * 1000 \<and> qr_attempts q = qr_max_attempts q))"
proof -
  have "qr_attempts q \<le> qr_max_attempts q"
    using store_okD [OF reached_ok [OF assms(1)], of k] assms(2)
    by (cases "find_run db k") (simp_all add: life_def)
  with assms(3) show ?thesis
    by (auto simp: claim_eligible_def exhausted_past_grace_def not_leased_def not_le split: option.splits)
qed

text \<open>
  A released claim waits at least a second and at most five minutes, and no less after more
  attempts with the same jitter: the delay doubles with each attempt and is capped.\<close>

lemma release_delay_bounds:
  assumes "0 \<le> jitter" and "0 \<le> attempts"
  shows "1000000 \<le> release_delay attempts jitter \<and> release_delay attempts jitter \<le> 300000000
    \<and> release_delay attempts jitter \<le> release_delay (attempts + 1) jitter"
proof -
  let ?d = "\<lambda>n::int. min (of_int MAX_RETRY_BACKOFF_MS) (1000 * 2 ^ nat (min n 9) * (1 + jitter * (1 / 5))) * (1000 :: rat)"
  have one: "(1 :: rat) \<le> 2 ^ nat (min n 9)" for n by simp
  have j: "(1 :: rat) \<le> 1 + jitter * (1 / 5)" using assms(1) by simp
  have "(1 :: rat) * 1 \<le> 2 ^ nat (min attempts 9) * (1 + jitter * (1 / 5))"
    by (rule mult_mono) (use one j in auto)
  then have lo: "1000000 \<le> ?d attempts" by (simp add: MAX_RETRY_BACKOFF_MS_def min_def)
  have hi: "?d attempts \<le> 300000000" by (simp add: MAX_RETRY_BACKOFF_MS_def)
  have "nat (min attempts 9) \<le> nat (min (attempts + 1) 9)" by simp
  then have "(2 :: rat) ^ nat (min attempts 9) \<le> 2 ^ nat (min (attempts + 1) 9)" by (simp add: power_increasing)
  then have "(2 :: rat) ^ nat (min attempts 9) * (1 + jitter * (1 / 5)) \<le>
      2 ^ nat (min (attempts + 1) 9) * (1 + jitter * (1 / 5))"
    by (rule mult_right_mono) (use j in simp)
  then have "?d attempts \<le> ?d (attempts + 1)" by (auto simp: min_def)
  moreover have "round (1000000 :: rat) \<le> round (?d attempts)" by (rule round_mono [OF lo])
  moreover have "round (?d attempts) \<le> round (300000000 :: rat)" by (rule round_mono [OF hi])
  ultimately show ?thesis by (simp add: release_delay_def round_mono)
qed

section \<open>The statement and the pure decision\<close>

text \<open>
  The row of the pure model (\<^verbatim>\<open>queue/model.rs\<close>) that a row of the table stands for; a parked row's
  \<open>infinity\<close> is the greatest \<open>i64\<close>.
\<close>

definition entry_of :: "queue_row \<Rightarrow> queue_entry" where
  "entry_of q = \<lparr>qe_env_key = qr_env_key q, qe_run_id = qr_run_id q, qe_priority = 0,
     qe_available_at = (case qr_available_at q of At t \<Rightarrow> t | Infinity \<Rightarrow> 2 ^ 63 - 1),
     qe_enqueued_at = qr_enqueued_at q, qe_stream_seq = qr_stream_seq q, qe_lease_owner = qr_lease_owner q,
     qe_lease_expires_at = qr_lease_expires_at q, qe_attempts = qr_attempts q, qe_max_attempts = qr_max_attempts q\<rparr>"

lemma entry_of_claimable: "now < 2 ^ 63 - 1 \<Longrightarrow> is_claimable (entry_of q) now \<longleftrightarrow> claim_eligible now q"
  by (auto simp: is_claimable_def claim_state_Ready entry_of_def claim_eligible_def not_leased_def
      split: option.splits instant.splits)

lemma claim_eligible_due: "claim_eligible now q \<Longrightarrow> \<exists>t. qr_available_at q = At t"
  by (cases "qr_available_at q") (auto simp: claim_eligible_def)

lemma insort_key_cong:
  assumes "\<forall>y \<in> set xs. (f x \<le> f y) = (g x \<le> g y)"
  shows "insort_key f x xs = insort_key g x xs"
  using assms by (induction xs) auto

lemma sort_key_cong_order:
  assumes "\<forall>x \<in> set xs. \<forall>y \<in> set xs. (f x \<le> f y) = (g x \<le> g y)"
  shows "sort_key f xs = sort_key g xs"
  using assms
proof (induction xs)
  case (Cons x xs)
  then have "sort_key f xs = sort_key g xs" by simp
  with Cons.prems show ?case by (simp add: insort_key_cong)
qed simp

lemma insort_key_map: "insort_key f (h x) (map h xs) = map h (insort_key (\<lambda>x. f (h x)) x xs)"
  by (induction xs) auto

lemma sort_key_map: "sort_key f (map h xs) = map h (sort_key (\<lambda>x. f (h x)) xs)"
  by (induction xs) (simp_all add: insort_key_map)

lemma claim_order_entry:
  assumes "claim_eligible now a" and "claim_eligible now b"
  shows "(claim_order a \<le> claim_order b) = (claim_key (entry_of a) \<le> claim_key (entry_of b))"
  using claim_eligible_due [OF assms(1)] claim_eligible_due [OF assms(2)]
  by (auto simp: claim_order_def claim_key_def entry_of_def less_instant_def less_eq_prod_def)

text \<open>
  C30. The claim statement implements the pure decision: the row the select of \<^verbatim>\<open>queue/sql.rs\<close> takes is
  the one \<open>plan_claim\<close> of \<^verbatim>\<open>queue/claim.rs\<close> plans first over the rows in the pod's scope that no other
  transaction has locked, and neither finds a row when the other finds none.\<close>

theorem select_refines_plan:
  assumes "now < 2 ^ 63 - 1"
  shows "map_option qr_run_id (select_production_claim db env_key pkgs environment rel now locked) =
    (case plan_claim (map entry_of (filter (in_scope db env_key pkgs environment locked
         (\<lambda>r. rp_manifest_digest (rr_pins r) = rel)) (db_queue db))) now 1 ttl of
       [] \<Rightarrow> None | c # _ \<Rightarrow> Some (cd_run_id c))"
proof -
  let ?scope = "in_scope db env_key pkgs environment locked (\<lambda>r. rp_manifest_digest (rr_pins r) = rel)"
  let ?rows = "filter (\<lambda>q. claim_eligible now q \<and> ?scope q) (db_queue db)"
  have "filter (\<lambda>e. is_claimable e now) (map entry_of (filter ?scope (db_queue db))) = map entry_of ?rows"
    using entry_of_claimable [OF assms] by (simp add: filter_map comp_def conj_commute)
  moreover have "sort_key claim_key (map entry_of ?rows) = map entry_of (sort_key claim_order ?rows)"
    unfolding sort_key_map by (rule arg_cong [where f = "map entry_of"], rule sort_key_cong_order)
      (auto simp: claim_order_entry [of now])
  ultimately show ?thesis
    by (simp add: select_production_claim_def first_by_order_def plan_claim_def claim_row_def entry_of_def
        split: list.splits)
qed

theorem select_refines_plan_witness:
  "map_option qr_run_id (select_production_claim sample_admitted ''env'' [''pkg''] ''live'' (Some ''d1'') 100 []) =
     Some ''run-1''
   \<and> (case plan_claim (map entry_of (filter (in_scope sample_admitted ''env'' [''pkg''] ''live'' []
         (\<lambda>r. rp_manifest_digest (rr_pins r) = Some ''d1'')) (db_queue sample_admitted))) 100 1 30000 of
       [] \<Rightarrow> None | c # _ \<Rightarrow> Some (cd_run_id c)) = Some ''run-1''"
proof -
  have "map_option qr_run_id (select_production_claim sample_admitted ''env'' [''pkg''] ''live'' (Some ''d1'') 100 []) =
     Some ''run-1''" by (simp add: sample_admitted_eq claim_eval)
  with select_refines_plan [of 100 sample_admitted "''env''" "[''pkg'']" "''live''" "Some ''d1''" "[]" 30000]
  show ?thesis by simp
qed

end
