(* ===== verification/Router_Action.thy ===== *)
theory Router_Action
  imports Router_Driver Run_History
begin

text \<open>
  The boundary between the router and the run store (\<^verbatim>\<open>crates/execution/workflow/src/router_action.rs\<close>):
  what a terminal outcome of a walk makes of the queued run. The log line about a verdict that
  stood after a later failure is left out.
\<close>

datatype router_action =
    CompleteRun production_completion
  | EmitEvent json string string op
  | CancelledRun

datatype router_result_mode = Detached | DurableCaller

fun persisted_router_failure :: "failure_kind \<Rightarrow> fail_type" where
  "persisted_router_failure KRetryExhausted = FRetryExhausted"
| "persisted_router_failure KInvalidInput = FInvalidInput"
| "persisted_router_failure KHopLimit = FRunawayBudget"
| "persisted_router_failure KTerminal = FTerminal"
| "persisted_router_failure KUnreleasedCaller = FTerminal"
| "persisted_router_failure KMissingDedupId = FTerminal"
| "persisted_router_failure KRespondWithoutCaller = FTerminal"
| "persisted_router_failure KSecondVerdict = FTerminal"

fun router_failure_code :: "failure_kind \<Rightarrow> string" where
  "router_failure_code KTerminal = ''terminal''"
| "router_failure_code KRetryExhausted = ''retry-exhausted''"
| "router_failure_code KInvalidInput = ''invalid-input''"
| "router_failure_code KHopLimit = ''hop-limit''"
| "router_failure_code KUnreleasedCaller = ''unreleased-caller''"
| "router_failure_code KMissingDedupId = ''missing-dedup-id''"
| "router_failure_code KRespondWithoutCaller = ''respond-without-caller''"
| "router_failure_code KSecondVerdict = ''second-verdict''"

definition failure_body :: "failure \<Rightarrow> json" where
  "failure_body f =
     (let code = (case ed_code (fl_detail f) of None \<Rightarrow> router_failure_code (fl_kind f) | Some c \<Rightarrow> c);
          error = [(''code'', JString code), (''message'', JString (ed_message (fl_detail f))),
                   (''node'', JString (fl_node f))]
      in JObject [(''error'', JObject (case ed_data (fl_detail f) of
           None \<Rightarrow> error | Some data \<Rightarrow> members_insert ''data'' data error))])"

definition failed_completion :: "router_result_mode \<Rightarrow> failure \<Rightarrow> production_completion" where
  "failed_completion mode f =
     completion_failed (failure_body f) (persisted_router_failure (fl_kind f))
       (if mode = DurableCaller then Some (caller_failed (failure_body f) 500 (Some (fl_node f))) else None)"

definition production_router_action_with_mode ::
    "outcome \<Rightarrow> router_result_mode \<Rightarrow> (claim_error, router_action) result" where
  "production_router_action_with_mode out mode =
     (if oc_status out = Running then Inl (ContractError, ''router-returned-running-outcome'')
      else
        (case oc_verdict out of
           Some (VRespond payload node) \<Rightarrow>
             (case mode of
                DurableCaller \<Rightarrow> Inr (CompleteRun (completion_completed payload (Some (responded payload 200 node))))
              | Detached \<Rightarrow> Inl (ContractError, ''router-response-without-result-owner''))
         | Some (VEmit event dedup_id entity operation _) \<Rightarrow> Inr (EmitEvent event dedup_id entity operation)
         | Some VDiscard \<Rightarrow>
             (if mode \<noteq> DurableCaller then Inr (CompleteRun (completion_completed (oc_result out) None))
              else Inl (ContractError, ''router-discard-with-caller''))
         | None \<Rightarrow>
             (case oc_status out of
                Completed \<Rightarrow> Inl (ContractError, ''router-completed-without-verdict'')
              | Failed \<Rightarrow>
                  (case oc_failure out of
                     None \<Rightarrow> Inl (ContractError, ''router-failed-without-failure'')
                   | Some f \<Rightarrow> Inr (CompleteRun (failed_completion mode f)))
              | WalkCancelled \<Rightarrow> Inr CancelledRun
              | Running \<Rightarrow> Inl (ContractError, ''router-returned-running-outcome''))))"

definition production_router_action ::
    "outcome \<Rightarrow> bool \<Rightarrow> (claim_error, router_action) result" where
  "production_router_action out caller_attached =
     production_router_action_with_mode out (if caller_attached then DurableCaller else Detached)"

section \<open>Lemmas\<close>

lemma action_deliverable:
  assumes "deliverable attached out"
  obtains a where "production_router_action out attached = Inr a"
proof -
  from assms obtain a where "production_router_action out attached = Inr a"
    by (cases "oc_status out"; cases "oc_verdict out"; cases "the (oc_verdict out)")
      (auto simp: deliverable_def production_router_action_def production_router_action_with_mode_def
        split: option.splits)
  with that show thesis by blast
qed

lemma action_complete:
  assumes "production_router_action out attached = Inr (CompleteRun c)"
  shows "pc_status c = RCompleted \<or> pc_status c = RFailed"
    and "attached \<longleftrightarrow> pc_caller c \<noteq> None"
  using assms
  by (auto simp: production_router_action_def production_router_action_with_mode_def failed_completion_def
      completion_completed_def completion_failed_def split: if_splits option.splits verdict.splits walk_status.splits
      router_result_mode.splits)

text \<open>
  A claimed run that is driven was admitted by hand, by a schedule or by an event, so it has no
  caller to answer.
\<close>

lemma driven_claim_detached:
  assumes "decode_selected_claim world_ok r had = Inr sel" and "sc_workflow sel \<noteq> None"
  shows "\<not> sc_router_caller_attached sel \<and> \<not> sc_durable_caller_attached sel"
proof -
  from assms have "rp_trigger_source (rr_pins r) \<in> {Some ''manual'', Some ''schedule'', Some ''event''}"
    by (auto simp: decode_selected_claim_def decode_workflow_def with_causation_def Let_def
        split: option.splits sum.splits prod.splits if_splits)
  moreover from assms(1) have "sc_router_caller_attached sel = router_caller_attached r"
    "sc_durable_caller_attached sel = durable_caller r"
    by (auto simp: decode_selected_claim_def Let_def split: option.splits sum.splits prod.splits if_splits)
  ultimately show ?thesis by (auto simp: router_caller_attached_def durable_caller_def)
qed

end
