(* ===== verification/Queue_Worker.thy ===== *)
theory Queue_Worker
  imports Router_Action
begin

text \<open>
  The queue worker (\<^verbatim>\<open>crates/execution/workflow/src/queue.rs\<close>): one turn reaps, claims, drives the claimed
  run through the router and settles it in the store. Each call to the store comes with a \<open>tick\<close>: what
  the other executors committed before it, the clocks and locks it meets, and whether its reply was
  lost. What the execution returned and whether the event stream acknowledged a publish are the
  environment's.
\<close>

section \<open>Store calls\<close>

datatype fault = NoFault | BeforeCommit claim_error | AfterCommit claim_error

record tick =
  tk_others :: "run_db \<Rightarrow> run_db"
  tk_fault :: fault
  tk_now :: int
  tk_ts :: int
  tk_stamp :: int
  tk_jitter :: rat
  tk_locked :: "string list"

definition store_call ::
    "tick \<Rightarrow> (run_db \<Rightarrow> (claim_error, 'a) result \<times> run_db) \<Rightarrow> run_db \<Rightarrow> (claim_error, 'a) result \<times> run_db" where
  "store_call t f db =
     (case tk_fault t of
        NoFault \<Rightarrow> f (tk_others t db)
      | BeforeCommit e \<Rightarrow> (Inl e, tk_others t db)
      | AfterCommit e \<Rightarrow> (Inl e, snd (f (tk_others t db))))"

record queue_scope =
  qs_env_key :: string
  qs_project :: string
  qs_package_ids :: "string list"
  qs_environment :: string

text \<open>
  A bound service: its scope, the lease time, and the runner and release its session claims carry. The
  digest, the candidate decoder, the grant guard and the role check belong to the database session.
\<close>

record queue_service =
  qv_scope :: queue_scope
  qv_lease_ttl_ms :: int
  qv_runner :: string
  qv_release :: "string option"
  qv_sha :: "json \<Rightarrow> string"
  qv_world_ok :: "json \<Rightarrow> bool"
  qv_guard :: "run_row \<Rightarrow> bool"
  qv_authority :: bool

definition QUEUE_CLAIM_SCOPE :: string where "QUEUE_CLAIM_SCOPE = ''wamn-executor-queue''"

definition PRODUCTION_JANITOR_GRACE_MS :: int where "PRODUCTION_JANITOR_GRACE_MS = 3600000"

section \<open>What the execution returns\<close>

datatype workflow_resolution_error =
    ResolutionNotFound | HashMismatch | NodeNotInRelease | Incompatible | Definition

datatype workflow_error = OperationRefused string | Unresolved workflow_resolution_error | OtherFailure string

datatype caller_lookup = CallerFound | ConnectionUnavailable | LookupFailed

datatype turn_error = StoreFailed claim_error | ExecutionFailed workflow_error | CallerFailed | VersionInvalid

text \<open>What the worker asks the event stream to store; the causation is a run, its root and its depth.\<close>

record derived_publish_request =
  dp_component_id :: string
  dp_package_id :: string
  dp_wiring_id :: string
  dp_wiring_version :: int
  dp_node_id :: string
  dp_entity :: string
  dp_operation :: op
  dp_payload :: json
  dp_dedup_id :: string
  dp_causation :: "string \<times> string \<times> nat"

record turn_env =
  te_reap :: tick
  te_claim :: tick
  te_lookup :: "string \<Rightarrow> string \<Rightarrow> string \<Rightarrow> string \<Rightarrow> caller_lookup"
  te_release :: tick
  te_beats :: "tick list"
  te_delivery :: "(workflow_error, outcome) result"
  te_adjustments :: "deadline_adjustment list"
  te_report :: tick
  te_published :: "derived_publish_request \<Rightarrow> bool"
  te_commit :: tick

fun workflow_resolution_refusal :: "workflow_resolution_error \<Rightarrow> string \<Rightarrow> json \<times> fail_type" where
  "workflow_resolution_refusal e run_id =
     (JObject [(''error'', JObject [(''code'', JString ''workflow_resolution_refused''), (''run-id'', JString run_id)])],
      case e of
        ResolutionNotFound \<Rightarrow> FUnresolvableName
      | HashMismatch \<Rightarrow> FHashInvalidBytes
      | NodeNotInRelease \<Rightarrow> FForeignRevision
      | Incompatible \<Rightarrow> FIncompatibleContract
      | Definition \<Rightarrow> FIncompatibleContract)"

fun workflow_refusal :: "workflow_error \<Rightarrow> string \<Rightarrow> (json \<times> fail_type) option" where
  "workflow_refusal (OperationRefused operation) run_id =
     Some (JObject [(''error'', JObject [(''code'', JString ''permission_denied''), (''operation'', JString operation),
        (''run-id'', JString run_id)])], FTerminal)"
| "workflow_refusal (Unresolved e) run_id = Some (workflow_resolution_refusal e run_id)"
| "workflow_refusal (OtherFailure _) run_id = None"

text \<open>A report keeps the order of the declaration; the column is \<^verbatim>\<open>jsonb\<close>, which reads objects without it.\<close>

definition adjustment_json :: "deadline_adjustment \<Rightarrow> json" where
  "adjustment_json a = JObject [(''node'', JString (da_node a)),
     (''requested-ms'', JNumber (PosInt (da_requested_ms a))),
     (''effective-ms'', JNumber (PosInt (da_effective_ms a)))]"

section \<open>The turn\<close>

definition commit_completion ::
    "queue_service \<Rightarrow> tick \<Rightarrow> string \<Rightarrow> int \<Rightarrow> production_completion \<Rightarrow> run_db \<Rightarrow> (turn_error, unit) result \<times> run_db" where
  "commit_completion s t run_id generation completion db =
     (case store_call t (complete (qv_sha s) (qv_authority s) (qs_env_key (qv_scope s)) run_id (qv_runner s) generation
             completion (tk_stamp t)) db of
        (Inl e, db') \<Rightarrow> (Inl (StoreFailed e), db')
      | (Inr _, db') \<Rightarrow> (Inr (), db'))"

text \<open>The heartbeats of a lease while its run executes: whether the lease was still held at the end.\<close>

fun heartbeats :: "queue_service \<Rightarrow> string \<Rightarrow> int \<Rightarrow> tick list \<Rightarrow> run_db \<Rightarrow> (turn_error, bool) result \<times> run_db" where
  "heartbeats s run_id generation [] db = (Inr True, db)"
| "heartbeats s run_id generation (t # ts) db =
     (case store_call t (renew (qv_authority s) (qs_env_key (qv_scope s)) (qv_runner s) run_id generation
             (qv_lease_ttl_ms s) (tk_ts t)) db of
        (Inl e, db') \<Rightarrow> (Inl (StoreFailed e), db')
      | (Inr Renewed, db') \<Rightarrow> heartbeats s run_id generation ts db'
      | (Inr RenewalFenceLost, db') \<Rightarrow> (Inr False, db'))"

definition record_adjustments ::
    "queue_service \<Rightarrow> turn_env \<Rightarrow> string \<Rightarrow> int \<Rightarrow> run_db \<Rightarrow> (turn_error, bool) result \<times> run_db" where
  "record_adjustments s env run_id generation db =
     (if te_adjustments env = [] then (Inr True, db)
      else
        (case store_call (te_report env) (deadline_report (qv_authority s) (qs_env_key (qv_scope s)) run_id (qv_runner s)
                generation (JArray (map adjustment_json (te_adjustments env)))) db of
           (Inl e, db') \<Rightarrow> (Inl (StoreFailed e), db')
         | (Inr held, db') \<Rightarrow> (Inr held, db')))"

definition publish_request ::
    "selected_claim \<Rightarrow> production_workflow \<Rightarrow> outcome \<Rightarrow> json \<Rightarrow> string \<Rightarrow> string \<Rightarrow> op \<Rightarrow> derived_publish_request" where
  "publish_request sel workflow out event dedup_id entity operation =
     \<lparr>dp_component_id = QUEUE_CLAIM_SCOPE, dp_package_id = sc_package_id sel, dp_wiring_id = sc_wiring_id sel,
      dp_wiring_version = sc_wiring_version sel,
      dp_node_id = (case oc_verdict out of Some (VEmit _ _ _ _ node) \<Rightarrow> node | _ \<Rightarrow> ''''),
      dp_entity = entity, dp_operation = operation, dp_payload = event, dp_dedup_id = dedup_id,
      dp_causation = (case pw_causation workflow of
         Some c \<Rightarrow> c | None \<Rightarrow> (sc_run_id sel, sc_run_id sel, 0))\<rparr>"

definition settle_delivery ::
    "queue_service \<Rightarrow> turn_env \<Rightarrow> selected_claim \<Rightarrow> production_workflow \<Rightarrow> int \<Rightarrow> run_db
       \<Rightarrow> (turn_error, unit) result \<times> run_db" where
  "settle_delivery s env sel workflow generation db =
     (case te_delivery env of
        Inl err \<Rightarrow>
          (case workflow_refusal err (sc_run_id sel) of
             Some (result, kind) \<Rightarrow>
               commit_completion s (te_commit env) (sc_run_id sel) generation (completion_failed result kind None) db
           | None \<Rightarrow> (Inl (ExecutionFailed err), db))
      | Inr out \<Rightarrow>
          (case production_router_action out (sc_durable_caller_attached sel) of
             Inl e \<Rightarrow> (Inl (StoreFailed e), db)
           | Inr (CompleteRun completion) \<Rightarrow>
               commit_completion s (te_commit env) (sc_run_id sel) generation completion db
           | Inr (EmitEvent event dedup_id entity operation) \<Rightarrow>
               (if te_published env (publish_request sel workflow out event dedup_id entity operation)
                then commit_completion s (te_commit env) (sc_run_id sel) generation
                       (completion_completed event None) db
                else (Inr (), db))
           | Inr CancelledRun \<Rightarrow> (Inr (), db)))"

definition drive_claim ::
    "queue_service \<Rightarrow> turn_env \<Rightarrow> selected_claim \<Rightarrow> production_workflow \<Rightarrow> int \<Rightarrow> run_db
       \<Rightarrow> (turn_error, unit) result \<times> run_db" where
  "drive_claim s env sel workflow generation db =
     (case heartbeats s (sc_run_id sel) generation (te_beats env) db of
        (Inl e, db1) \<Rightarrow> (Inl e, db1)
      | (Inr False, db1) \<Rightarrow> (Inr (), db1)
      | (Inr True, db1) \<Rightarrow>
          (case record_adjustments s env (sc_run_id sel) generation db1 of
             (Inl e, db2) \<Rightarrow> (Inl e, db2)
           | (Inr False, db2) \<Rightarrow> (Inr (), db2)
           | (Inr True, db2) \<Rightarrow>
               settle_delivery s env sel workflow generation db2))"

definition drive_ready ::
    "queue_service \<Rightarrow> turn_env \<Rightarrow> selected_claim \<Rightarrow> int \<Rightarrow> run_db \<Rightarrow> (turn_error, bool) result \<times> run_db" where
  "drive_ready s env sel generation db =
     (if sc_wiring_version sel < 0 \<or> 2 ^ 32 \<le> sc_wiring_version sel then (Inl VersionInvalid, db)
      else
        (case sc_workflow sel of
           None \<Rightarrow>
             (case workflow_resolution_refusal ResolutionNotFound (sc_run_id sel) of (result, kind) \<Rightarrow>
              case commit_completion s (te_commit env) (sc_run_id sel) generation
                  (completion_failed result kind None) db of
                (Inl e, db') \<Rightarrow> (Inl e, db')
              | (Inr _, db') \<Rightarrow> (Inr True, db'))
         | Some workflow \<Rightarrow>
             (case te_lookup env (qs_project (qv_scope s)) (qs_env_key (qv_scope s))
                 (pw_execution_principal workflow) (pw_execution_role workflow) of
                LookupFailed \<Rightarrow> (Inl CallerFailed, db)
              | ConnectionUnavailable \<Rightarrow>
                  (case store_call (te_release env) (release_claim (qv_sha s) (qv_authority s) (qs_env_key (qv_scope s))
                      (sc_run_id sel) (qv_runner s) generation (tk_ts (te_release env)) (tk_jitter (te_release env))
                      (tk_stamp (te_release env))) db of
                     (Inl e, db') \<Rightarrow> (Inl (StoreFailed e), db')
                   | (Inr _, db') \<Rightarrow> (Inr True, db'))
              | CallerFound \<Rightarrow>
                  (case drive_claim s env sel workflow generation db of
                     (Inl e, db') \<Rightarrow> (Inl e, db')
                   | (Inr _, db') \<Rightarrow> (Inr True, db')))))"

definition drain_one :: "queue_service \<Rightarrow> turn_env \<Rightarrow> run_db \<Rightarrow> (turn_error, bool) result \<times> run_db" where
  "drain_one s env db =
     (case store_call (te_reap env) (reap_exhausted (qv_sha s) (qv_authority s) (qs_env_key (qv_scope s)) (qs_package_ids (qv_scope s))
             (qs_environment (qv_scope s)) PRODUCTION_JANITOR_GRACE_MS (tk_now (te_reap env)) (tk_locked (te_reap env))
             (tk_stamp (te_reap env))) db of
        (Inl e, db1) \<Rightarrow> (Inl (StoreFailed e), db1)
      | (Inr _, db1) \<Rightarrow>
          (case store_call (te_claim env) (claim_next (qv_world_ok s) (qv_guard s) (qv_authority s) (qs_env_key (qv_scope s))
                  (qv_runner s) (qs_package_ids (qv_scope s)) (qs_environment (qv_scope s)) (qv_lease_ttl_ms s) (qv_release s)
                  (tk_now (te_claim env)) (tk_ts (te_claim env)) (tk_locked (te_claim env))) db1 of
             (Inl e, db2) \<Rightarrow> (Inl (StoreFailed e), db2)
           | (Inr Empty, db2) \<Rightarrow> (Inr False, db2)
           | (Inr (ReadyRun sel generation), db2) \<Rightarrow> drive_ready s env sel generation db2))"

section \<open>What the store's transactions keep, a turn keeps\<close>

text \<open>What the other executors committed around a call, or around a turn, keeps \<open>I\<close>.\<close>

definition quiet :: "(run_db \<Rightarrow> bool) \<Rightarrow> tick \<Rightarrow> bool" where
  "quiet I t \<longleftrightarrow> (\<forall>db. I db \<longrightarrow> I (tk_others t db))"

definition quiet_env :: "(run_db \<Rightarrow> bool) \<Rightarrow> turn_env \<Rightarrow> bool" where
  "quiet_env I env \<longleftrightarrow>
     list_all (quiet I) (te_beats env @ [te_reap env, te_claim env, te_release env, te_report env, te_commit env])"

text \<open>
  The contract between the store and its worker: an invariant that each transaction the worker calls
  keeps.
\<close>

locale store_invariant =
  fixes I :: "run_db \<Rightarrow> bool"
  assumes keeps_claim: "I db \<Longrightarrow>
      I (snd (claim_next world_ok guard auth env_key runner pkgs environment ttl rel now ts locked db))"
    and keeps_renew: "I db \<Longrightarrow> I (snd (renew auth env_key runner run_id generation ttl ts db))"
    and keeps_complete: "I db \<Longrightarrow> pc_status completion = RCompleted \<or> pc_status completion = RFailed \<Longrightarrow>
      I (snd (complete sha auth env_key run_id runner generation completion stamp db))"
    and keeps_report: "I db \<Longrightarrow> I (snd (deadline_report auth env_key run_id runner generation j db))"
    and keeps_reap: "I db \<Longrightarrow>
      I (snd (reap_exhausted sha auth env_key pkgs environment grace now locked stamp db))"
    and keeps_release: "I db \<Longrightarrow>
      I (snd (release_claim sha auth env_key run_id runner generation ts jitter stamp db))"
begin

lemma call_keeps:
  assumes "quiet I t" and "I db" and "\<And>db. I db \<Longrightarrow> I (snd (f db))"
  shows "I (snd (store_call t f db))"
  using assms by (simp add: store_call_def quiet_def split: fault.split)

lemma commit_keeps:
  assumes "quiet I t" and "I db" and "pc_status completion = RCompleted \<or> pc_status completion = RFailed"
  shows "I (snd (commit_completion s t run_id generation completion db))"
  using call_keeps [OF assms(1,2) keeps_complete [OF _ assms(3)]]
  by (auto simp: commit_completion_def case_prod_beta split: sum.split)

lemma heartbeats_keep: "list_all (quiet I) ts \<Longrightarrow> I db \<Longrightarrow> I (snd (heartbeats s run_id generation ts db))"
proof (induction ts arbitrary: db)
  case (Cons t ts)
  let ?c = "store_call t (renew (qv_authority s) (qs_env_key (qv_scope s)) (qv_runner s) run_id generation
             (qv_lease_ttl_ms s) (tk_ts t)) db"
  have "I (snd ?c)" using Cons.prems by (intro call_keeps keeps_renew) simp_all
  with Cons show ?case
    by (auto simp: case_prod_beta split: sum.split production_lease_renewal.split)
qed simp

lemma record_keeps: "quiet I (te_report env) \<Longrightarrow> I db \<Longrightarrow> I (snd (record_adjustments s env run_id generation db))"
  using call_keeps [OF _ _ keeps_report]
  by (auto simp: record_adjustments_def case_prod_beta split: sum.split)

lemma settle_keeps:
  assumes "quiet I (te_commit env)" and "I db"
  shows "I (snd (settle_delivery s env sel workflow generation db))"
proof -
  note commit = commit_keeps [OF assms]
  show ?thesis
    using assms(2) action_complete(1)
    by (auto simp: settle_delivery_def completion_failed_def completion_completed_def
        split: sum.split option.split router_action.split intro!: commit)
qed

lemma drive_keeps:
  assumes "list_all (quiet I) (te_beats env)" and "quiet I (te_report env)" and "quiet I (te_commit env)" and "I db"
  shows "I (snd (drive_claim s env sel workflow generation db))"
  using heartbeats_keep [OF assms(1,4)] record_keeps [OF assms(2)] settle_keeps [OF assms(3)]
  by (auto simp: drive_claim_def case_prod_beta split: sum.split bool.split)

lemma ready_keeps:
  assumes "quiet_env I env" and "I db"
  shows "I (snd (drive_ready s env sel generation db))"
proof -
  have q: "list_all (quiet I) (te_beats env)" "quiet I (te_report env)" "quiet I (te_commit env)" "quiet I (te_release env)"
    using assms(1) by (simp_all add: quiet_env_def)
  show ?thesis
    using drive_keeps [OF q(1-3) assms(2)] call_keeps [OF q(4) assms(2) keeps_release]
      commit_keeps [OF q(3) assms(2), of "completion_failed _ _ _"] assms(2)
    by (simp add: drive_ready_def completion_failed_def case_prod_beta split: sum.split option.split caller_lookup.split)
qed

lemma turn_keeps:
  assumes "quiet_env I env" and "I db"
  shows "I (snd (drain_one s env db))"
proof -
  have q: "quiet I (te_reap env)" "quiet I (te_claim env)" using assms(1) by (simp_all add: quiet_env_def)
  show ?thesis
    using call_keeps [OF q(1) assms(2) keeps_reap] call_keeps [OF q(2) _ keeps_claim] ready_keeps [OF assms(1)]
    by (simp add: drain_one_def case_prod_beta split: sum.split production_claim_result.split)
qed

end

text \<open>The states a history reaches from a given one are such an invariant.\<close>

definition follows :: "store \<Rightarrow> run_db \<Rightarrow> bool" where
  "follows x db \<longleftrightarrow> (\<exists>used. transacts\<^sup>*\<^sup>* x (db, used))"

lemma follows_step: "(\<And>used. transacts (db, used) (db', used)) \<Longrightarrow> follows x db \<Longrightarrow> follows x db'"
  unfolding follows_def by (meson rtranclp.rtrancl_into_rtrancl)

interpretation fw: store_invariant "follows x" for x
  by unfold_locales (blast intro: follows_step transacts.intros)+

section \<open>A driven run settles\<close>

text \<open>
  The lease of a run while it is driven: the run was created at \<open>born\<close>, owes no caller an answer, is
  running, and is queued under the worker's fence.
\<close>

definition held :: "queue_service \<Rightarrow> string \<Rightarrow> int \<Rightarrow> int \<Rightarrow> run_db \<Rightarrow> bool" where
  "held s run_id generation born db \<longleftrightarrow>
     (\<exists>r q. find_run db (qs_env_key (qv_scope s), run_id) = Some r \<and> rr_status r = RRunning \<and> runs_check r
        \<and> \<not> durable_caller r \<and> rp_created_at (rr_pins r) = born
        \<and> find_queue db (qs_env_key (qv_scope s), run_id) = Some q \<and> fenced (qv_runner s) generation q)"

definition undisturbed :: "tick \<Rightarrow> bool" where
  "undisturbed t \<longleftrightarrow> tk_others t = id \<and> tk_fault t = NoFault"

lemma undisturbed_call [simp]: "undisturbed t \<Longrightarrow> store_call t f db = f db"
  by (simp add: undisturbed_def store_call_def)

lemma held_ready:
  "held s run_id generation born db \<Longrightarrow>
     fence_code db (qs_env_key (qv_scope s)) run_id run_id (qv_runner s) generation = ''ready''"
  by (auto simp: held_def fence_code_def fenced_def)

lemma held_renew:
  assumes "held s run_id generation born db"
  shows "held s run_id generation born (snd (renew auth (qs_env_key (qv_scope s)) (qv_runner s) run_id generation ttl ts db))"
  using assms
  by (auto simp: held_def renew_def renew_in_transaction_def finish_def require_executor_authority_def
      renew_production_lease_def table_simps fenced_def split: option.split)

lemma held_heartbeats:
  "list_all undisturbed ts \<Longrightarrow> held s run_id generation born db \<Longrightarrow>
     held s run_id generation born (snd (heartbeats s run_id generation ts db))"
proof (induction ts arbitrary: db)
  case (Cons t ts)
  note held = held_renew [OF Cons.prems(2), of "qv_authority s" "qv_lease_ttl_ms s" "tk_ts t"]
  from Cons.prems(1) Cons.IH [OF _ held] held show ?case
    by (auto simp: case_prod_beta split: sum.split production_lease_renewal.split)
qed simp

lemma held_report:
  assumes "held s run_id generation born db" and "0 < generation"
  shows "\<exists>db'. deadline_report True (qs_env_key (qv_scope s)) run_id (qv_runner s) generation j db = (Inr True, db')
    \<and> held s run_id generation born db'"
  using assms held_ready [OF assms(1)]
  by (auto simp: deadline_report_def finish_def require_executor_authority_def record_deadline_adjustments_def
      held_def table_simps durable_caller_def)

text \<open>Where a settled run ends: out of the queue, with the status, result and failure of its completion.\<close>

definition run_settled :: "queue_service \<Rightarrow> string \<Rightarrow> production_completion \<Rightarrow> run_db \<Rightarrow> bool" where
  "run_settled s run_id c db \<longleftrightarrow>
     find_queue db (qs_env_key (qv_scope s), run_id) = None
     \<and> (case find_run db (qs_env_key (qv_scope s), run_id) of
          None \<Rightarrow> False
        | Some r \<Rightarrow> rr_status r = pc_status c \<and> rr_result r = Some (pc_result c) \<and> rr_fail_type r = pc_fail_type c)"

lemma held_complete:
  assumes "held s run_id generation born db" and "0 < generation" and "pc_caller c = None" and "born \<le> stamp"
  shows "\<exists>db'. complete sha True (qs_env_key (qv_scope s)) run_id (qv_runner s) generation c stamp db
      = (Inr CompletionTerminalized, db') \<and> run_settled s run_id c db'"
proof -
  from assms(1) obtain r where r: "find_run db (qs_env_key (qv_scope s), run_id) = Some r" "runs_check r"
    "\<not> durable_caller r" "rp_created_at (rr_pins r) = born"
    by (auto simp: held_def)
  then have check: "runs_check (r\<lparr>rr_status := pc_status c, rr_terminal_reason := Some (pc_terminal_reason c),
      rr_result := Some (pc_result c), rr_fail_type := pc_fail_type c, rr_updated_at := stamp\<rparr>)"
    using assms(4) by (simp add: runs_check_def)
  show ?thesis
    using r check assms(2,3) held_ready [OF assms(1)]
    by (auto simp: complete_def complete_in_transaction_def finish_def require_executor_authority_def
        terminalize_completion_def terminalize_def fenced_run_def checked_update_def decode_terminalization_def
        terminalize_from_parts_def run_settled_def table_simps Let_def)
qed

lemma held_commit:
  assumes "held s run_id generation born db" and "0 < generation" and "pc_caller c = None" and "born \<le> tk_stamp t"
    and "undisturbed t" and "qv_authority s"
  shows "\<exists>db'. commit_completion s t run_id generation c db = (Inr (), db') \<and> run_settled s run_id c db'"
  using held_complete [OF assms(1-4), of "qv_sha s"] assms(5,6) by (auto simp: commit_completion_def)

lemma claim_decodes:
  assumes "claim_in_transaction world_ok guard auth env_key runner pkgs environment ttl rel now ts locked db
      = Inr (Claimed (ReadyRun sel g), db')"
    and "select_production_claim db env_key pkgs environment rel now locked = Some q"
    and "find_run db (queue_key q) = Some r"
  shows "decode_selected_claim world_ok r (qr_lease_expires_at q \<noteq> None) = Inr sel"
  using assms
  by (auto simp: claim_in_transaction_def require_executor_authority_def Let_def classify_production_claim_def
      decode_selected_had decode_selected_status split: if_splits sum.splits option.splits)

lemma decode_version: "decode_selected_claim world_ok r had = Inr sel \<Longrightarrow> 0 < sc_wiring_version sel"
  by (auto simp: decode_selected_claim_def decode_wiring_identity_def Let_def
      split: option.splits sum.splits prod.splits if_splits)

text \<open>A granted workflow run is held, with no caller to answer.\<close>

lemma claimed_held:
  assumes "reached db used"
    and "claim_next (qv_world_ok s) guard auth (qs_env_key (qv_scope s)) (qv_runner s) pkgs environment ttl rel now ts locked db
      = (Inr (ReadyRun sel g), db1)"
    and "sc_workflow sel \<noteq> None"
  obtains r where "find_run db (qs_env_key (qv_scope s), sc_run_id sel) = Some r"
    "held s (sc_run_id sel) g (rp_created_at (rr_pins r)) db1" "0 < g" "0 < sc_wiring_version sel"
    "\<not> sc_router_caller_attached sel" "\<not> sc_durable_caller_attached sel"
proof -
  let ?k = "(qs_env_key (qv_scope s), sc_run_id sel)"
  have ok: "store_ok db" by (rule reached_ok [OF assms(1)])
  then have pk: "pk_ok db" by (simp add: store_ok_def)
  from assms(2) have txn: "claim_in_transaction (qv_world_ok s) guard auth (qs_env_key (qv_scope s)) (qv_runner s)
      pkgs environment ttl rel now ts locked db = Inr (Claimed (ReadyRun sel g), db1)"
    by (rule claim_next_ready)
  from txn obtain q r where q: "select_production_claim db (qs_env_key (qv_scope s)) pkgs environment rel now locked = Some q"
    "find_run db (queue_key q) = Some r" "sc_run_id sel = rr_run_id r" "g = qr_lease_generation q + 1"
    "granted db (qv_runner s) ttl ts q r db1"
    by (rule claim_in_transaction_ready [OF pk])
  have dec: "decode_selected_claim (qv_world_ok s) r (qr_lease_expires_at q \<noteq> None) = Inr sel"
    by (rule claim_decodes [OF txn q(1,2)])
  have "qr_env_key q = qs_env_key (qv_scope s)"
    using first_by_order_member [OF q(1) [unfolded select_production_claim_def]] by (simp add: in_scope_def)
  with find_key(1) [OF q(2)] q(3) have k: "queue_key q = ?k" by (simp add: queue_key_def run_key_def)
  have lf: "life_ok (Some r, Some q)"
    using store_okD [OF ok, of ?k] select_production_claim_found(1) [OF pk q(1)] q(2) k by (simp add: life_def)
  note det = driven_claim_detached [OF dec assms(3)]
  have "sc_durable_caller_attached sel = durable_caller r"
    using dec by (auto simp: decode_selected_claim_def Let_def split: option.splits sum.splits prod.splits if_splits)
  with det have nd: "\<not> durable_caller r" by simp
  have "held s (sc_run_id sel) g (rp_created_at (rr_pins r)) db1"
    using q(4,5) k lf nd by (auto simp: held_def granted_def fenced_def lease_row_def counted_def durable_caller_def)
  with that q(2) k det decode_version [OF dec] lf q(4) show thesis by simp
qed

lemma claim_authority:
  "claim_next world_ok guard auth env_key runner pkgs environment ttl rel now ts locked db
     = (Inr (ReadyRun sel g), db1) \<Longrightarrow> auth"
  by (elim claim_next_ready) (auto simp: claim_in_transaction_def require_executor_authority_def split: if_splits)

text \<open>Where an action leaves the run it was taken for.\<close>

definition action_done ::
    "queue_service \<Rightarrow> turn_env \<Rightarrow> selected_claim \<Rightarrow> production_workflow \<Rightarrow> outcome \<Rightarrow> int \<Rightarrow> int \<Rightarrow> run_db \<Rightarrow> bool" where
  "action_done s env sel workflow out generation born db =
     (case production_router_action out (sc_durable_caller_attached sel) of
        Inl _ \<Rightarrow> False
      | Inr (CompleteRun c) \<Rightarrow> run_settled s (sc_run_id sel) c db
      | Inr (EmitEvent event dedup_id entity operation) \<Rightarrow>
          (if te_published env (publish_request sel workflow out event dedup_id entity operation)
           then run_settled s (sc_run_id sel) (completion_completed event None) db
           else held s (sc_run_id sel) generation born db)
      | Inr CancelledRun \<Rightarrow> held s (sc_run_id sel) generation born db)"

lemma settle_held:
  assumes "held s (sc_run_id sel) generation born db" and "0 < generation" and "qv_authority s"
    and "undisturbed (te_commit env)" and "born \<le> tk_stamp (te_commit env)" and "te_delivery env = Inr out"
    and "\<not> sc_durable_caller_attached sel" and "deliverable False out"
  shows "\<exists>db'. settle_delivery s env sel workflow generation db = (Inr (), db')
    \<and> action_done s env sel workflow out generation born db'"
proof -
  note commit = held_commit [OF assms(1,2) _ assms(5,4,3)]
  from assms(8) obtain a where a: "production_router_action out False = Inr a" by (rule action_deliverable)
  show ?thesis
  proof (cases a)
    case (CompleteRun c)
    with a have "pc_caller c = None" using action_complete(2) [of out False c] by simp
    with commit [of c] CompleteRun a assms(6,7) show ?thesis by (simp add: settle_delivery_def action_done_def)
  next
    case (EmitEvent event dedup_id entity operation)
    with commit [of "completion_completed event None"] a assms(1,6,7) show ?thesis
      by (simp add: settle_delivery_def action_done_def completion_completed_def)
  next
    case CancelledRun
    with a assms(1,6,7) show ?thesis by (simp add: settle_delivery_def action_done_def)
  qed
qed

lemma drive_held:
  assumes "held s (sc_run_id sel) generation born db" and "0 < generation" and "qv_authority s"
    and "list_all undisturbed (te_beats env @ [te_report env, te_commit env])"
    and "fst (heartbeats s (sc_run_id sel) generation (te_beats env) db) = Inr True"
    and "born \<le> tk_stamp (te_commit env)" and "te_delivery env = Inr out"
    and "\<not> sc_durable_caller_attached sel" and "deliverable False out"
  shows "\<exists>db'. drive_claim s env sel workflow generation db = (Inr (), db')
    \<and> action_done s env sel workflow out generation born db'"
proof -
  obtain db1 where beats: "heartbeats s (sc_run_id sel) generation (te_beats env) db = (Inr True, db1)"
    using assms(5) by (metis prod.collapse)
  have h1: "held s (sc_run_id sel) generation born db1"
    using held_heartbeats [OF _ assms(1), of "te_beats env"] assms(4) beats by simp
  have "\<exists>db2. record_adjustments s env (sc_run_id sel) generation db1 = (Inr True, db2)
      \<and> held s (sc_run_id sel) generation born db2"
    using held_report [OF h1 assms(2), of "JArray (map adjustment_json (te_adjustments env))"] h1 assms(3,4)
    by (auto simp: record_adjustments_def)
  then obtain db2 where rec: "record_adjustments s env (sc_run_id sel) generation db1 = (Inr True, db2)"
    and h2: "held s (sc_run_id sel) generation born db2" by blast
  show ?thesis
    using settle_held [OF h2 assms(2,3) _ assms(6-9)] assms(4) beats rec by (simp add: drive_claim_def)
qed


text \<open>
  C4. A driven run settles. A workflow run that the worker claimed and drove to the end of its walk,
  its lease kept, always has an action: a completion leaves it terminal and out of the queue with
  that completion's status, result and failure; an event that the stream acknowledged completes it
  with the event; an event that was not acknowledged and a cancelled walk leave it leased, to be
  delivered again. The turn reports progress.
\<close>

theorem driven_run_settles:
  assumes "reached db used"
    and "claim_next (qv_world_ok s) (qv_guard s) (qv_authority s) (qs_env_key (qv_scope s)) (qv_runner s)
      (qs_package_ids (qv_scope s)) (qs_environment (qv_scope s)) (qv_lease_ttl_ms s) (qv_release s) now ts locked db
      = (Inr (ReadyRun sel g), db1)"
    and "sc_workflow sel = Some workflow" and "sc_wiring_version sel < 2 ^ 32"
    and "find_run db (qs_env_key (qv_scope s), sc_run_id sel) = Some r"
    and "rp_created_at (rr_pins r) \<le> tk_stamp (te_commit env)"
    and "te_lookup env (qs_project (qv_scope s)) (qs_env_key (qv_scope s)) (pw_execution_principal workflow)
      (pw_execution_role workflow) = CallerFound"
    and "list_all undisturbed (te_beats env @ [te_report env, te_commit env])"
    and "fst (heartbeats s (sc_run_id sel) g (te_beats env) db1) = Inr True"
    and "compile entry nodes edges = Inr w0" and "sleeps_out h"
    and "execute_resolved h q (set_hop_limit w0 limit) d i = Some (Delivered v)"
    and "dl_caller_attached d = sc_router_caller_attached sel"
    and "dv_outcome v = Inr out" and "te_delivery env = Inr out"
  shows "\<exists>db2. drive_ready s env sel g db1 = (Inr True, db2)
    \<and> action_done s env sel workflow out g (rp_created_at (rr_pins r)) db2"
proof -
  have "sc_workflow sel \<noteq> None" using assms(3) by simp
  from claimed_held [OF assms(1,2) this] assms(5)
  have c: "held s (sc_run_id sel) g (rp_created_at (rr_pins r)) db1" "0 < g" "0 < sc_wiring_version sel"
    "\<not> sc_router_caller_attached sel" "\<not> sc_durable_caller_attached sel" by auto
  have del: "deliverable False out"
    using resolved_deliverable [OF assms(10-12,14)] assms(13) c(4) by simp
  from drive_held [OF c(1,2) claim_authority [OF assms(2)] assms(8,9,6,15) c(5) del, of workflow] c(3) assms(3,4,7)
  show ?thesis by (auto simp: drive_ready_def)
qed

section \<open>A sample turn\<close>

definition calm :: tick where
  "calm = \<lparr>tk_others = id, tk_fault = NoFault, tk_now = 100, tk_ts = 100, tk_stamp = 200, tk_jitter = 0, tk_locked = []\<rparr>"

definition sample_service :: queue_service where
  "sample_service = \<lparr>qv_scope = \<lparr>qs_env_key = ''env'', qs_project = ''proj'', qs_package_ids = [''pkg''],
     qs_environment = ''live''\<rparr>, qv_lease_ttl_ms = 30000, qv_runner = ''pod-a'', qv_release = Some ''d1'',
     qv_sha = (\<lambda>_. ''sha''), qv_world_ok = (\<lambda>_. True), qv_guard = (\<lambda>_. False), qv_authority = True\<rparr>"

definition failing_host :: "(u64, unit) driver_host" where
  "failing_host = busy_host\<lparr>dh_invoke := (\<lambda>i c _ _. (Inr (Inl (GTerminal \<lparr>gd_message = ''no'', gd_code = None\<rparr>)), i))\<rparr>"

abbreviation sample_run :: "unit driver_run" where
  "sample_run \<equiv> \<lparr>dr_facts = (\<lambda>_. Some (\<lambda>_. Some None)), dr_workflow = True, dr_caller = None\<rparr>"

definition failing_end :: "u64 driver_end option" where
  "failing_end = execute_resolved failing_host sample_run loop_wiring sample_delivery 0"

lemma failing_sleeps_out: "sleeps_out failing_host"
  using busy_sleeps_out by (simp add: sleeps_out_def failing_host_def)

lemma failing_end_outcome:
  "\<exists>v out. failing_end = Some (Delivered v) \<and> dv_outcome v = Inr out \<and> dv_adjustments v = [] \<and> oc_verdict out = None
     \<and> oc_status out = Failed"
  apply (simp add: failing_end_def execute_resolved_def)
  apply (subst execute_loop.simps)
  apply (simp add: run_simps failing_host_def busy_host_def invoke_call_def node_caller_def
      authorize_registered_operation_def lower_detail_def adjust_deadline_def)
  apply (subst execute_loop.simps)
  apply (simp add: run_simps outcome_of_def)
  done

definition failing_env :: turn_env where
  "failing_env = \<lparr>te_reap = calm, te_claim = calm, te_lookup = (\<lambda>_ _ _ _. CallerFound), te_release = calm, te_beats = [calm],
     te_delivery = (case failing_end of Some (Delivered v) \<Rightarrow>
       (case dv_outcome v of Inr out \<Rightarrow> Inr out | Inl _ \<Rightarrow> Inl (OtherFailure '''')) | _ \<Rightarrow> Inl (OtherFailure '''')),
     te_adjustments = [], te_report = calm, te_published = (\<lambda>_. False), te_commit = calm\<rparr>"


lemma sample_ready:
  obtains sel workflow where "sample_claim ''pod-a'' 100 sample_admitted = (Inr (ReadyRun sel 1), sample_claimed)"
    "sc_workflow sel = Some workflow" "sc_wiring_version sel = 3" "sc_run_id sel = ''run-1''"
    "\<not> sc_router_caller_attached sel" "\<not> sc_durable_caller_attached sel"
proof -
  have "\<exists>sel workflow. fst (sample_claim ''pod-a'' 100 sample_admitted) = Inr (ReadyRun sel 1)
      \<and> sc_workflow sel = Some workflow \<and> sc_wiring_version sel = 3 \<and> sc_run_id sel = ''run-1''
      \<and> \<not> sc_router_caller_attached sel \<and> \<not> sc_durable_caller_attached sel"
    by (simp add: sample_admitted_eq claim_eval)
  with that show thesis unfolding sample_claimed_def by (metis prod.collapse)
qed

lemma sample_renews: "fst (heartbeats sample_service ''run-1'' 1 [calm] sample_claimed) = Inr True"
  by (simp add: sample_claimed_eq sample_service_def store_call_def calm_def renew_def renew_in_transaction_def
      finish_def require_executor_authority_def renew_production_lease_def holds_live_def find_queue_def queue_key_def
      lease_row_def fresh_queue_row_def)

theorem driven_run_settles_witness:
  "\<exists>sel db2 r. drive_ready sample_service failing_env sel 1 sample_claimed = (Inr True, db2)
     \<and> find_queue db2 (''env'', ''run-1'') = None \<and> find_run db2 (''env'', ''run-1'') = Some r \<and> rr_status r = RFailed"
proof -
  obtain sel workflow where c: "sample_claim ''pod-a'' 100 sample_admitted = (Inr (ReadyRun sel 1), sample_claimed)"
    "sc_workflow sel = Some workflow" "sc_wiring_version sel = 3" "sc_run_id sel = ''run-1''"
    "\<not> sc_router_caller_attached sel" "\<not> sc_durable_caller_attached sel"
    by (rule sample_ready)
  obtain v out where v: "failing_end = Some (Delivered v)" "dv_outcome v = Inr out" "oc_verdict out = None"
    "oc_status out = Failed"
    using failing_end_outcome by blast
  have run: "execute_resolved failing_host sample_run (set_hop_limit (projr (compile ''a'' loop_nodes loop_edges)) 5)
      sample_delivery 0 = Some (Delivered v)"
    using v(1) by (simp add: failing_end_def loop_wiring_def)
  have delivery: "te_delivery failing_env = Inr out" by (simp add: failing_env_def v(1,2))
  have row: "find_run sample_admitted (''env'', ''run-1'') = Some (admitted_row ''env'' ''run-1'' sample_pins)"
    by (simp add: sample_admitted_eq find_run_def run_key_def admitted_row_def)
  have "\<exists>db2. drive_ready sample_service failing_env sel 1 sample_claimed = (Inr True, db2)
      \<and> action_done sample_service failing_env sel workflow out 1
          (rp_created_at (rr_pins (admitted_row ''env'' ''run-1'' sample_pins))) db2"
    by (rule driven_run_settles [OF reached_admitted _ c(2) _ _ _ _ _ _ loop_compiles failing_sleeps_out run _ v(2) delivery,
          where now = 100 and ts = 100 and locked = "[]"])
      (use c row sample_renews in \<open>simp_all add: sample_service_def failing_env_def calm_def undisturbed_def
        sample_delivery_def admitted_row_def sample_pins_def manual_pins_def pins_of_def workflow_pins_def\<close>)
  then show ?thesis
    using v(3,4) c(4,6)
    by (auto simp: action_done_def production_router_action_def production_router_action_with_mode_def run_settled_def
        failed_completion_def completion_failed_def sample_service_def split: option.splits)
qed

end
