(* ===== verification/Redaction.thy ===== *)
theory Redaction
  imports Json
begin

text \<open>
  The payload redaction policy (\<^verbatim>\<open>crates/execution/run-state/src/redaction.rs\<close>): the secret key
  fragments, the secret value prefixes and the tree walk that applies them. \<open>scrub\<close> mutates its
  argument in place and returns whether it replaced anything; here it returns both.
\<close>

section \<open>The vocabularies\<close>

definition SECRET_KEY_FRAGMENTS :: "string list" where
  "SECRET_KEY_FRAGMENTS = [''password'', ''passwd'', ''secret'', ''token'', ''api_key'', ''apikey'',
     ''authorization'', ''private_key'', ''credential'']"

definition SECRET_VALUE_PREFIXES :: "string list" where
  "SECRET_VALUE_PREFIXES = [''Bearer '', ''-----BEGIN'', ''AKIA'']"

definition REDACTED :: string where
  "REDACTED = ''[redacted]''"

definition ascii_lower :: "char \<Rightarrow> char" where
  "ascii_lower c = (if 65 \<le> (of_char c :: nat) \<and> (of_char c :: nat) \<le> 90 then char_of (of_char c + 32 :: nat) else c)"

definition eq_ignore_ascii_case :: "string \<Rightarrow> string \<Rightarrow> bool" where
  "eq_ignore_ascii_case a b \<longleftrightarrow> map ascii_lower a = map ascii_lower b"

fun windows_any :: "nat \<Rightarrow> (string \<Rightarrow> bool) \<Rightarrow> string \<Rightarrow> bool" where
  "windows_any n P s =
     (if length s < n then False
      else P (take n s) \<or> (case s of [] \<Rightarrow> False | _ # rest \<Rightarrow> windows_any n P rest))"

declare windows_any.simps [simp del]

definition key_is_secret :: "string \<Rightarrow> bool" where
  "key_is_secret key \<longleftrightarrow>
     list_ex (\<lambda>fragment. windows_any (length fragment) (\<lambda>w. eq_ignore_ascii_case w fragment) key) SECRET_KEY_FRAGMENTS"

definition starts_with :: "string \<Rightarrow> string \<Rightarrow> bool" where
  "starts_with s p \<longleftrightarrow> take (length p) s = p"

definition value_is_secret :: "string \<Rightarrow> bool" where
  "value_is_secret value \<longleftrightarrow> list_ex (starts_with value) SECRET_VALUE_PREFIXES"

section \<open>The walk\<close>

fun scrub :: "json \<Rightarrow> bool \<times> json" where
  "scrub (JObject m) =
     (let done = map (\<lambda>(key, v). if key_is_secret key then (True, key, JString REDACTED)
                        else (case scrub v of (changed, v') \<Rightarrow> (changed, key, v'))) m
      in (list_ex fst done, JObject (map snd done)))"
| "scrub (JArray xs) =
     (let done = map scrub xs in (list_ex fst done, JArray (map snd done)))"
| "scrub (JString s) = (if value_is_secret s then (True, JString REDACTED) else (False, JString s))"
| "scrub v = (False, v)"

section \<open>Lemmas\<close>

text \<open>The windows of a key are the stretches of it: a fragment matches anywhere in the key.\<close>

lemma windows_any_iff:
  "windows_any n P s \<longleftrightarrow> (\<exists>a w b. s = a @ w @ b \<and> length w = n \<and> P w)"
proof (induction n P s rule: windows_any.induct)
  case (1 n P s)
  show ?case
  proof (cases "length s < n")
    case True
    then show ?thesis by (auto simp: windows_any.simps [of n P s])
  next
    case False
    have here: "P (take n s) \<longleftrightarrow> (\<exists>w b. s = w @ b \<and> length w = n \<and> P w)"
      using False by (metis append_eq_conv_conj append_take_drop_id length_take min.absorb2 not_less)
    show ?thesis
    proof (cases s)
      case Nil
      with here False show ?thesis by (subst windows_any.simps) simp
    next
      case (Cons c rest)
      have "(\<exists>a w b. s = a @ w @ b \<and> length w = n \<and> P w) \<longleftrightarrow>
          (\<exists>w b. s = w @ b \<and> length w = n \<and> P w) \<or> (\<exists>a w b. rest = a @ w @ b \<and> length w = n \<and> P w)"
        using Cons by (auto simp: Cons_eq_append_conv) blast+
      with 1 [OF False Cons] False Cons here show ?thesis
        by (simp add: windows_any.simps [of n P "c # rest"])
    qed
  qed
qed

text \<open>What a redacted value may still hold: nothing under a secret key, and no secret-shaped text.\<close>

fun leaks :: "json \<Rightarrow> bool" where
  "leaks (JObject m) = list_ex (\<lambda>(key, v). if key_is_secret key then v \<noteq> JString REDACTED else leaks v) m"
| "leaks (JArray xs) = list_ex leaks xs"
| "leaks (JString s) = value_is_secret s"
| "leaks _ = False"

text \<open>Whether a value has a secret key or a secret-shaped text outside one.\<close>

fun bears_secret :: "json \<Rightarrow> bool" where
  "bears_secret (JObject m) = list_ex (\<lambda>(key, v). key_is_secret key \<or> bears_secret v) m"
| "bears_secret (JArray xs) = list_ex bears_secret xs"
| "bears_secret (JString s) = value_is_secret s"
| "bears_secret _ = False"

lemma redacted_is_safe [simp]: "\<not> value_is_secret REDACTED"
  by (simp add: value_is_secret_def SECRET_VALUE_PREFIXES_def REDACTED_def starts_with_def)

text \<open>One member of an object.\<close>

definition scrub_member :: "string \<times> json \<Rightarrow> bool \<times> string \<times> json" where
  "scrub_member kv = (if key_is_secret (fst kv) then (True, fst kv, JString REDACTED)
     else (fst (scrub (snd kv)), fst kv, snd (scrub (snd kv))))"

lemma scrub_object:
  "scrub (JObject m) = (list_ex (fst \<circ> scrub_member) m, JObject (map (snd \<circ> scrub_member) m))"
proof -
  have "map (\<lambda>(key, v). if key_is_secret key then (True, key, JString REDACTED)
      else (case scrub v of (changed, v') \<Rightarrow> (changed, key, v'))) m = map scrub_member m"
    by (auto simp: scrub_member_def split: prod.splits)
  then show ?thesis by (simp add: Let_def list_ex_iff)
qed

declare scrub.simps(1) [simp del]
declare scrub_object [simp]

lemma json_induct [case_names null bool number string array object]:
  assumes "P JNull" "\<And>b. P (JBool b)" "\<And>n. P (JNumber n)" "\<And>s. P (JString s)"
    "\<And>xs. (\<And>v. v \<in> set xs \<Longrightarrow> P v) \<Longrightarrow> P (JArray xs)"
    "\<And>m. (\<And>key v. (key, v) \<in> set m \<Longrightarrow> P v) \<Longrightarrow> P (JObject m)"
  shows "P v"
proof (induction v)
  case (JObject m)
  have "P v" if "(key, v) \<in> set m" for key v
    using JObject [of "(key, v)" v] that by (simp add: snds.simps)
  then show ?case by (rule assms(6))
qed (use assms in auto)

lemma scrub_clean: "\<not> leaks (snd (scrub v))"
proof (induction v rule: json_induct)
  case (object m)
  have "\<not> (case snd (scrub_member kv) of (key, v) \<Rightarrow> if key_is_secret key then v \<noteq> JString REDACTED else leaks v)"
    if "kv \<in> set m" for kv
    using object [of "fst kv" "snd kv"] that by (auto simp: scrub_member_def)
  then show ?case by (auto simp: list_ex_iff)
qed (auto simp: list_ex_iff Let_def)

lemma scrub_changed: "fst (scrub v) = bears_secret v"
proof (induction v rule: json_induct)
  case (object m)
  have "fst (scrub_member kv) = (case kv of (key, v) \<Rightarrow> key_is_secret key \<or> bears_secret v)"
    if "kv \<in> set m" for kv
    using object [of "fst kv" "snd kv"] that by (auto simp: scrub_member_def split: prod.splits)
  then show ?case by (auto simp: list_ex_iff)
qed (auto simp: list_ex_iff Let_def)

lemma scrub_settled: "\<not> leaks v \<Longrightarrow> snd (scrub v) = v"
proof (induction v rule: json_induct)
  case (array xs)
  then show ?case by (auto simp: Let_def list_ex_iff intro: map_idI)
next
  case (object m)
  have "snd (scrub_member kv) = kv" if "kv \<in> set m" for kv
    using object.IH [of "fst kv" "snd kv"] object.prems that
    by (cases kv) (auto simp: scrub_member_def list_ex_iff split: if_splits)
  then show ?case by (auto intro: map_idI)
qed auto

lemma bears_not_leaks: "\<not> bears_secret v \<Longrightarrow> \<not> leaks v"
proof (induction v rule: json_induct)
  case (object m)
  have "\<not> key_is_secret key \<and> \<not> leaks v" if "(key, v) \<in> set m" for key v
    using object.IH [OF that] object.prems that by (auto simp: list_ex_iff)
  then show ?case by (auto simp: list_ex_iff)
qed (auto simp: list_ex_iff)

section \<open>Properties\<close>

text \<open>
  C39. Redaction. After the walk no value stands under a secret key but the placeholder and no
  secret-shaped text is left; the walk reports a change exactly when the value had a secret key or a
  secret-shaped text, leaves every other value as it was, and walking a redacted value again changes
  nothing of it. A key is secret exactly when a fragment occurs somewhere in it, whatever its ASCII
  case.
\<close>

theorem scrub_redacts:
  "\<not> leaks (snd (scrub v))
   \<and> (fst (scrub v) = bears_secret v)
   \<and> (fst (scrub v) \<or> snd (scrub v) = v)
   \<and> snd (scrub (snd (scrub v))) = snd (scrub v)
   \<and> (key_is_secret key = (\<exists>a w b fragment. key = a @ w @ b \<and> fragment \<in> set SECRET_KEY_FRAGMENTS
        \<and> map ascii_lower w = map ascii_lower fragment))"
proof -
  have "length w = length fragment" if "map ascii_lower w = map ascii_lower fragment" for w fragment
    using that by (metis length_map)
  then have "key_is_secret key = (\<exists>a w b fragment. key = a @ w @ b \<and> fragment \<in> set SECRET_KEY_FRAGMENTS
        \<and> map ascii_lower w = map ascii_lower fragment)"
    unfolding key_is_secret_def list_ex_iff windows_any_iff eq_ignore_ascii_case_def by blast
  moreover have "fst (scrub v) \<or> snd (scrub v) = v"
    using bears_not_leaks scrub_settled by (auto simp: scrub_changed)
  ultimately show ?thesis using scrub_clean scrub_changed scrub_settled by blast
qed

end
