(* ===== verification/Wiring_Lowering.thy ===== *)
theory Wiring_Lowering
  imports Router_Wiring
begin

text \<open>
  Lowering a package's wiring document to the graph the router walks
  (\<^verbatim>\<open>crates/execution/workflow/src/wiring_lowering.rs\<close>), with the document and the graph part of its
  validation (\<^verbatim>\<open>crates/catalog/model/src/wiring.rs\<close>). A \<^verbatim>\<open>BTreeMap\<close> is the list of its entries in key
  order, a \<^verbatim>\<open>BTreeSet\<close> the list of its members in order; \<^const>\<open>None\<close> is a panic. The texts of the errors are
  left out, and so are the test cases, the response contract and the secret scan of a document.
\<close>

section \<open>The document\<close>

datatype catalog_terminal = CRespond | CEmit string op

record catalog_node =
  cn_component :: string
  cn_interface_version :: string
  cn_operation :: string
  cn_operation_dependency :: "(string \<times> string) option"
  cn_params :: "(string \<times> json) list"
  cn_terminal :: "catalog_terminal option"

record catalog_edge =
  ce_from :: string
  ce_from_port :: string
  ce_to :: string
  ce_to_port :: "string option"

record wiring_document =
  doc_format_version :: string
  doc_wiring_id :: string
  doc_version :: nat
  doc_entry :: string
  doc_nodes :: "(string \<times> catalog_node) list"
  doc_edges :: "catalog_edge list"

section \<open>The facts\<close>

record wiring_scope =
  ws_env_key :: string
  ws_package_id :: string
  ws_environment :: string

record operation_fact =
  of_component :: string
  of_interface_version :: string
  of_operation :: string
  of_component_digest :: string
  of_input_ports :: "string list"
  of_output_ports :: "string list"
  of_parameters :: "(string \<times> bool) list"

datatype lowering_error =
    ScopeMismatch
  | PackageVersionMismatch
  | MissingComponent string
  | IncompatibleInterfaceVersion string
  | MissingOperation string
  | DuplicateOperationFact string
  | UndeclaredParameter string string
  | MissingRequiredParameter string string
  | UnknownOutputPort string string
  | UnknownInputPort string string
  | MissingInputPort string
  | AmbiguousInputPort string
  | RouterRejected wiring_error

section \<open>Lowering\<close>

definition resolve_operation ::
    "string \<Rightarrow> catalog_node \<Rightarrow> operation_fact list \<Rightarrow> (lowering_error, operation_fact) result" where
  "resolve_operation node_id node facts =
     (let components = filter (\<lambda>f. of_component f = cn_component node) facts;
          interfaces = filter (\<lambda>f. of_interface_version f = cn_interface_version node) components;
          operations = filter (\<lambda>f. of_operation f = cn_operation node) interfaces
      in if components = [] then Inl (MissingComponent node_id)
         else if interfaces = [] then Inl (IncompatibleInterfaceVersion node_id)
         else (case operations of
                 [] \<Rightarrow> Inl (MissingOperation node_id)
               | [f] \<Rightarrow> Inr f
               | _ \<Rightarrow> Inl (DuplicateOperationFact node_id)))"

definition validate_parameters ::
    "string \<Rightarrow> catalog_node \<Rightarrow> operation_fact \<Rightarrow> (lowering_error, unit) result" where
  "validate_parameters node_id node fct =
     (case find (\<lambda>p. map_of (of_parameters fct) p = None) (map fst (cn_params node)) of
        Some p \<Rightarrow> Inl (UndeclaredParameter node_id p)
      | None \<Rightarrow>
          (case find (\<lambda>p. snd p \<and> map_of (cn_params node) (fst p) = None) (of_parameters fct) of
             Some p \<Rightarrow> Inl (MissingRequiredParameter node_id (fst p))
           | None \<Rightarrow> Inr ()))"

definition resolve_target_port ::
    "string \<Rightarrow> string option \<Rightarrow> operation_fact \<Rightarrow> (lowering_error, string) result" where
  "resolve_target_port node_id authored fct =
     (case authored of
        Some port \<Rightarrow> if port \<in> set (of_input_ports fct) then Inr port else Inl (UnknownInputPort node_id port)
      | None \<Rightarrow>
          (case of_input_ports fct of
             [port] \<Rightarrow> Inr port
           | [] \<Rightarrow> Inl (MissingInputPort node_id)
           | _ \<Rightarrow> Inl (AmbiguousInputPort node_id)))"

fun lower_terminal :: "catalog_terminal \<Rightarrow> terminal" where
  "lower_terminal CRespond = Respond"
| "lower_terminal (CEmit entity operation) = Emit entity operation"

definition lower_node :: "string \<Rightarrow> catalog_node \<Rightarrow> operation_fact \<Rightarrow> wiring_node" where
  "lower_node node_id node fct =
     \<lparr>wn_id = node_id, wn_component = of_component_digest fct, wn_operation = of_operation fct,
      wn_config = JObject (cn_params node), wn_connection = None, wn_terminal = map_option lower_terminal (cn_terminal node)\<rparr>"

fun lower_nodes ::
    "operation_fact list \<Rightarrow> (string \<times> catalog_node) list
       \<Rightarrow> (lowering_error, (string \<times> catalog_node \<times> operation_fact) list) result" where
  "lower_nodes facts [] = Inr []"
| "lower_nodes facts ((node_id, node) # nodes) =
     (case resolve_operation node_id node facts of
        Inl e \<Rightarrow> Inl e
      | Inr fct \<Rightarrow>
          (case validate_parameters node_id node fct of
             Inl e \<Rightarrow> Inl e
           | Inr _ \<Rightarrow>
               (case lower_nodes facts nodes of
                  Inl e \<Rightarrow> Inl e
                | Inr rest \<Rightarrow> Inr ((node_id, node, fct) # rest))))"

definition lower_edge ::
    "(string \<rightharpoonup> operation_fact) \<Rightarrow> catalog_edge \<Rightarrow> (lowering_error, wiring_edge) result option" where
  "lower_edge resolved edge =
     (case resolved (ce_from edge) of
        None \<Rightarrow> None
      | Some source \<Rightarrow>
          if ce_from_port edge \<noteq> ERROR_PORT \<and> ce_from_port edge \<notin> set (of_output_ports source)
          then Some (Inl (UnknownOutputPort (ce_from edge) (ce_from_port edge)))
          else
            (case resolved (ce_to edge) of
               None \<Rightarrow> None
             | Some target \<Rightarrow>
                 (case resolve_target_port (ce_to edge) (ce_to_port edge) target of
                    Inl e \<Rightarrow> Some (Inl e)
                  | Inr port \<Rightarrow>
                      Some (Inr \<lparr>we_from = ce_from edge, we_from_port = ce_from_port edge, we_to = ce_to edge,
                        we_to_port = port, we_ordinal = None\<rparr>))))"

fun lower_edges ::
    "(string \<rightharpoonup> operation_fact) \<Rightarrow> catalog_edge list \<Rightarrow> (lowering_error, wiring_edge list) result option" where
  "lower_edges resolved [] = Some (Inr [])"
| "lower_edges resolved (edge # edges) =
     (case lower_edge resolved edge of
        None \<Rightarrow> None
      | Some (Inl e) \<Rightarrow> Some (Inl e)
      | Some (Inr e) \<Rightarrow>
          (case lower_edges resolved edges of
             None \<Rightarrow> None
           | Some (Inl err) \<Rightarrow> Some (Inl err)
           | Some (Inr es) \<Rightarrow> Some (Inr (e # es))))"

record gated_wiring =
  gw_scope :: wiring_scope
  gw_package_version :: string
  gw_document :: wiring_document

record scoped_facts =
  sf_scope :: wiring_scope
  sf_package_version :: string
  sf_operations :: "operation_fact list"

definition validate_scope :: "gated_wiring \<Rightarrow> scoped_facts \<Rightarrow> (lowering_error, unit) result" where
  "validate_scope active facts =
     (if gw_scope active \<noteq> sf_scope facts then Inl ScopeMismatch
      else if gw_package_version active \<noteq> sf_package_version facts then Inl PackageVersionMismatch
      else Inr ())"

definition lower_active_wiring :: "gated_wiring \<Rightarrow> scoped_facts \<Rightarrow> (lowering_error, wiring) result option" where
  "lower_active_wiring active facts =
     (case validate_scope active facts of
        Inl e \<Rightarrow> Some (Inl e)
      | Inr _ \<Rightarrow>
          (case lower_nodes (sf_operations facts) (doc_nodes (gw_document active)) of
             Inl e \<Rightarrow> Some (Inl e)
           | Inr lowered \<Rightarrow>
               (case lower_edges (map_of (map (\<lambda>(i, _, f). (i, f)) lowered)) (doc_edges (gw_document active)) of
                  None \<Rightarrow> None
                | Some (Inl e) \<Rightarrow> Some (Inl e)
                | Some (Inr edges) \<Rightarrow>
                    Some (case compile (doc_entry (gw_document active)) (map (\<lambda>(i, n, f). lower_node i n f) lowered) edges of
                            Inl e \<Rightarrow> Inl (RouterRejected e) | Inr w \<Rightarrow> Inr w))))"

section \<open>The validation of a document\<close>

datatype identity_error =
    EmptyIdentity string
  | NonCanonicalIdentity string
  | ZeroVersion
  | InvalidDefinition
  | UnresolvedWiringEntry string
  | UnresolvedWiringNode string

definition validate_text :: "string \<Rightarrow> string \<Rightarrow> (identity_error, unit) result" where
  "validate_text v field =
     (if v = [] then Inl (EmptyIdentity field)
      else if \<not> trims_to_itself v \<or> char_of (0 :: nat) \<in> set v then Inl (NonCanonicalIdentity field)
      else Inr ())"

text \<open>The checks of a validation run in order, and the first that fails is its error.\<close>

fun first_error :: "('e, unit) result list \<Rightarrow> ('e, unit) result" where
  "first_error [] = Inr ()"
| "first_error (Inl e # rs) = Inl e"
| "first_error (Inr _ # rs) = first_error rs"

definition node_checks :: "string \<times> catalog_node \<Rightarrow> (identity_error, unit) result list" where
  "node_checks p =
     (case p of (node_id, node) \<Rightarrow>
        [validate_text node_id ''node-id'', validate_text (cn_component node) ''component'',
         validate_text (cn_interface_version node) ''interface-version'', validate_text (cn_operation node) ''operation'']
        @ (case cn_operation_dependency node of
             None \<Rightarrow> []
           | Some (alias, operation) \<Rightarrow>
               [validate_text alias ''operation-dependency alias'', validate_text operation ''operation-dependency operation''])
        @ (case cn_terminal node of Some (CEmit entity _) \<Rightarrow> [validate_text entity ''emit-entity''] | _ \<Rightarrow> []))"

definition edge_checks :: "(string \<times> catalog_node) list \<Rightarrow> catalog_edge \<Rightarrow> (identity_error, unit) result list" where
  "edge_checks nodes edge =
     map (\<lambda>endpoint. if map_of nodes endpoint = None then Inl (UnresolvedWiringNode endpoint) else Inr ())
       [ce_from edge, ce_to edge]
     @ [validate_text (ce_from_port edge) ''from-port'']
     @ (case ce_to_port edge of None \<Rightarrow> [] | Some port \<Rightarrow> [validate_text port ''to-port''])"

definition WIRING_DOCUMENT_FORMAT_VERSION :: string where "WIRING_DOCUMENT_FORMAT_VERSION = ''0.1''"

definition validate_graph :: "wiring_document \<Rightarrow> (identity_error, unit) result" where
  "validate_graph doc =
     first_error
       ([if doc_format_version doc \<noteq> WIRING_DOCUMENT_FORMAT_VERSION then Inl InvalidDefinition else Inr (),
         validate_text (doc_wiring_id doc) ''wiring-id'',
         if doc_version doc = 0 then Inl ZeroVersion else Inr (),
         if doc_nodes doc = [] then Inl InvalidDefinition else Inr (),
         validate_text (doc_entry doc) ''entry'',
         if map_of (doc_nodes doc) (doc_entry doc) = None then Inl (UnresolvedWiringEntry (doc_entry doc)) else Inr ()]
        @ concat (map node_checks (doc_nodes doc))
        @ concat (map (edge_checks (doc_nodes doc)) (doc_edges doc)))"

section \<open>Lowering a resolved wiring\<close>

record admitted_operation =
  ao_input_ports :: "string list"
  ao_output_ports :: "string list"
  ao_parameters :: "(string \<times> bool) list"

record admitted_component =
  ac_component :: string
  ac_interface_version :: string
  ac_operations :: "(string \<times> admitted_operation) list"
  ac_component_digest :: string

text \<open>Collecting into a \<^verbatim>\<open>BTreeMap\<close>: the keys in order, each with the last value it was given.\<close>

definition collect_map :: "(string \<times> 'v) list \<Rightarrow> (string \<times> 'v) list" where
  "collect_map kvs = map (\<lambda>k. (k, the (map_of (rev kvs) k))) (sort (remdups (map fst kvs)))"

definition project_component_operations :: "admitted_component \<Rightarrow> operation_fact list" where
  "project_component_operations c =
     map (\<lambda>(name, operation).
       \<lparr>of_component = ac_component c, of_interface_version = ac_interface_version c, of_operation = name,
        of_component_digest = ac_component_digest c, of_input_ports = sort (remdups (ao_input_ports operation)),
        of_output_ports = sort (remdups (ao_output_ports operation)),
        of_parameters = collect_map (ao_parameters operation)\<rparr>) (ac_operations c)"

record resolved_wiring =
  rw_package_version :: string
  rw_document :: wiring_document
  rw_node_components :: "(string \<times> admitted_component) list"

definition set_component :: "string \<Rightarrow> string \<Rightarrow> (string \<times> catalog_node) list \<Rightarrow> (string \<times> catalog_node) list" where
  "set_component node_id digest nodes =
     map (\<lambda>(i, n). (i, if i = node_id then n\<lparr>cn_component := digest\<rparr> else n)) nodes"

definition push_new :: "operation_fact list \<Rightarrow> operation_fact list \<Rightarrow> operation_fact list" where
  "push_new fs operations = foldl (\<lambda>ops f. if f \<in> set ops then ops else ops @ [f]) operations fs"

fun bind_components ::
    "(string \<times> admitted_component) list \<Rightarrow> (string \<times> catalog_node) list \<Rightarrow> operation_fact list
       \<Rightarrow> ((string \<times> catalog_node) list \<times> operation_fact list) option" where
  "bind_components [] nodes operations = Some (nodes, operations)"
| "bind_components ((node_id, c) # cs) nodes operations =
     (if map_of nodes node_id = None then None
      else bind_components cs (set_component node_id (ac_component_digest c) nodes)
             (push_new (map (\<lambda>f. f\<lparr>of_component := ac_component_digest c\<rparr>) (project_component_operations c)) operations))"

definition lower_resolved_wiring ::
    "wiring_scope \<Rightarrow> resolved_wiring \<Rightarrow> (lowering_error, wiring) result option" where
  "lower_resolved_wiring scope resolved =
     (case bind_components (rw_node_components resolved) (doc_nodes (rw_document resolved)) [] of
        None \<Rightarrow> None
      | Some (nodes, operations) \<Rightarrow>
          lower_active_wiring
            \<lparr>gw_scope = scope, gw_package_version = rw_package_version resolved,
             gw_document = (rw_document resolved)\<lparr>doc_nodes := nodes\<rparr>\<rparr>
            \<lparr>sf_scope = scope, sf_package_version = rw_package_version resolved, sf_operations = operations\<rparr>)"

section \<open>Lemmas\<close>

lemma first_error_Inr: "first_error rs = Inr u \<longleftrightarrow> (\<forall>r \<in> set rs. r = Inr ())"
  by (induction rs rule: first_error.induct) auto

text \<open>A closed document: its node ids are distinct, and its entry and the ends of its edges are nodes.\<close>

definition closed_graph :: "wiring_document \<Rightarrow> bool" where
  "closed_graph doc \<longleftrightarrow> distinct (map fst (doc_nodes doc)) \<and> doc_entry doc \<in> fst ` set (doc_nodes doc)
     \<and> (\<forall>e \<in> set (doc_edges doc). {ce_from e, ce_to e} \<subseteq> fst ` set (doc_nodes doc))"

lemma validated_closed:
  assumes "validate_graph doc = Inr ()" and "distinct (map fst (doc_nodes doc))"
  shows "closed_graph doc"
proof -
  from assms have checks: "\<forall>r \<in> set ([if map_of (doc_nodes doc) (doc_entry doc) = None
      then Inl (UnresolvedWiringEntry (doc_entry doc)) else Inr ()]
      @ concat (map (edge_checks (doc_nodes doc)) (doc_edges doc))). r = Inr ()"
    by (simp add: validate_graph_def first_error_Inr)
  have "{ce_from e, ce_to e} \<subseteq> fst ` set (doc_nodes doc)" if "e \<in> set (doc_edges doc)" for e
  proof -
    have "\<forall>r \<in> set (edge_checks (doc_nodes doc) e). r = Inr ()" using checks that by auto
    then show ?thesis by (auto simp: edge_checks_def map_of_eq_None_iff split: if_splits)
  qed
  with checks assms(2) show ?thesis
    by (auto simp: closed_graph_def map_of_eq_None_iff split: if_splits)
qed

text \<open>The fact a node is bound to: the only one of its component, interface and operation, whose
  parameters the node supplies.\<close>

definition node_fact :: "operation_fact list \<Rightarrow> catalog_node \<Rightarrow> operation_fact \<Rightarrow> bool" where
  "node_fact facts node f \<longleftrightarrow>
     filter (\<lambda>g. of_component g = cn_component node \<and> of_interface_version g = cn_interface_version node
       \<and> of_operation g = cn_operation node) facts = [f]
     \<and> fst ` set (cn_params node) \<subseteq> fst ` set (of_parameters f)
     \<and> (\<forall>p. (p, True) \<in> set (of_parameters f) \<longrightarrow> p \<in> fst ` set (cn_params node))"

lemma resolve_operation_Inr:
  "resolve_operation i node facts = Inr f \<Longrightarrow>
     filter (\<lambda>g. of_component g = cn_component node \<and> of_interface_version g = cn_interface_version node
       \<and> of_operation g = cn_operation node) facts = [f]"
  by (auto simp: resolve_operation_def Let_def conj_commute conj_left_commute split: if_splits list.splits)

lemma validate_parameters_Inr:
  assumes "validate_parameters i node f = Inr u"
  shows "fst ` set (cn_params node) \<subseteq> fst ` set (of_parameters f)
     \<and> (\<forall>p. (p, True) \<in> set (of_parameters f) \<longrightarrow> p \<in> fst ` set (cn_params node))"
proof -
  have declared: "find (\<lambda>p. map_of (of_parameters f) p = None) (map fst (cn_params node)) = None"
    and supplied: "find (\<lambda>p. snd p \<and> map_of (cn_params node) (fst p) = None) (of_parameters f) = None"
    using assms by (simp_all add: validate_parameters_def split: option.splits)
  have "fst ` set (cn_params node) \<subseteq> fst ` set (of_parameters f)"
    using declared by (auto simp: find_None_iff map_of_eq_None_iff)
  moreover have "p \<in> fst ` set (cn_params node)" if "(p, True) \<in> set (of_parameters f)" for p
    using supplied that unfolding find_None_iff map_of_eq_None_iff by auto
  ultimately show ?thesis by blast
qed

lemma lower_nodes_Inr:
  "lower_nodes facts nodes = Inr lowered \<Longrightarrow>
     map (\<lambda>(i, n, f). (i, n)) lowered = nodes \<and> (\<forall>(i, n, f) \<in> set lowered. node_fact facts n f)"
proof (induction nodes arbitrary: lowered rule: lower_nodes.induct)
  case (2 facts i node nodes)
  from 2(2) obtain f rest where f: "resolve_operation i node facts = Inr f" "validate_parameters i node f = Inr ()"
    "lower_nodes facts nodes = Inr rest" "lowered = (i, node, f) # rest"
    by (auto split: sum.splits)
  have "node_fact facts node f"
    using resolve_operation_Inr [OF f(1)] validate_parameters_Inr [OF f(2)] by (simp add: node_fact_def)
  with 2(1) [OF f(1-3)] f(4) show ?case by auto
qed auto

definition port_typed :: "(string \<rightharpoonup> operation_fact) \<Rightarrow> wiring_edge \<Rightarrow> bool" where
  "port_typed resolved e \<longleftrightarrow>
     (case (resolved (we_from e), resolved (we_to e)) of
        (Some source, Some target) \<Rightarrow>
          (we_from_port e = ERROR_PORT \<or> we_from_port e \<in> set (of_output_ports source))
          \<and> we_to_port e \<in> set (of_input_ports target)
      | _ \<Rightarrow> False)"

definition edge_of :: "catalog_edge \<Rightarrow> wiring_edge \<Rightarrow> bool" where
  "edge_of c e \<longleftrightarrow> we_from e = ce_from c \<and> we_from_port e = ce_from_port c \<and> we_to e = ce_to c
     \<and> (ce_to_port c = None \<or> ce_to_port c = Some (we_to_port e)) \<and> we_ordinal e = None"

lemma resolve_target_port_Inr:
  "resolve_target_port i authored f = Inr port \<Longrightarrow>
     port \<in> set (of_input_ports f) \<and> (authored = None \<or> authored = Some port)"
  by (auto simp: resolve_target_port_def split: option.splits if_splits list.splits)

lemma lower_edge_Inr: "lower_edge resolved c = Some (Inr e) \<Longrightarrow> port_typed resolved e \<and> edge_of c e"
  by (auto simp: lower_edge_def port_typed_def edge_of_def dest: resolve_target_port_Inr
      split: option.splits if_splits sum.splits)

lemma lower_edge_total: "resolved (ce_from c) \<noteq> None \<Longrightarrow> resolved (ce_to c) \<noteq> None \<Longrightarrow> lower_edge resolved c \<noteq> None"
  by (auto simp: lower_edge_def split: option.split sum.split)

lemma resolve_target_port_Inl: "resolve_target_port i authored f = Inl err \<Longrightarrow> err \<noteq> RouterRejected x"
  by (auto simp: resolve_target_port_def split: option.splits if_splits list.splits)

lemma lower_edge_Inl: "lower_edge resolved c = Some (Inl err) \<Longrightarrow> err \<noteq> RouterRejected x"
  by (auto simp: lower_edge_def dest: resolve_target_port_Inl split: option.splits if_splits sum.splits)

lemma lower_edges_Inr:
  "lower_edges resolved cs = Some (Inr es) \<Longrightarrow> list_all2 edge_of cs es \<and> (\<forall>e \<in> set es. port_typed resolved e)"
  by (induction resolved cs arbitrary: es rule: lower_edges.induct)
    (auto dest: lower_edge_Inr split: option.splits sum.splits)

lemma lower_edges_total:
  "(\<And>c. c \<in> set cs \<Longrightarrow> resolved (ce_from c) \<noteq> None \<and> resolved (ce_to c) \<noteq> None) \<Longrightarrow> lower_edges resolved cs \<noteq> None"
  by (induction resolved cs rule: lower_edges.induct)
    (use lower_edge_total in \<open>fastforce split: option.split sum.split\<close>)+

lemma lower_edges_Inl: "lower_edges resolved cs = Some (Inl err) \<Longrightarrow> err \<noteq> RouterRejected x"
  by (induction resolved cs rule: lower_edges.induct) (auto dest: lower_edge_Inl split: option.splits sum.splits)

lemma resolve_operation_Inl: "resolve_operation i node facts = Inl err \<Longrightarrow> err \<noteq> RouterRejected x"
  by (auto simp: resolve_operation_def Let_def split: if_splits list.splits)

lemma validate_parameters_Inl: "validate_parameters i node f = Inl err \<Longrightarrow> err \<noteq> RouterRejected x"
  by (auto simp: validate_parameters_def split: option.splits)

lemma lower_nodes_Inl: "lower_nodes facts nodes = Inl err \<Longrightarrow> err \<noteq> RouterRejected x"
  by (induction facts nodes rule: lower_nodes.induct)
    (auto dest: resolve_operation_Inl validate_parameters_Inl split: sum.splits)

lemma edges_of_order:
  "list_all2 edge_of cs es \<Longrightarrow>
     map we_to (filter (\<lambda>e. we_from e = n \<and> we_from_port e = port) es)
       = map ce_to (filter (\<lambda>c. ce_from c = n \<and> ce_from_port c = port) cs)"
  by (induction rule: list_all2_induct) (auto simp: edge_of_def)

lemma unordered_sort: "(\<forall>e \<in> set es. we_ordinal e = None) \<Longrightarrow> sort_key ordinal_key es = es"
proof (induction es)
  case (Cons e es)
  then have "insort_key ordinal_key e es = e # es" by (cases es) (simp_all add: ordinal_key_def)
  with Cons show ?case by simp
qed simp

lemma edges_of_ordinal: "list_all2 edge_of cs es \<Longrightarrow> \<forall>e \<in> set es. we_ordinal e = None"
  by (auto simp: list_all2_conv_all_nth edge_of_def in_set_conv_nth)

lemma lowered_compiles:
  assumes "closed_graph doc"
    and "map (\<lambda>(i, n, f). (i, n)) lowered = doc_nodes doc" and "list_all2 edge_of (doc_edges doc) edges"
  shows "\<exists>w. compile (doc_entry doc) (map (\<lambda>(i, n, f). lower_node i n f) lowered) edges = Inr w"
proof (rule compile_total)
  let ?ns = "map (\<lambda>(i, n, f). lower_node i n f) lowered"
  have "map wn_id ?ns = map fst (map (\<lambda>(i, n, f). (i, n)) lowered)" by (auto simp: lower_node_def)
  then have ids: "map wn_id ?ns = map fst (doc_nodes doc)" by (simp only: assms(2))
  then show "distinct (map wn_id ?ns)" using assms(1) by (simp add: closed_graph_def)
  have set_ids: "wn_id ` set ?ns = fst ` set (doc_nodes doc)" using ids by (metis list.set_map)
  show "doc_entry doc \<in> wn_id ` set ?ns" unfolding set_ids using assms(1) by (simp add: closed_graph_def)
  have ends: "\<exists>c \<in> set (doc_edges doc). we_from e = ce_from c \<and> we_to e = ce_to c" if "e \<in> set edges" for e
    using assms(3) that by (fastforce simp: list_all2_conv_all_nth edge_of_def in_set_conv_nth)
  show "we_from ` set edges \<subseteq> wn_id ` set ?ns" "we_to ` set edges \<subseteq> wn_id ` set ?ns"
    unfolding set_ids using ends assms(1) by (fastforce simp: closed_graph_def)+
qed

text \<open>What a document lowers to: the bindings of its nodes, typed edges and the order of its targets.\<close>

definition lowers_to ::
    "wiring_document \<Rightarrow> operation_fact list \<Rightarrow> (string \<rightharpoonup> operation_fact) \<Rightarrow> wiring \<Rightarrow> bool" where
  "lowers_to doc facts resolved w \<longleftrightarrow>
     (\<forall>i n. map_of (doc_nodes doc) i = Some n \<longrightarrow>
        (\<exists>f. resolved i = Some f \<and> node_fact facts n f \<and> w_node w i = Some (lower_node i n f)))
     \<and> (\<forall>n port. \<forall>e \<in> set (successors w n port). port_typed resolved e)
     \<and> (\<forall>n port. map we_to (successors w n port)
          = map ce_to (filter (\<lambda>c. ce_from c = n \<and> ce_from_port c = port) (doc_edges doc)))"

lemma lowered_graph:
  assumes "distinct (map fst (doc_nodes doc))"
    and "map (\<lambda>(i, n, f). (i, n)) lowered = doc_nodes doc" and "\<forall>(i, n, f) \<in> set lowered. node_fact facts n f"
    and "list_all2 edge_of (doc_edges doc) edges"
    and "\<forall>e \<in> set edges. port_typed (map_of (map (\<lambda>(i, _, f). (i, f)) lowered)) e"
    and "compile (doc_entry doc) (map (\<lambda>(i, n, f). lower_node i n f) lowered) edges = Inr w"
  shows "lowers_to doc facts (map_of (map (\<lambda>(i, _, f). (i, f)) lowered)) w"
proof -
  let ?ns = "map (\<lambda>(i, n, f). lower_node i n f) lowered"
  have ids: "map fst lowered = map fst (doc_nodes doc)"
    unfolding assms(2) [symmetric] by (auto simp: comp_def case_prod_beta)
  have succ: "successors w n port = filter (\<lambda>e. we_from e = n \<and> we_from_port e = port) edges" for n port
  proof -
    have "\<forall>e \<in> set (filter (\<lambda>e. we_from e = n) edges). we_ordinal e = None"
      using edges_of_ordinal [OF assms(4)] by simp
    then show ?thesis
      by (simp add: successors_def compile_Inr(7) [OF assms(6)] unordered_sort conj_commute)
  qed
  have bound: "\<exists>f. map_of (map (\<lambda>(i, _, f). (i, f)) lowered) i = Some f \<and> node_fact facts n f
      \<and> w_node w i = Some (lower_node i n f)" if "map_of (doc_nodes doc) i = Some n" for i n
  proof -
    from map_of_SomeD [OF that] obtain f where f: "(i, n, f) \<in> set lowered"
      unfolding assms(2) [symmetric] by auto
    have d: "distinct (map fst lowered)" using assms(1) ids by simp
    have "map_of (map (\<lambda>(i, _, f). (i, f)) lowered) i = Some f"
      using d f by (intro map_of_is_SomeI) (auto simp: comp_def case_prod_beta rev_image_eqI)
    moreover have "w_by_id w i = Some (lower_node i n f)"
      unfolding compile_Inr(3) [OF assms(6)] using d f
      by (intro map_of_is_SomeI) (auto simp: comp_def case_prod_beta rev_map [symmetric] lower_node_def rev_image_eqI)
    ultimately show ?thesis using assms(3) f by (auto simp: w_node_def)
  qed
  show ?thesis
    unfolding lowers_to_def using bound assms(5) edges_of_order [OF assms(4)] by (simp add: succ)
qed

lemma lowering_closed:
  assumes "closed_graph (gw_document active)"
  shows "\<exists>r. lower_active_wiring active facts = Some r \<and> (\<forall>e. r \<noteq> Inl (RouterRejected e))
    \<and> (\<forall>w. r = Inr w \<longrightarrow>
         (\<exists>resolved. lowers_to (gw_document active) (sf_operations facts) resolved w))"
proof (cases "validate_scope active facts")
  case (Inl e)
  then show ?thesis by (auto simp: lower_active_wiring_def validate_scope_def split: if_splits)
next
  case (Inr u)
  let ?doc = "gw_document active"
  show ?thesis
  proof (cases "lower_nodes (sf_operations facts) (doc_nodes ?doc)")
    case (Inl e)
    with Inr lower_nodes_Inl show ?thesis by (auto simp: lower_active_wiring_def)
  next
    case lowered: (Inr lowered)
    let ?resolved = "map_of (map (\<lambda>(i, _, f). (i, f)) lowered)"
    note nodes = lower_nodes_Inr [OF lowered]
    have ids: "map fst lowered = map fst (doc_nodes ?doc)"
      unfolding nodes [THEN conjunct1, symmetric] by (auto simp: comp_def case_prod_beta)
    have known: "?resolved i \<noteq> None" if "i \<in> fst ` set (doc_nodes ?doc)" for i
      using that ids by (simp add: map_of_eq_None_iff image_image case_prod_beta) (metis list.set_map)
    have "lower_edges ?resolved (doc_edges ?doc) \<noteq> None"
      by (rule lower_edges_total) (use known assms in \<open>auto simp: closed_graph_def\<close>)
    then obtain es where es: "lower_edges ?resolved (doc_edges ?doc) = Some es" by blast
    show ?thesis
    proof (cases es)
      case (Inl e)
      with Inr lowered es lower_edges_Inl show ?thesis by (auto simp: lower_active_wiring_def)
    next
      case edges: (Inr edges)
      note typed = lower_edges_Inr [OF es [unfolded edges]]
      obtain w where w: "compile (doc_entry ?doc) (map (\<lambda>(i, n, f). lower_node i n f) lowered) edges = Inr w"
        using lowered_compiles [OF assms nodes [THEN conjunct1] typed [THEN conjunct1]] by blast
      have distinct: "distinct (map fst (doc_nodes ?doc))" using assms by (simp add: closed_graph_def)
      have low: "lower_active_wiring active facts = Some (Inr w)"
        using Inr lowered es edges w by (simp add: lower_active_wiring_def)
      with lowered_graph [OF distinct nodes [THEN conjunct1] nodes [THEN conjunct2] typed [THEN conjunct1]
          typed [THEN conjunct2] w] show ?thesis by blast
    qed
  qed
qed

text \<open>Binding the components keeps the ids of the nodes, binds each named node to the digest of its
  component, and each fact it collects is invoked by the name of its component.\<close>

lemma set_component_ids: "map fst (set_component i d nodes) = map fst nodes"
  by (simp add: set_component_def case_prod_beta comp_def)

lemma set_component_lookup:
  "map_of (set_component i d nodes) j = map_option (\<lambda>n. if j = i then n\<lparr>cn_component := d\<rparr> else n) (map_of nodes j)"
  by (induction nodes) (auto simp: set_component_def)

lemma push_new_set: "set (push_new fs ops) = set ops \<union> set fs"
  by (induction fs arbitrary: ops) (auto simp: push_new_def)

lemma bind_components_total:
  "fst ` set cs \<subseteq> fst ` set nodes \<Longrightarrow> \<exists>nodes' ops'. bind_components cs nodes ops = Some (nodes', ops')"
proof (induction cs nodes ops rule: bind_components.induct)
  case (2 i c cs nodes ops)
  have "fst ` set (set_component i d nodes) = fst ` set nodes" for d
    by (metis set_component_ids list.set_map)
  with 2 show ?case by (auto simp: map_of_eq_None_iff)
qed simp

lemma bind_components_ids: "bind_components cs nodes ops = Some (nodes', ops') \<Longrightarrow> map fst nodes' = map fst nodes"
  by (induction cs nodes ops rule: bind_components.induct) (auto simp: set_component_ids split: if_splits)

lemma bind_components_unnamed:
  "bind_components cs nodes ops = Some (nodes', ops') \<Longrightarrow> i \<notin> fst ` set cs \<Longrightarrow> map_of nodes' i = map_of nodes i"
  by (induction cs nodes ops rule: bind_components.induct)
    (auto simp: set_component_lookup option.map_ident split: if_splits)

lemma projected_digest: "f \<in> set (project_component_operations c) \<Longrightarrow> of_component_digest f = ac_component_digest c"
  by (auto simp: project_component_operations_def)

lemma bind_components_facts:
  "bind_components cs nodes ops = Some (nodes', ops') \<Longrightarrow> \<forall>f \<in> set ops. of_component_digest f = of_component f
     \<Longrightarrow> \<forall>f \<in> set ops'. of_component_digest f = of_component f"
  by (induction cs nodes ops rule: bind_components.induct)
    (auto simp: push_new_set projected_digest ball_Un split: if_splits)

lemma bind_components_named:
  "bind_components cs nodes ops = Some (nodes', ops') \<Longrightarrow> distinct (map fst cs) \<Longrightarrow> (i, c) \<in> set cs
     \<Longrightarrow> \<exists>n. map_of nodes i = Some n \<and> map_of nodes' i = Some (n\<lparr>cn_component := ac_component_digest c\<rparr>)"
proof (induction cs nodes ops rule: bind_components.induct)
  case (2 j d cs nodes ops)
  then have rest: "bind_components cs (set_component j (ac_component_digest d) nodes)
      (push_new (map (\<lambda>f. f\<lparr>of_component := ac_component_digest d\<rparr>) (project_component_operations d)) ops)
      = Some (nodes', ops')" and j: "map_of nodes j \<noteq> None" by (auto split: if_splits)
  show ?case
  proof (cases "i = j")
    case True
    with 2(3,4) have "c = d" "i \<notin> fst ` set cs" by (auto simp: rev_image_eqI)
    with bind_components_unnamed [OF rest] j True show ?thesis by (auto simp: set_component_lookup)
  next
    case False
    with 2 rest j show ?thesis by (auto simp: set_component_lookup option.map_ident)
  qed
qed simp

lemma lowered_node_digest:
  assumes "lowers_to doc facts resolved w" and "map_of (doc_nodes doc) i = Some n"
    and "\<forall>f \<in> set facts. of_component_digest f = of_component f"
  shows "\<exists>m. w_node w i = Some m \<and> wn_component m = cn_component n \<and> wn_operation m = cn_operation n"
proof -
  from assms(1,2) obtain f where f: "node_fact facts n f" "w_node w i = Some (lower_node i n f)"
    unfolding lowers_to_def by blast
  from f(1) have "f \<in> set (filter (\<lambda>g. of_component g = cn_component n \<and> of_interface_version g = cn_interface_version n
       \<and> of_operation g = cn_operation n) facts)"
    by (simp add: node_fact_def)
  with f(2) assms(3) show ?thesis by (auto simp: lower_node_def)
qed

text \<open>
  C10. Lowering is well typed. For a validated document whose resolved nodes are nodes of it, lowering a
  resolved wiring never panics and the router never refuses the graph it builds. When it succeeds,
  each node of the document with its components bound has exactly one fact of its component,
  interface and operation, supplies the parameters that fact requires and no undeclared one, and is
  invoked by that fact's digest and operation; every edge leaves by a port its source declares, or by
  the error port, and arrives at a port its target declares; the targets of a port are those the
  document lists, in its order; and each resolved node runs the bytes of its own admitted component.
\<close>

theorem lowering_typed:
  assumes "validate_graph (rw_document r) = Inr ()" and "distinct (map fst (doc_nodes (rw_document r)))"
    and "distinct (map fst (rw_node_components r))"
    and "fst ` set (rw_node_components r) \<subseteq> fst ` set (doc_nodes (rw_document r))"
  shows "\<exists>out nodes facts. lower_resolved_wiring scope r = Some out \<and> (\<forall>e. out \<noteq> Inl (RouterRejected e))
    \<and> bind_components (rw_node_components r) (doc_nodes (rw_document r)) [] = Some (nodes, facts)
    \<and> (\<forall>w. out = Inr w \<longrightarrow>
         (\<exists>resolved. lowers_to ((rw_document r)\<lparr>doc_nodes := nodes\<rparr>) facts resolved w)
         \<and> (\<forall>(i, c) \<in> set (rw_node_components r). \<exists>m. w_node w i = Some m \<and> wn_component m = ac_component_digest c))"
proof -
  obtain nodes facts where b: "bind_components (rw_node_components r) (doc_nodes (rw_document r)) [] = Some (nodes, facts)"
    using bind_components_total [OF assms(4)] by blast
  let ?doc = "(rw_document r)\<lparr>doc_nodes := nodes\<rparr>"
  let ?active = "\<lparr>gw_scope = scope, gw_package_version = rw_package_version r, gw_document = ?doc\<rparr>"
  let ?facts = "\<lparr>sf_scope = scope, sf_package_version = rw_package_version r, sf_operations = facts\<rparr>"
  have ids: "map fst nodes = map fst (doc_nodes (rw_document r))" by (rule bind_components_ids [OF b])
  then have sets: "fst ` set nodes = fst ` set (doc_nodes (rw_document r))" by (metis list.set_map)
  have "closed_graph ?doc"
    using validated_closed [OF assms(1,2)] ids sets by (simp add: closed_graph_def)
  from lowering_closed [of ?active ?facts] this obtain out
    where out: "lower_active_wiring ?active ?facts = Some out" "\<forall>e. out \<noteq> Inl (RouterRejected e)"
      "\<forall>w. out = Inr w \<longrightarrow> (\<exists>resolved. lowers_to ?doc facts resolved w)" by auto
  have "\<exists>m. w_node w i = Some m \<and> wn_component m = ac_component_digest c"
    if "out = Inr w" "(i, c) \<in> set (rw_node_components r)" for w i c
    using bind_components_named [OF b assms(3) that(2)] out(3) that(1) bind_components_facts [OF b]
      lowered_node_digest [of ?doc facts _ w i] by fastforce
  with out b show ?thesis by (auto simp: lower_resolved_wiring_def)
qed

text \<open>A document of two nodes: the first answers on a port the second takes by its only input.\<close>

definition lowered_example :: resolved_wiring where
  "lowered_example =
     \<lparr>rw_package_version = ''1.0.0'',
      rw_document = \<lparr>doc_format_version = ''0.1'', doc_wiring_id = ''orders'', doc_version = 1, doc_entry = ''a'',
        doc_nodes = [(''a'', \<lparr>cn_component = ''read'', cn_interface_version = ''1'', cn_operation = ''run'',
            cn_operation_dependency = None, cn_params = [(''limit'', JNull)], cn_terminal = None\<rparr>),
          (''b'', \<lparr>cn_component = ''write'', cn_interface_version = ''1'', cn_operation = ''run'',
            cn_operation_dependency = None, cn_params = [], cn_terminal = Some CRespond\<rparr>)],
        doc_edges = [\<lparr>ce_from = ''a'', ce_from_port = ''out'', ce_to = ''b'', ce_to_port = None\<rparr>]\<rparr>,
      rw_node_components =
        [(''a'', \<lparr>ac_component = ''read'', ac_interface_version = ''1'',
            ac_operations = [(''run'', \<lparr>ao_input_ports = [''in''], ao_output_ports = [''out''], ao_parameters = [(''limit'', True)]\<rparr>)],
            ac_component_digest = ''d1''\<rparr>),
         (''b'', \<lparr>ac_component = ''write'', ac_interface_version = ''1'',
            ac_operations = [(''run'', \<lparr>ao_input_ports = [''in''], ao_output_ports = [], ao_parameters = []\<rparr>)],
            ac_component_digest = ''d2''\<rparr>)]\<rparr>"

definition example_scope :: wiring_scope where
  "example_scope = \<lparr>ws_env_key = ''env'', ws_package_id = ''p'', ws_environment = ''live''\<rparr>"

lemma lowered_example_valid: "validate_graph (rw_document lowered_example) = Inr ()"
  by code_simp

lemma lowered_example_succeeds:
  "map_option (\<lambda>r. case r of Inl e \<Rightarrow> None | Inr w \<Rightarrow> Some (map_option wn_component (w_node w ''a''), map_option wn_component (w_node w ''b'')))
     (lower_resolved_wiring example_scope lowered_example) = Some (Some (Some ''d1'', Some ''d2''))"
  by code_simp

theorem lowering_typed_witness:
  "\<exists>w. lower_resolved_wiring example_scope lowered_example = Some (Inr w)
     \<and> (\<exists>doc facts resolved. lowers_to doc facts resolved w)"
proof -
  have "\<exists>w. lower_resolved_wiring example_scope lowered_example = Some (Inr w)"
    using lowered_example_succeeds by (auto split: sum.splits) (metis sum.exhaust)
  moreover have "distinct (map fst (doc_nodes (rw_document lowered_example)))"
    "distinct (map fst (rw_node_components lowered_example))"
    "fst ` set (rw_node_components lowered_example) \<subseteq> fst ` set (doc_nodes (rw_document lowered_example))"
    by (simp_all add: lowered_example_def)
  ultimately show ?thesis
    using lowering_typed [OF lowered_example_valid, of example_scope] by fastforce
qed

end
