(* ===== verification/Intent_Store.thy ===== *)
theory Intent_Store
  imports Router_Driver
begin

text \<open>
  The log of operation calls: the contract of \<^verbatim>\<open>crates/execution/run-state/src/intent_store.rs\<close>, the operator's
  vocabulary of \<^verbatim>\<open>operator_action.rs\<close>, and the table of \<^verbatim>\<open>crates/execution/run-state-sqlite/src/lib.rs\<close>
  with one definition for each operation. SQLite chooses the row id of an insert: \<open>rowid\<close> is that choice,
  \<^const>\<open>None\<close> when it has none left. The clock, and the reader and writer of JSON text, are parameters;
  a clock outside the range of the column is \<^const>\<open>None\<close>. The failures of the file itself are left out: such
  a call answers an error and changes nothing.
\<close>

section \<open>The operator's vocabulary\<close>

datatype operator_action_basis = ExternalEvidence | CounterpartyConfirmation | OperatorJudgment

fun basis_as_str :: "operator_action_basis \<Rightarrow> string" where
  "basis_as_str ExternalEvidence = ''external-evidence''"
| "basis_as_str CounterpartyConfirmation = ''counterparty-confirmation''"
| "basis_as_str OperatorJudgment = ''operator-judgment''"

definition basis_from_str :: "string \<Rightarrow> operator_action_basis option" where
  "basis_from_str value =
     (if value = ''external-evidence'' then Some ExternalEvidence
      else if value = ''counterparty-confirmation'' then Some CounterpartyConfirmation
      else if value = ''operator-judgment'' then Some OperatorJudgment
      else None)"

section \<open>The contract\<close>

record intent =
  in_tenant :: string
  in_release :: string
  in_package :: string
  in_operation :: string
  in_idempotency_key :: string
  in_input_hash :: string
  in_deadline_ms :: u64

text \<open>The answer to a begin, over the type of a finished key's outcome.\<close>

datatype 'o begun =
    New string
  | Finished 'o
  | Uncertain string
  | Resolved string operator_action_basis
  | Conflict string

record uncertain_intent =
  un_id :: string
  un_tenant :: string
  un_release :: string
  un_package :: string
  un_operation :: string
  un_idempotency_key :: string

datatype store_error_type = StorageFailure | ContractFailure

type_synonym store_error = "store_error_type \<times> string"

section \<open>The table\<close>

record intent_row =
  ir_id :: int
  ir_tenant :: string
  ir_release :: string
  ir_package :: string
  ir_operation :: string
  ir_idempotency_key :: string
  ir_input_hash :: string
  ir_deadline_ms :: int
  ir_begun_at :: int
  ir_finished_at :: "int option"
  ir_outcome :: "string option"
  ir_resolved_basis :: "string option"
  ir_resolved_at :: "int option"

type_synonym intent_db = "intent_row list"

definition intents_check :: "intent_row \<Rightarrow> bool" where
  "intents_check r \<longleftrightarrow>
     (ir_finished_at r = None) = (ir_outcome r = None)
     \<and> (ir_resolved_basis r = None) = (ir_resolved_at r = None)
     \<and> (ir_finished_at r = None \<or> ir_resolved_at r = None)"

definition is_open :: "intent_row \<Rightarrow> bool" where
  "is_open r \<longleftrightarrow> ir_finished_at r = None \<and> ir_resolved_at r = None"

definition in_i64 :: "int \<Rightarrow> bool" where
  "in_i64 i \<longleftrightarrow> - (2 ^ 63) \<le> i \<and> i < 2 ^ 63"

text \<open>The text of an id, and the ids that a text names: a sign is allowed, and so are leading zeros.\<close>

definition show_int :: "int \<Rightarrow> string" where
  "show_int i = (if i < 0 then ''-'' @ show_nat (nat (- i)) else show_nat (nat i))"

definition parse_digits :: "string \<Rightarrow> nat option" where
  "parse_digits s = (if s \<noteq> [] \<and> list_all is_digit s then Some (digits_value s) else None)"

definition parse_i64 :: "string \<Rightarrow> int option" where
  "parse_i64 s =
     (case (case s of
              [] \<Rightarrow> None
            | c # rest \<Rightarrow>
                if c = CHR ''-'' then map_option (\<lambda>n. - int n) (parse_digits rest)
                else if c = CHR ''+'' then map_option int (parse_digits rest)
                else map_option int (parse_digits s)) of
        None \<Rightarrow> None
      | Some i \<Rightarrow> if in_i64 i then Some i else None)"

definition row_id :: "string \<Rightarrow> string \<Rightarrow> (store_error, int) result" where
  "row_id operation iid =
     (case parse_i64 iid of None \<Rightarrow> Inl (ContractFailure, operation) | Some i \<Rightarrow> Inr i)"

definition find_intent :: "string \<Rightarrow> string \<Rightarrow> intent_db \<Rightarrow> intent_row option" where
  "find_intent tenant key db = find (\<lambda>r. ir_tenant r = tenant \<and> ir_idempotency_key r = key) db"

section \<open>The operations\<close>

definition begin_text ::
    "(intent_db \<Rightarrow> int option) \<Rightarrow> int option \<Rightarrow> intent \<Rightarrow> intent_db
       \<Rightarrow> (store_error, string begun) result \<times> intent_db" where
  "begin_text rowid now i db =
     (if 2 ^ 63 \<le> uint (in_deadline_ms i) then (Inl (ContractFailure, ''begin''), db)
      else
        (case find_intent (in_tenant i) (in_idempotency_key i) db of
           Some r \<Rightarrow>
             (if ir_input_hash r \<noteq> in_input_hash i then (Inr (Conflict (show_int (ir_id r))), db)
              else
                (case ir_outcome r of
                   Some outcome \<Rightarrow> (Inr (Finished outcome), db)
                 | None \<Rightarrow>
                     (case ir_resolved_basis r of
                        Some text \<Rightarrow>
                          (case basis_from_str text of
                             None \<Rightarrow> (Inl (ContractFailure, ''begin''), db)
                           | Some basis \<Rightarrow> (Inr (Resolved (show_int (ir_id r)) basis), db))
                      | None \<Rightarrow> (Inr (Uncertain (show_int (ir_id r))), db))))
         | None \<Rightarrow>
             (case (now, rowid db) of
                (Some t, Some iid) \<Rightarrow>
                  (Inr (New (show_int iid)),
                   db @ [\<lparr>ir_id = iid, ir_tenant = in_tenant i, ir_release = in_release i, ir_package = in_package i,
                     ir_operation = in_operation i, ir_idempotency_key = in_idempotency_key i,
                     ir_input_hash = in_input_hash i, ir_deadline_ms = uint (in_deadline_ms i), ir_begun_at = t,
                     ir_finished_at = None, ir_outcome = None, ir_resolved_basis = None, ir_resolved_at = None\<rparr>])
              | _ \<Rightarrow> (Inl (StorageFailure, ''begin''), db))))"

definition begin_intent ::
    "(string \<Rightarrow> json option) \<Rightarrow> (intent_db \<Rightarrow> int option) \<Rightarrow> int option \<Rightarrow> intent \<Rightarrow> intent_db
       \<Rightarrow> (store_error, json begun) result \<times> intent_db" where
  "begin_intent parse rowid now i db =
     (case begin_text rowid now i db of
        (Inl e, db') \<Rightarrow> (Inl e, db')
      | (Inr (New iid), db') \<Rightarrow> (Inr (New iid), db')
      | (Inr (Finished text), db') \<Rightarrow>
          (case parse text of
             None \<Rightarrow> (Inl (ContractFailure, ''begin''), db')
           | Some outcome \<Rightarrow> (Inr (Finished outcome), db'))
      | (Inr (Uncertain iid), db') \<Rightarrow> (Inr (Uncertain iid), db')
      | (Inr (Resolved iid basis), db') \<Rightarrow> (Inr (Resolved iid basis), db')
      | (Inr (Conflict iid), db') \<Rightarrow> (Inr (Conflict iid), db'))"

text \<open>An update of the open row of an id, which the id must have.\<close>

definition update_open ::
    "string \<Rightarrow> int \<Rightarrow> (intent_row \<Rightarrow> intent_row) \<Rightarrow> intent_db \<Rightarrow> (store_error, unit) result \<times> intent_db" where
  "update_open operation iid f db =
     (if list_ex (\<lambda>r. ir_id r = iid \<and> is_open r) db
      then (Inr (), map (\<lambda>r. if ir_id r = iid \<and> is_open r then f r else r) db)
      else (Inl (ContractFailure, operation), db))"

definition finish_text_in ::
    "int option \<Rightarrow> string \<Rightarrow> string \<Rightarrow> intent_db \<Rightarrow> (store_error, unit) result \<times> intent_db" where
  "finish_text_in now iid outcome db =
     (case row_id ''finish'' iid of
        Inl e \<Rightarrow> (Inl e, db)
      | Inr i \<Rightarrow>
          (case now of
             None \<Rightarrow> (Inl (StorageFailure, ''finish''), db)
           | Some t \<Rightarrow>
               update_open ''finish'' i (\<lambda>r. r\<lparr>ir_finished_at := Some t, ir_outcome := Some outcome\<rparr>) db))"

definition finish_intent ::
    "(json \<Rightarrow> string) \<Rightarrow> int option \<Rightarrow> string \<Rightarrow> json \<Rightarrow> intent_db \<Rightarrow> (store_error, unit) result \<times> intent_db" where
  "finish_intent to_text now iid outcome db = finish_text_in now iid (to_text outcome) db"

definition release_intent :: "string \<Rightarrow> intent_db \<Rightarrow> (store_error, unit) result \<times> intent_db" where
  "release_intent iid db =
     (case row_id ''release'' iid of
        Inl e \<Rightarrow> (Inl e, db)
      | Inr i \<Rightarrow>
          (if list_ex (\<lambda>r. ir_id r = i \<and> is_open r) db
           then (Inr (), filter (\<lambda>r. \<not> (ir_id r = i \<and> is_open r)) db)
           else (Inl (ContractFailure, ''release''), db)))"

definition uncertain_intents :: "nat \<Rightarrow> intent_db \<Rightarrow> uncertain_intent list" where
  "uncertain_intents limit db =
     take limit (map (\<lambda>r. \<lparr>un_id = show_int (ir_id r), un_tenant = ir_tenant r, un_release = ir_release r,
         un_package = ir_package r, un_operation = ir_operation r, un_idempotency_key = ir_idempotency_key r\<rparr>)
       (sort_key ir_id (filter is_open db)))"

definition resolve_intent ::
    "int option \<Rightarrow> string \<Rightarrow> operator_action_basis \<Rightarrow> intent_db \<Rightarrow> (store_error, unit) result \<times> intent_db" where
  "resolve_intent now iid basis db =
     (case row_id ''resolve'' iid of
        Inl e \<Rightarrow> (Inl e, db)
      | Inr i \<Rightarrow>
          (case now of
             None \<Rightarrow> (Inl (StorageFailure, ''resolve''), db)
           | Some t \<Rightarrow>
               update_open ''resolve'' i
                 (\<lambda>r. r\<lparr>ir_resolved_basis := Some (basis_as_str basis), ir_resolved_at := Some t\<rparr>) db))"

section \<open>The log a table holds\<close>

datatype 'o intent_state = Open | Done 'o | Closed operator_action_basis

fun row_state :: "intent_row \<Rightarrow> string intent_state" where
  "row_state r =
     (case ir_outcome r of
        Some text \<Rightarrow> Done text
      | None \<Rightarrow> (case Option.bind (ir_resolved_basis r) basis_from_str of None \<Rightarrow> Open | Some basis \<Rightarrow> Closed basis))"

type_synonym 'o intent_log = "string \<times> string \<Rightarrow> (string \<times> string \<times> 'o intent_state) option"

definition intent_key :: "intent_row \<Rightarrow> string \<times> string" where
  "intent_key r = (ir_tenant r, ir_idempotency_key r)"

definition log_entry :: "intent_row \<Rightarrow> string \<times> string \<times> string intent_state" where
  "log_entry r = (show_int (ir_id r), ir_input_hash r, row_state r)"

definition log_of :: "intent_db \<Rightarrow> string intent_log" where
  "log_of db k = map_option log_entry (find (\<lambda>r. intent_key r = k) db)"

text \<open>What every operation keeps: the primary key, the unique index, and the row constraints.\<close>

definition row_ok :: "intent_row \<Rightarrow> bool" where
  "row_ok r \<longleftrightarrow> in_i64 (ir_id r) \<and> intents_check r
     \<and> (\<forall>text. ir_resolved_basis r = Some text \<longrightarrow> basis_from_str text \<noteq> None)"

definition log_ok :: "intent_db \<Rightarrow> bool" where
  "log_ok db \<longleftrightarrow> distinct (map ir_id db) \<and> distinct (map intent_key db) \<and> list_all row_ok db"

text \<open>What SQLite promises of a row id it chooses.\<close>

definition fresh_rowid :: "(intent_db \<Rightarrow> int option) \<Rightarrow> bool" where
  "fresh_rowid rowid \<longleftrightarrow> (\<forall>db i. rowid db = Some i \<longrightarrow> i \<notin> ir_id ` set db \<and> in_i64 i)"

section \<open>Lemmas\<close>

lemma basis_round_trip [simp]: "basis_from_str (basis_as_str b) = Some b"
  by (cases b) (simp_all add: basis_from_str_def)

lemma parse_digits_show [simp]: "parse_digits (show_nat n) = Some n"
  by (simp add: parse_digits_def list_all_iff show_nat_digits)

lemma digit_no_sign: "is_digit c \<Longrightarrow> c \<noteq> CHR ''-'' \<and> c \<noteq> CHR ''+''"
  by (auto simp: is_digit_def)

lemma parse_show [simp]: "in_i64 i \<Longrightarrow> parse_i64 (show_int i) = Some i"
proof (cases "i < 0")
  case False
  obtain c rest where s: "show_nat (nat i) = c # rest" by (cases "show_nat (nat i)") simp_all
  then have "c \<noteq> CHR ''-'' \<and> c \<noteq> CHR ''+''"
    using show_nat_digits [of c "nat i"] digit_no_sign by simp
  moreover assume "in_i64 i"
  ultimately show ?thesis
    using False parse_digits_show [of "nat i"] by (simp add: parse_i64_def show_int_def s)
qed (simp add: parse_i64_def show_int_def)

lemma show_int_inj: "in_i64 i \<Longrightarrow> in_i64 j \<Longrightarrow> show_int i = show_int j \<Longrightarrow> i = j"
  by (metis option.inject parse_show)

lemma find_intent_key: "find_intent t k db = find (\<lambda>r. intent_key r = (t, k)) db"
  by (simp add: find_intent_def intent_key_def)

lemma find_key_member: "distinct (map f xs) \<Longrightarrow> r \<in> set xs \<Longrightarrow> find (\<lambda>x. f x = f r) xs = Some r"
  by (induction xs) (auto simp: rev_image_eqI)

lemma log_row: "log_ok db \<Longrightarrow> r \<in> set db \<Longrightarrow> log_of db (intent_key r) = Some (log_entry r)"
  by (simp add: log_of_def log_ok_def find_key_member)

lemma log_member:
  assumes "log_of db k = Some e"
  obtains r where "r \<in> set db" "intent_key r = k" "e = log_entry r"
proof -
  from assms obtain r where "find (\<lambda>r. intent_key r = k) db = Some r" "e = log_entry r" by (auto simp: log_of_def)
  moreover from this(1) have "r \<in> set db" "intent_key r = k" by (auto simp: find_Some_iff)
  ultimately show thesis using that by blast
qed

lemma open_state: "intents_check r \<Longrightarrow> (\<And>t. ir_resolved_basis r = Some t \<Longrightarrow> basis_from_str t \<noteq> None) \<Longrightarrow>
    is_open r \<longleftrightarrow> row_state r = Open"
  by (auto simp: is_open_def intents_check_def split: option.splits)

lemma log_ok_row:
  assumes "log_ok db" and "r \<in> set db"
  shows "in_i64 (ir_id r)" and "is_open r \<longleftrightarrow> row_state r = Open"
  using assms open_state by (auto simp: log_ok_def list_all_iff row_ok_def)

lemma log_id_inj:
  assumes "log_ok db" and "log_of db k = Some (i, h, x)" and "log_of db k' = Some (i, h', x')"
  shows "k = k'"
proof -
  obtain r where r: "r \<in> set db" "intent_key r = k" "(i, h, x) = log_entry r" using log_member [OF assms(2)] .
  obtain r' where r': "r' \<in> set db" "intent_key r' = k'" "(i, h', x') = log_entry r'" using log_member [OF assms(3)] .
  have "ir_id r = ir_id r'"
    using r r' log_ok_row(1) [OF assms(1)] by (auto simp: log_entry_def intro: show_int_inj)
  then have "r = r'" using assms(1) r(1) r'(1) by (auto simp: log_ok_def distinct_map inj_on_def)
  with r r' show ?thesis by simp
qed

subsection \<open>One row changes\<close>

lemma find_map_at:
  assumes "distinct (map g xs)" and "r \<in> set xs" and "\<And>x. g (h x) = g x" and "\<And>x. x \<in> set xs \<Longrightarrow> x \<noteq> r \<Longrightarrow> h x = x"
  shows "find (\<lambda>x. g x = k) (map h xs) = (if k = g r then Some (h r) else find (\<lambda>x. g x = k) xs)"
  using assms
proof (induction xs)
  case (Cons x xs)
  show ?case
  proof (cases "x = r")
    case True
    with Cons.prems have "r \<notin> set xs" by auto
    with Cons.prems True have "map h xs = xs" by (intro map_idI) auto
    with True Cons.prems(3) show ?thesis by auto
  next
    case False
    with Cons.prems have "r \<in> set xs" "h x = x" "g x \<noteq> g r" by (auto simp: rev_image_eqI)
    with Cons False show ?thesis by auto
  qed
qed simp

lemma find_filter_at:
  assumes "distinct (map g xs)" and "r \<in> set xs" and "\<And>x. x \<in> set xs \<Longrightarrow> P x \<longleftrightarrow> x \<noteq> r"
  shows "find (\<lambda>x. g x = k) (filter P xs) = (if k = g r then None else find (\<lambda>x. g x = k) xs)"
  using assms
proof (induction xs)
  case (Cons x xs)
  show ?case
  proof (cases "x = r")
    case True
    with Cons.prems have "r \<notin> set xs" by auto
    with Cons.prems True have "filter P xs = xs" by (auto simp: filter_id_conv)
    moreover have "find (\<lambda>x. g x = g r) xs = None" using Cons.prems(1) True by (simp add: find_None_iff) (metis imageI)
    ultimately show ?thesis using True Cons.prems(3) by auto
  next
    case False
    with Cons.prems have "r \<in> set xs" "g x \<noteq> g r" by (auto simp: rev_image_eqI)
    with Cons False show ?thesis by auto
  qed
qed simp

text \<open>The open row of an id is one row.\<close>

lemma open_row:
  assumes "log_ok db" and "list_ex (\<lambda>r. ir_id r = i \<and> is_open r) db"
  obtains r where "r \<in> set db" "ir_id r = i" "is_open r" "\<And>x. x \<in> set db \<Longrightarrow> (ir_id x = i \<and> is_open x) \<longleftrightarrow> x = r"
proof -
  from assms(2) obtain r where r: "r \<in> set db" "ir_id r = i" "is_open r" by (auto simp: list_ex_iff)
  with assms(1) that show thesis by (auto simp: log_ok_def distinct_map inj_on_def)
qed

definition keeps_identity :: "(intent_row \<Rightarrow> intent_row) \<Rightarrow> bool" where
  "keeps_identity f \<longleftrightarrow> (\<forall>r. ir_id (f r) = ir_id r \<and> intent_key (f r) = intent_key r)"

lemma update_open_ok:
  assumes "log_ok db" and "keeps_identity f" and "\<And>r. row_ok r \<Longrightarrow> is_open r \<Longrightarrow> row_ok (f r)"
  shows "log_ok (snd (update_open operation i f db))"
proof -
  let ?h = "\<lambda>r. if ir_id r = i \<and> is_open r then f r else r"
  have "map ir_id (map ?h db) = map ir_id db" "map intent_key (map ?h db) = map intent_key db"
    using assms(2) by (auto simp: keeps_identity_def)
  with assms(1,3) show ?thesis
    unfolding update_open_def log_ok_def by (auto simp: list_all_iff simp del: map_map)
qed

lemma update_open_log:
  assumes "log_ok db" and "keeps_identity f" and "update_open operation i f db = (res, db')"
  obtains (refused) e where "res = Inl e" "db' = db"
    "\<And>k h x. in_i64 i \<Longrightarrow> log_of db k = Some (show_int i, h, x) \<Longrightarrow> x \<noteq> Open"
  | (changed) r where "res = Inr ()" "r \<in> set db" "ir_id r = i" "is_open r"
      "log_of db' = (log_of db)(intent_key r \<mapsto> log_entry (f r))"
proof (cases "list_ex (\<lambda>r. ir_id r = i \<and> is_open r) db")
  case False
  have "x \<noteq> Open" if i: "in_i64 i" and e: "log_of db k = Some (show_int i, h, x)" for k h x
  proof -
    obtain r where r: "r \<in> set db" "(show_int i, h, x) = log_entry r" using log_member [OF e] by metis
    then have "ir_id r = i" using show_int_inj log_ok_row(1) [OF assms(1)] i by (auto simp: log_entry_def)
    with False r log_ok_row(2) [OF assms(1)] show ?thesis by (auto simp: list_ex_iff log_entry_def)
  qed
  with False assms(3) refused show thesis by (auto simp: update_open_def)
next
  case True
  obtain r where r: "r \<in> set db" "ir_id r = i" "is_open r" "\<And>x. x \<in> set db \<Longrightarrow> (ir_id x = i \<and> is_open x) \<longleftrightarrow> x = r"
    by (rule open_row [OF assms(1) True]) blast
  let ?h = "\<lambda>r. if ir_id r = i \<and> is_open r then f r else r"
  have find: "find (\<lambda>x. intent_key x = k) (map ?h db)
      = (if k = intent_key r then Some (?h r) else find (\<lambda>x. intent_key x = k) db)" for k
    using assms(1,2) r by (intro find_map_at) (auto simp: log_ok_def keeps_identity_def)
  have db': "res = Inr ()" "db' = map ?h db" using True assms(3) by (simp_all add: update_open_def)
  have "log_of (map ?h db) k = ((log_of db)(intent_key r \<mapsto> log_entry (f r))) k" for k
    unfolding log_of_def find using r(2,3) by simp
  then have "log_of db' = (log_of db)(intent_key r \<mapsto> log_entry (f r))" unfolding db'(2) by (rule ext)
  then show thesis by (rule changed [OF db'(1) r(1-3)])
qed

subsection \<open>The operations on the log\<close>

lemma row_id_shown [simp]: "in_i64 i \<Longrightarrow> row_id operation (show_int i) = Inr i"
  by (simp add: row_id_def)

lemma row_id_range: "row_id operation t = Inr i \<Longrightarrow> in_i64 i"
  by (auto simp: row_id_def parse_i64_def split: option.splits if_splits)

lemma begin_text_ok:
  assumes "fresh_rowid rowid" and "log_ok db"
  shows "log_ok (snd (begin_text rowid now i db))"
  using assms
  by (auto simp: begin_text_def log_ok_def fresh_rowid_def row_ok_def intents_check_def find_intent_def find_None_iff
      intent_key_def split: option.split)

definition answer_of :: "intent \<Rightarrow> string \<times> string \<times> 'o intent_state \<Rightarrow> 'o begun" where
  "answer_of i e =
     (case e of (t, hash, st) \<Rightarrow>
        if hash \<noteq> in_input_hash i then Conflict t
        else (case st of Open \<Rightarrow> Uncertain t | Done outcome \<Rightarrow> Finished outcome | Closed basis \<Rightarrow> Resolved t basis))"

abbreviation key_of :: "intent \<Rightarrow> string \<times> string" where
  "key_of i \<equiv> (in_tenant i, in_idempotency_key i)"

lemma begin_text_known:
  assumes "log_ok db" and "log_of db (key_of i) = Some e"
  shows "begin_text rowid now i db = (if 2 ^ 63 \<le> uint (in_deadline_ms i) then Inl (ContractFailure, ''begin'')
    else Inr (answer_of i e), db)"
proof -
  from assms(2) obtain r where r: "find_intent (in_tenant i) (in_idempotency_key i) db = Some r" "e = log_entry r"
    by (auto simp: log_of_def find_intent_key)
  then have "r \<in> set db" by (auto simp: find_intent_def find_Some_iff)
  with assms(1) have "row_ok r" by (auto simp: log_ok_def list_all_iff)
  with r show ?thesis
    by (auto simp: begin_text_def answer_of_def log_entry_def row_ok_def split: option.split)
qed

lemma begin_text_unknown:
  assumes "log_of db (key_of i) = None"
  shows "(\<exists>e. begin_text rowid now i db = (Inl e, db))
    \<or> (\<exists>t db'. begin_text rowid now i db = (Inr (New t), db')
         \<and> log_of db' = (log_of db)(key_of i \<mapsto> (t, in_input_hash i, Open)))"
proof -
  have none: "find_intent (in_tenant i) (in_idempotency_key i) db = None"
    using assms by (simp add: log_of_def find_intent_key)
  have app: "log_of (db @ [r]) = (log_of db)(key_of i \<mapsto> log_entry r)" if "intent_key r = key_of i" for r
    using that none by (auto simp: log_of_def find_append find_intent_key fun_eq_iff split: option.split)
  show ?thesis
    by (auto simp: begin_text_def none app intent_key_def log_entry_def split: option.split)
qed

lemma release_log:
  assumes "log_ok db" and "release_intent t db = (res, db')"
  obtains (refused) e where "res = Inl e" "db' = db"
  | (changed) r where "res = Inr ()" "r \<in> set db" "row_id ''release'' t = Inr (ir_id r)" "is_open r"
      "log_of db' = (log_of db)(intent_key r := None)" "log_ok db'"
proof (cases "row_id ''release'' t")
  case (Inl e)
  with assms(2) have "res = Inl e" "db' = db" by (simp_all add: release_intent_def)
  then show thesis by (rule refused)
next
  case (Inr i)
  show thesis
  proof (cases "list_ex (\<lambda>r. ir_id r = i \<and> is_open r) db")
    case False
    with Inr assms(2) refused show thesis by (auto simp: release_intent_def)
  next
    case True
    obtain r where r: "r \<in> set db" "ir_id r = i" "is_open r" "\<And>x. x \<in> set db \<Longrightarrow> (ir_id x = i \<and> is_open x) \<longleftrightarrow> x = r"
      by (rule open_row [OF assms(1) True]) blast
    let ?P = "\<lambda>r. \<not> (ir_id r = i \<and> is_open r)"
    have db': "res = Inr ()" "db' = filter ?P db" using True Inr assms(2) by (simp_all add: release_intent_def)
    have find: "find (\<lambda>x. intent_key x = k) (filter ?P db)
        = (if k = intent_key r then None else find (\<lambda>x. intent_key x = k) db)" for k
      using assms(1) r by (intro find_filter_at) (simp_all add: log_ok_def)
    have "log_of db' = (log_of db)(intent_key r := None)"
      unfolding db'(2) log_of_def find by (simp add: fun_eq_iff)
    moreover have "log_ok db'"
      using assms(1) unfolding db'(2) by (auto simp: log_ok_def distinct_map_filter list_all_iff)
    ultimately show thesis using changed db'(1) r Inr by blast
  qed
qed

lemma keeps_identity_updates [simp]:
  "keeps_identity (\<lambda>r. r\<lparr>ir_finished_at := a, ir_outcome := b\<rparr>)"
  "keeps_identity (\<lambda>r. r\<lparr>ir_resolved_basis := c, ir_resolved_at := d\<rparr>)"
  by (simp_all add: keeps_identity_def intent_key_def)

lemma finish_ok: "log_ok db \<Longrightarrow> log_ok (snd (finish_text_in now t out db))"
  by (auto simp: finish_text_in_def row_ok_def is_open_def intents_check_def split: sum.split option.split
      intro!: update_open_ok)

lemma resolve_ok: "log_ok db \<Longrightarrow> log_ok (snd (resolve_intent now t basis db))"
  by (auto simp: resolve_intent_def row_ok_def is_open_def intents_check_def split: sum.split option.split
      intro!: update_open_ok)

lemma finish_log:
  assumes "log_ok db" and "finish_text_in now t out db = (res, db')"
  obtains (refused) e where "res = Inl e" "db' = db"
  | (changed) r where "res = Inr ()" "r \<in> set db" "row_id ''finish'' t = Inr (ir_id r)" "is_open r"
      "log_of db' = (log_of db)(intent_key r \<mapsto> (show_int (ir_id r), ir_input_hash r, Done out))"
proof (cases "row_id ''finish'' t")
  case (Inl e)
  with assms(2) have "res = Inl e" "db' = db" by (simp_all add: finish_text_in_def)
  then show thesis by (rule refused)
next
  case (Inr i)
  show thesis
  proof (cases now)
    case None
    with Inr assms(2) have "res = Inl (StorageFailure, ''finish'')" "db' = db" by (simp_all add: finish_text_in_def)
    then show thesis by (rule refused)
  next
    case (Some n)
    with Inr assms(2) have "update_open ''finish'' i (\<lambda>r. r\<lparr>ir_finished_at := Some n, ir_outcome := Some out\<rparr>) db = (res, db')"
      by (simp add: finish_text_in_def)
    then show thesis
      by (rule update_open_log [OF assms(1) keeps_identity_updates(1)])
        (use refused changed Inr in \<open>auto simp: log_entry_def\<close>)
  qed
qed

lemma resolve_log:
  assumes "log_ok db" and "resolve_intent now t basis db = (res, db')"
  obtains (refused) e where "res = Inl e" "db' = db"
  | (changed) r where "res = Inr ()" "r \<in> set db" "row_id ''resolve'' t = Inr (ir_id r)" "is_open r"
      "log_of db' = (log_of db)(intent_key r \<mapsto> (show_int (ir_id r), ir_input_hash r, Closed basis))"
proof (cases "row_id ''resolve'' t")
  case (Inl e)
  with assms(2) have "res = Inl e" "db' = db" by (simp_all add: resolve_intent_def)
  then show thesis by (rule refused)
next
  case (Inr i)
  show thesis
  proof (cases now)
    case None
    with Inr assms(2) have "res = Inl (StorageFailure, ''resolve'')" "db' = db" by (simp_all add: resolve_intent_def)
    then show thesis by (rule refused)
  next
    case (Some n)
    let ?f = "\<lambda>r. r\<lparr>ir_resolved_basis := Some (basis_as_str basis), ir_resolved_at := Some n\<rparr>"
    from Some Inr assms(2) have "update_open ''resolve'' i ?f db = (res, db')" by (simp add: resolve_intent_def)
    then show thesis
    proof (cases rule: update_open_log [OF assms(1) keeps_identity_updates(2), consumes 1, case_names refused changed])
      case (refused e)
      then show thesis using that(1) by blast
    next
      case (changed r)
      have "ir_outcome r = None"
        using changed(2,4) assms(1) by (auto simp: log_ok_def list_all_iff row_ok_def intents_check_def is_open_def)
      then have "log_entry (?f r) = (show_int (ir_id r), ir_input_hash r, Closed basis)" by (simp add: log_entry_def)
      with changed Inr that(2) show thesis by simp
    qed
  qed
qed

section \<open>The contract as an interface\<close>

text \<open>
  What a caller relies on of an intent store, over the log it holds: a new key is recorded open, a
  known key is left alone, and only an open record is finished, released or resolved. A store chooses
  the key it records an intent under and the intents it takes.
\<close>

locale intent_contract =
  fixes ok :: "'s \<Rightarrow> bool" and log :: "'s \<Rightarrow> 'o intent_log"
    and key :: "intent \<Rightarrow> string \<times> string" and valid :: "intent \<Rightarrow> bool"
    and begin_op :: "int option \<Rightarrow> intent \<Rightarrow> 's \<Rightarrow> (store_error, 'a begun) result \<times> 's"
    and finish_op :: "int option \<Rightarrow> string \<Rightarrow> 'a \<Rightarrow> 's \<Rightarrow> (store_error, unit) result \<times> 's"
    and release_op :: "string \<Rightarrow> 's \<Rightarrow> (store_error, unit) result \<times> 's"
    and resolve_op :: "int option \<Rightarrow> string \<Rightarrow> operator_action_basis \<Rightarrow> 's \<Rightarrow> (store_error, unit) result \<times> 's"
  assumes begin_ok: "ok s \<Longrightarrow> valid i \<Longrightarrow> ok (snd (begin_op now i s))"
    and finish_op_ok: "ok s \<Longrightarrow> ok (snd (finish_op now t out s))"
    and release_ok: "ok s \<Longrightarrow> ok (snd (release_op t s))"
    and resolve_op_ok: "ok s \<Longrightarrow> ok (snd (resolve_op now t basis s))"
    and id_names: "ok s \<Longrightarrow> log s k = Some (t, h, x) \<Longrightarrow> log s k' = Some (t, h', x') \<Longrightarrow> k = k'"
    and begin_known: "ok s \<Longrightarrow> valid i \<Longrightarrow> log s (key i) = Some e \<Longrightarrow>
      \<exists>r. begin_op now i s = (r, s) \<and> (\<forall>t. r \<noteq> Inr (New t))"
    and begin_unknown: "ok s \<Longrightarrow> valid i \<Longrightarrow> log s (key i) = None \<Longrightarrow>
      (\<exists>e. begin_op now i s = (Inl e, s))
      \<or> (\<exists>t s'. begin_op now i s = (Inr (New t), s') \<and> log s' = (log s)(key i \<mapsto> (t, in_input_hash i, Open)))"
    and finish_law: "ok s \<Longrightarrow> log s k = Some (t, h, x) \<Longrightarrow> finish_op now t out s = (r, s') \<Longrightarrow>
      (\<exists>e. r = Inl e) \<and> s' = s \<or> (\<exists>y. r = Inr () \<and> x = Open \<and> y \<noteq> Open \<and> log s' = (log s)(k \<mapsto> (t, h, y)))"
    and release_law: "ok s \<Longrightarrow> log s k = Some (t, h, x) \<Longrightarrow> release_op t s = (r, s') \<Longrightarrow>
      (\<exists>e. r = Inl e) \<and> s' = s \<or> r = Inr () \<and> x = Open \<and> log s' = (log s)(k := None)"
    and resolve_law: "ok s \<Longrightarrow> resolve_op now t basis s = (r, s') \<Longrightarrow>
      s' = s \<or> (\<exists>k t' h. log s k = Some (t', h, Open) \<and> log s' = (log s)(k \<mapsto> (t', h, Closed basis)))"

text \<open>An id that the log shows is the id of its row.\<close>

lemma named_row:
  assumes "log_ok db" and "log_of db k = Some (t, h, x)" and "r \<in> set db" and "row_id operation t = Inr (ir_id r)"
  shows "intent_key r = k \<and> t = show_int (ir_id r) \<and> h = ir_input_hash r \<and> x = row_state r"
proof -
  obtain r' where r': "r' \<in> set db" "intent_key r' = k" "(t, h, x) = log_entry r'" using log_member [OF assms(2)] .
  then have "ir_id r' = ir_id r" using assms(4) log_ok_row(1) [OF assms(1) r'(1)] by (simp add: log_entry_def)
  with assms(1,3) r'(1) have "r' = r" by (auto simp: log_ok_def distinct_map inj_on_def)
  with r' show ?thesis by (simp add: log_entry_def)
qed

text \<open>The store with JSON outcomes meets the contract, for every choice of fresh row ids.\<close>

lemma sqlite_contract:
  assumes "fresh_rowid rowid"
  shows "intent_contract log_ok log_of key_of (\<lambda>_. True) (begin_intent parse rowid) (finish_intent to_text) release_intent resolve_intent"
proof
  fix s :: intent_db and now i t out basis r s' k h x e k' h' x'
  assume ok: "log_ok s"
  show "log_ok (snd (begin_intent parse rowid now i s))"
    using begin_text_ok [OF assms ok, of now i]
    by (auto simp: begin_intent_def case_prod_beta split: sum.split begun.split option.split)
  show "log_ok (snd (finish_intent to_text now t out s))" unfolding finish_intent_def by (rule finish_ok [OF ok])
  show "log_ok (snd (resolve_intent now t basis s))" by (rule resolve_ok [OF ok])
  show "log_ok (snd (release_intent t s))"
    by (rule release_log [OF ok prod.collapse [symmetric]]) (use ok in simp_all)
  show "k = k'" if "log_of s k = Some (t, h, x)" "log_of s k' = Some (t, h', x')"
    by (rule log_id_inj [OF ok that])
  show "\<exists>r. begin_intent parse rowid now i s = (r, s) \<and> (\<forall>t. r \<noteq> Inr (New t))" if "log_of s (key_of i) = Some e"
    using begin_text_known [OF ok that, of rowid now]
    by (auto simp: begin_intent_def answer_of_def split: prod.split intent_state.split option.split)
  show "(\<exists>e. begin_intent parse rowid now i s = (Inl e, s)) \<or> (\<exists>t s'. begin_intent parse rowid now i s = (Inr (New t), s')
      \<and> log_of s' = (log_of s)(key_of i \<mapsto> (t, in_input_hash i, Open)))" if "log_of s (key_of i) = None"
    using begin_text_unknown [OF that, of rowid now] by (auto simp: begin_intent_def)
  show "(\<exists>e. r = Inl e) \<and> s' = s \<or> (\<exists>y. r = Inr () \<and> x = Open \<and> y \<noteq> Open \<and> log_of s' = (log_of s)(k \<mapsto> (t, h, y)))"
    if "log_of s k = Some (t, h, x)" "finish_intent to_text now t out s = (r, s')"
    using that(2) unfolding finish_intent_def
    by (cases rule: finish_log [OF ok, consumes 1]) (use named_row [OF ok that(1)] log_ok_row(2) [OF ok] in auto)
  show "(\<exists>e. r = Inl e) \<and> s' = s \<or> r = Inr () \<and> x = Open \<and> log_of s' = (log_of s)(k := None)"
    if "log_of s k = Some (t, h, x)" "release_intent t s = (r, s')"
    using that(2)
    by (cases rule: release_log [OF ok, consumes 1]) (use named_row [OF ok that(1)] log_ok_row(2) [OF ok] in auto)
  show "s' = s \<or> (\<exists>k t' h. log_of s k = Some (t', h, Open) \<and> log_of s' = (log_of s)(k \<mapsto> (t', h, Closed basis)))"
    if "resolve_intent now t basis s = (r, s')"
    using that
  proof (cases rule: resolve_log [OF ok, consumes 1, case_names refused changed])
    case (changed r)
    have "log_of s (intent_key r) = Some (show_int (ir_id r), ir_input_hash r, Open)"
      using log_row [OF ok changed(2)] log_ok_row(2) [OF ok changed(2)] changed(4)
      by (simp add: log_entry_def del: row_state.simps)
    with changed(5) show ?thesis by blast
  qed simp
qed

text \<open>The row id SQLite documents for a table without \<^verbatim>\<open>AUTOINCREMENT\<close>: one more than the largest in use.\<close>

definition max_rowid :: "intent_db \<Rightarrow> int option" where
  "max_rowid db =
     (if db = [] then Some 1
      else let m = Max (set (map ir_id db)) in if - (2 ^ 63) \<le> m + 1 \<and> m < 2 ^ 63 - 1 then Some (m + 1) else None)"

lemma max_rowid_fresh: "fresh_rowid max_rowid"
proof -
  have "m + 1 \<notin> ir_id ` set db" if "m = Max (ir_id ` set db)" for m and db :: intent_db
  proof
    assume "m + 1 \<in> ir_id ` set db"
    then have "m + 1 \<le> Max (ir_id ` set db)" by (intro Max_ge) simp_all
    with that show False by simp
  qed
  then show ?thesis by (auto simp: fresh_rowid_def max_rowid_def in_i64_def Let_def split: if_splits)
qed

interpretation sq: intent_contract log_ok log_of key_of "\<lambda>_. True" "begin_intent parse max_rowid" "finish_intent to_text" release_intent
    resolve_intent for parse to_text
  by (rule sqlite_contract [OF max_rowid_fresh])

section \<open>Histories of the table\<close>

inductive intent_op :: "(intent_db \<Rightarrow> int option) \<Rightarrow> intent_db \<Rightarrow> intent_db \<Rightarrow> bool" for rowid where
  o_begin: "intent_op rowid db (snd (begin_text rowid now i db))"
| o_finish: "intent_op rowid db (snd (finish_text_in now t out db))"
| o_release: "intent_op rowid db (snd (release_intent t db))"
| o_resolve: "intent_op rowid db (snd (resolve_intent now t basis db))"

text \<open>A record that is not open is never changed again.\<close>

lemma intent_op_final:
  assumes "intent_op rowid db db'" and "fresh_rowid rowid" and "log_ok db"
  shows "log_ok db' \<and> (\<forall>k t h x. log_of db k = Some (t, h, x) \<longrightarrow> x \<noteq> Open \<longrightarrow> log_of db' k = Some (t, h, x))"
  using assms(1)
proof cases
  case (o_begin now i)
  have "log_of (snd (begin_text rowid now i db)) k = log_of db k" if "log_of db k \<noteq> None" for k
  proof (cases "log_of db (key_of i)")
    case None
    with begin_text_unknown [OF None, of rowid now] that show ?thesis by auto
  next
    case (Some e)
    then show ?thesis using begin_text_known [OF assms(3) Some, of rowid now] by simp
  qed
  with o_begin begin_text_ok [OF assms(2,3)] show ?thesis by auto
next
  case (o_finish now t out)
  obtain res db1 where r: "finish_text_in now t out db = (res, db1)" by fastforce
  then show ?thesis
    by (cases rule: finish_log [OF assms(3), consumes 1])
      (use o_finish r finish_ok [OF assms(3), of now t out] log_row [OF assms(3)] log_ok_row(2) [OF assms(3)]
        in \<open>auto simp: log_entry_def simp del: row_state.simps\<close>)
next
  case (o_release t)
  obtain res db1 where r: "release_intent t db = (res, db1)" by fastforce
  then show ?thesis
    by (cases rule: release_log [OF assms(3), consumes 1])
      (use o_release r assms(3) log_row [OF assms(3)] log_ok_row(2) [OF assms(3)]
        in \<open>auto simp: log_entry_def simp del: row_state.simps\<close>)
next
  case (o_resolve now t basis)
  obtain res db1 where r: "resolve_intent now t basis db = (res, db1)" by fastforce
  then show ?thesis
    by (cases rule: resolve_log [OF assms(3), consumes 1])
      (use o_resolve r resolve_ok [OF assms(3), of now t basis] log_row [OF assms(3)] log_ok_row(2) [OF assms(3)]
        in \<open>auto simp: log_entry_def simp del: row_state.simps\<close>)
qed

lemma intent_ops_final:
  assumes "(intent_op rowid)\<^sup>*\<^sup>* db db'" and "fresh_rowid rowid" and "log_ok db"
    and "log_of db k = Some (t, h, x)" and "x \<noteq> Open"
  shows "log_ok db' \<and> log_of db' k = Some (t, h, x)"
  using assms(1)
proof (induction rule: rtranclp_induct)
  case base
  with assms show ?case by simp
next
  case (step y z)
  with intent_op_final [OF step.hyps(2) assms(2)] assms(5) show ?case by blast
qed

text \<open>
  C12. The outcome of a finished key. After an intent is finished with a text, and after any
  operations on the table that follow, under any ids and for any keys, the same key with the same
  input is answered with that text, byte for byte; with another input it is a conflict; and neither
  changes the table.
\<close>

theorem finished_key_answers:
  assumes "fresh_rowid rowid" and "log_ok db" and "log_of db (key_of i) = Some (t, hash, Open)"
    and "finish_text_in now t out db = (Inr (), db1)" and "(intent_op rowid)\<^sup>*\<^sup>* db1 db2"
    and "uint (in_deadline_ms i) < 2 ^ 63"
  shows "begin_text rowid later i db2 = (Inr (if in_input_hash i = hash then Finished out else Conflict t), db2)"
proof -
  have "log_of db1 (key_of i) = Some (t, hash, Done out)"
    using assms(4)
    by (cases rule: finish_log [OF assms(2), consumes 1]) (use named_row [OF assms(2,3)] in auto)
  moreover have "log_ok db1" using finish_ok [OF assms(2), of now t out] assms(4) by simp
  ultimately have "log_ok db2 \<and> log_of db2 (key_of i) = Some (t, hash, Done out)"
    using intent_ops_final [OF assms(5,1)] by blast
  then show ?thesis using begin_text_known [of db2 i _ rowid later] assms(6) by (auto simp: answer_of_def)
qed

section \<open>A sample log\<close>

definition sample_intent :: "string \<Rightarrow> intent" where
  "sample_intent key = \<lparr>in_tenant = ''acme'', in_release = ''r1'', in_package = ''pkg'', in_operation = ''create'',
     in_idempotency_key = key, in_input_hash = ''h'', in_deadline_ms = 1000\<rparr>"

definition sample_begun :: intent_db where
  "sample_begun = snd (begin_text max_rowid (Some 5) (sample_intent ''k1'') [])"

lemma show_one: "show_int 1 = ''1''"
  by (simp add: show_int_def show_nat.simps digit_char_def char_of_def bit_0)

lemma row_id_one: "row_id operation ''1'' = Inr 1"
  using row_id_shown [of 1 operation] by (simp add: show_one in_i64_def)

lemmas intent_eval = begin_text_def find_intent_def sample_intent_def max_rowid_def show_one finish_text_in_def
  release_intent_def resolve_intent_def update_open_def is_open_def row_id_one

lemma sample_begun_ok: "log_ok sample_begun"
  unfolding sample_begun_def by (rule begin_text_ok [OF max_rowid_fresh]) (simp add: log_ok_def)

theorem finished_key_answers_witness:
  "begin_text max_rowid (Some 9) (sample_intent ''k1'') (snd (finish_text_in (Some 7) ''1'' ''[]'' sample_begun))
     = (Inr (Finished ''[]''), snd (finish_text_in (Some 7) ''1'' ''[]'' sample_begun))"
proof -
  have entry: "log_of sample_begun (key_of (sample_intent ''k1'')) = Some (''1'', ''h'', Open)"
    by (simp add: sample_begun_def intent_eval log_of_def intent_key_def log_entry_def)
  have fin: "finish_text_in (Some 7) ''1'' ''[]'' sample_begun
      = (Inr (), snd (finish_text_in (Some 7) ''1'' ''[]'' sample_begun))"
    by (simp add: sample_begun_def intent_eval)
  from finished_key_answers [OF max_rowid_fresh sample_begun_ok entry fin rtranclp.rtrancl_refl, of "Some 9"]
  show ?thesis by (simp add: sample_intent_def)
qed


end
