(* ===== verification/Intent_Call.thy ===== *)
theory Intent_Call
  imports Intent_Store
begin

text \<open>
  The logged call of one route (\<^verbatim>\<open>crates/platform/engine/src/operation/intent.rs\<close>): reading the request
  elements, claiming the key of an element, and recording what its export returned. Between the claim
  and the record the export runs, and other calls and an operator may act on the log; a world of
  running calls interleaves them. The canonical form of a route, the digest of a request and the
  export are parameters. The host transaction of a call with SQL, its deadline and the merge of the
  answers are left out.
\<close>

section \<open>The request elements\<close>

definition REQUEST_ID :: string where "REQUEST_ID = ''request_id''"

record request_element =
  re_request_id :: string
  re_key :: string
  re_value :: json

fun split_dots :: "string \<Rightarrow> string list" where
  "split_dots [] = [[]]"
| "split_dots (c # s) =
     (if c = CHR ''.'' then [] # split_dots s
      else (case split_dots s of [] \<Rightarrow> [[c]] | w # ws \<Rightarrow> (c # w) # ws))"

fun get_path :: "json \<Rightarrow> string list \<Rightarrow> json option" where
  "get_path v [] = Some v"
| "get_path v (name # names) = (case json_get v name of None \<Rightarrow> None | Some w \<Rightarrow> get_path w names)"

fun read_elements :: "string option \<Rightarrow> string list \<Rightarrow> json list \<Rightarrow> (string, request_element list) result" where
  "read_elements key_field keys [] = Inr []"
| "read_elements key_field keys (v # vs) =
     (case Option.bind (json_get v REQUEST_ID) as_str of
        None \<Rightarrow> Inl ''a request element has no request_id''
      | Some request_id \<Rightarrow>
          (case (case key_field of
                   Some field \<Rightarrow> Option.bind (get_path v (split_dots field)) as_str
                 | None \<Rightarrow> Some request_id) of
             None \<Rightarrow> Inl (''request element '' @ request_id @ '' has no '' @ the key_field)
           | Some key \<Rightarrow>
               if key \<in> set keys then Inl (''the key '' @ key @ '' repeats within one call'')
               else
                 (case read_elements key_field (key # keys) vs of
                    Inl e \<Rightarrow> Inl e
                  | Inr es \<Rightarrow> Inr (\<lparr>re_request_id = request_id, re_key = key, re_value = v\<rparr> # es))))"

definition request_elements :: "json \<Rightarrow> string option \<Rightarrow> (string, request_element list) result" where
  "request_elements input key_field =
     (case as_array input of
        None \<Rightarrow> Inl ''the input is not a request element list''
      | Some vs \<Rightarrow> read_elements key_field [] vs)"

definition members_remove :: "string \<Rightarrow> (string \<times> json) list \<Rightarrow> (string \<times> json) list" where
  "members_remove k m = filter (\<lambda>kv. fst kv \<noteq> k) m"

definition request_element_hash :: "(json \<Rightarrow> string) \<Rightarrow> json \<Rightarrow> string" where
  "request_element_hash sha v =
     sha (case v of JObject m \<Rightarrow> JObject (members_remove REQUEST_ID m) | _ \<Rightarrow> v)"

section \<open>Answers\<close>

definition refusal :: "string \<Rightarrow> string \<Rightarrow> json \<Rightarrow> json" where
  "refusal code message detail =
     JObject [(''error'', JObject [(''code'', JString code), (''message'', JString message), (''detail'', detail)])]"

definition uncertain_body :: "string \<Rightarrow> json" where
  "uncertain_body t = refusal ''intent-uncertain''
     (''intent '' @ t @ '' began and never finished; an operator resolves it'') (JObject [(''intent'', JString t)])"

text \<open>The body of a failed call; \<^const>\<open>None\<close> is the panic on a cancelled one.\<close>

definition detail_body :: "guest_detail \<Rightarrow> json" where
  "detail_body d = JObject [(''error'', JObject [
     (''code'', (case gd_code d of None \<Rightarrow> JNull | Some c \<Rightarrow> JString c)), (''message'', JString (gd_message d))])]"

fun failed_body :: "guest_error \<Rightarrow> json option" where
  "failed_body (GRetryable d) = Some (detail_body d)"
| "failed_body (GTerminal d) = Some (detail_body d)"
| "failed_body (GInvalidInput d) = Some (detail_body d)"
| "failed_body (GRateLimited d _) = Some (detail_body d)"
| "failed_body GCancelled = None"

datatype settled =
    AnswerElement json "string option" bool "string option"
  | SettledCancelled
  | SettledFailed guest_error

definition plain_answer :: "json \<Rightarrow> settled" where
  "plain_answer body = AnswerElement body None False None"

section \<open>One request element\<close>

record intent_context =
  ic_tenant :: string
  ic_release :: string
  ic_package :: string
  ic_operation :: string
  ic_key_field :: "string option"
  ic_hashed :: "json \<Rightarrow> json"

text \<open>The claim of an element's key: the answer when nothing runs, or the id of the new intent.\<close>

definition element_intent :: "(json \<Rightarrow> string) \<Rightarrow> intent_context \<Rightarrow> u64 \<Rightarrow> request_element \<Rightarrow> intent" where
  "element_intent sha c deadline_ms e =
     \<lparr>in_tenant = ic_tenant c, in_release = ic_release c, in_package = ic_package c, in_operation = ic_operation c,
      in_idempotency_key = re_key e, in_input_hash = request_element_hash sha (ic_hashed c (re_value e)),
      in_deadline_ms = deadline_ms\<rparr>"

definition claim_answer :: "intent_context \<Rightarrow> request_element \<Rightarrow> json begun \<Rightarrow> settled + string" where
  "claim_answer c e begun =
     (case begun of
        New t \<Rightarrow> Inr t
      | Finished body \<Rightarrow> Inl (plain_answer body)
      | Uncertain t \<Rightarrow> Inl (plain_answer (uncertain_body t))
      | Resolved t basis \<Rightarrow> Inl (plain_answer (refusal ''intent-resolved''
          (''an operator resolved intent '' @ t @ '' by '' @ basis_as_str basis @ ''; send a new key'')
          (JObject [(''intent'', JString t), (''basis'', JString (basis_as_str basis))])))
      | Conflict t \<Rightarrow> Inl (plain_answer (refusal ''idempotency_conflict''
          (''the key '' @ re_key e @ '' repeats with another input'')
          (JObject [(''field'', JString (case ic_key_field c of None \<Rightarrow> REQUEST_ID | Some f \<Rightarrow> f)),
            (''intent'', JString t)]))))"

fun as_maps :: "json list \<Rightarrow> (string \<times> json) list list option" where
  "as_maps [] = Some []"
| "as_maps (JObject m # vs) = map_option (Cons m) (as_maps vs)"
| "as_maps (_ # vs) = None"

definition read_results :: "(string \<Rightarrow> json option) \<Rightarrow> string \<Rightarrow> (string \<times> json) list list option" where
  "read_results parse text = Option.bind (Option.bind (parse text) as_array) as_maps"

fun find_body :: "string \<Rightarrow> (string \<times> json) list list \<Rightarrow> json option" where
  "find_body request_id [] = None"
| "find_body request_id (m # ms) =
     (if Option.bind (map_of m REQUEST_ID) as_str = Some request_id
      then Some (JObject (members_remove REQUEST_ID m)) else find_body request_id ms)"

text \<open>A store, as the call sees it.\<close>

record 's intent_ops =
  io_begin :: "int option \<Rightarrow> intent \<Rightarrow> 's \<Rightarrow> (store_error, json begun) result \<times> 's"
  io_finish :: "int option \<Rightarrow> string \<Rightarrow> json \<Rightarrow> 's \<Rightarrow> (store_error, unit) result \<times> 's"
  io_release :: "string \<Rightarrow> 's \<Rightarrow> (store_error, unit) result \<times> 's"

datatype call_error = StoreErr store_error | HostErr string | NoResultList

text \<open>What the return of an export asks of the store, and the answer after it.\<close>

datatype decision =
    LeaveOpen "(call_error, settled) result"
  | ReleaseThen settled
  | FinishThen json settled

definition decide ::
    "(string \<Rightarrow> json option) \<Rightarrow> nat \<Rightarrow> string \<Rightarrow> bool \<Rightarrow> string \<Rightarrow> (string, (guest_error, emission) result) result
       \<Rightarrow> decision" where
  "decide parse whole request_id transacted t outcome =
     (case outcome of
        Inl e \<Rightarrow> LeaveOpen (Inl (HostErr e))
      | Inr (Inl error) \<Rightarrow>
          (case failed_body error of
             None \<Rightarrow> LeaveOpen (Inr SettledCancelled)
           | Some body \<Rightarrow> ReleaseThen (if whole = 1 then SettledFailed error else plain_answer body))
      | Inr (Inr emission) \<Rightarrow>
          (case read_results parse (em_payload emission) of
             None \<Rightarrow> LeaveOpen (Inl NoResultList)
           | Some results \<Rightarrow>
               (case find_body request_id results of
                  None \<Rightarrow>
                    if \<not> transacted then LeaveOpen (Inr (plain_answer (uncertain_body t)))
                    else ReleaseThen (plain_answer (refusal ''internal_error''
                      (''the export answered nothing for request element '' @ request_id) JNull))
                | Some body \<Rightarrow>
                    if json_get body ''error'' \<noteq> None then ReleaseThen (plain_answer body)
                    else FinishThen body (AnswerElement body (Some t) True (em_port emission)))))"

definition record_element ::
    "'s intent_ops \<Rightarrow> int option \<Rightarrow> string \<Rightarrow> decision \<Rightarrow> 's \<Rightarrow> (call_error, settled) result \<times> 's" where
  "record_element ops now t d s =
     (case d of
        LeaveOpen r \<Rightarrow> (r, s)
      | ReleaseThen a \<Rightarrow>
          (case io_release ops t s of (Inl e, s') \<Rightarrow> (Inl (StoreErr e), s') | (Inr _, s') \<Rightarrow> (Inr a, s'))
      | FinishThen body a \<Rightarrow>
          (case io_finish ops now t body s of (Inl e, s') \<Rightarrow> (Inl (StoreErr e), s') | (Inr _, s') \<Rightarrow> (Inr a, s')))"

text \<open>
  The whole element, when nothing else acts on the log while its export runs. The export may work on
  what holds the log: a host transaction holds the application's tables beside it.
\<close>

definition settle_request_element ::
    "'s intent_ops \<Rightarrow> (string \<Rightarrow> json option) \<Rightarrow> (json \<Rightarrow> string) \<Rightarrow> intent_context \<Rightarrow> u64 \<Rightarrow> nat \<Rightarrow> bool \<Rightarrow> int option \<Rightarrow> int option
       \<Rightarrow> (json \<Rightarrow> 's \<Rightarrow> (string, (guest_error, emission) result) result \<times> 's) \<Rightarrow> request_element \<Rightarrow> 's
       \<Rightarrow> (call_error, settled) result \<times> 's" where
  "settle_request_element ops parse sha c deadline_ms whole transacted begun_at ended_at export e s =
     (case io_begin ops begun_at (element_intent sha c deadline_ms e) s of
        (Inl err, s') \<Rightarrow> (Inl (StoreErr err), s')
      | (Inr begun, s') \<Rightarrow>
          (case claim_answer c e begun of
             Inl a \<Rightarrow> (Inr a, s')
           | Inr t \<Rightarrow>
               (case export (JArray [re_value e]) s' of
                  (outcome, s'') \<Rightarrow>
                    record_element ops ended_at t (decide parse whole (re_request_id e) transacted t outcome) s'')))"

section \<open>Interleaved calls\<close>

text \<open>
  The world of the calls on one store: the calls whose export runs, with the id and the key of their
  intent, and for each key how often its export was started, how often its record was released, and
  how often it was claimed by a call that never learnt of it.
\<close>

record 's world =
  wd_store :: 's
  wd_running :: "(string \<times> string \<times> string) list"
  wd_runs :: "string \<times> string \<Rightarrow> nat"
  wd_freed :: "string \<times> string \<Rightarrow> nat"
  wd_lost :: "string \<times> string \<Rightarrow> nat"

definition bump :: "'k \<Rightarrow> ('k \<Rightarrow> nat) \<Rightarrow> 'k \<Rightarrow> nat" where
  "bump k f = f(k := f k + 1)"

definition frees :: "decision \<Rightarrow> (call_error, settled) result \<Rightarrow> bool" where
  "frees d r \<longleftrightarrow> (case d of ReleaseThen _ \<Rightarrow> (\<exists>a. r = Inr a) | _ \<Rightarrow> False)"

inductive world_step ::
    "(intent \<Rightarrow> string \<times> string) \<Rightarrow> (intent \<Rightarrow> bool) \<Rightarrow> 's intent_ops
       \<Rightarrow> (int option \<Rightarrow> string \<Rightarrow> operator_action_basis \<Rightarrow> 's \<Rightarrow> (store_error, unit) result \<times> 's)
       \<Rightarrow> 's world \<Rightarrow> 's world \<Rightarrow> bool" for key valid ops resolve where
  w_start: "valid i \<Longrightarrow> io_begin ops now i (wd_store w) = (Inr (New t), s') \<Longrightarrow>
    world_step key valid ops resolve w
      (w\<lparr>wd_store := s', wd_running := (t, key i) # wd_running w, wd_runs := bump (key i) (wd_runs w)\<rparr>)"
| w_lost: "valid i \<Longrightarrow> io_begin ops now i (wd_store w) = (Inr (New t), s') \<Longrightarrow>
    world_step key valid ops resolve w (w\<lparr>wd_store := s', wd_lost := bump (key i) (wd_lost w)\<rparr>)"
| w_answer: "valid i \<Longrightarrow> io_begin ops now i (wd_store w) = (r, s') \<Longrightarrow> (\<forall>t. r \<noteq> Inr (New t)) \<Longrightarrow>
    world_step key valid ops resolve w (w\<lparr>wd_store := s'\<rparr>)"
| w_record: "(t, k) \<in> set (wd_running w) \<Longrightarrow> record_element ops now t d (wd_store w) = (r, s') \<Longrightarrow>
    world_step key valid ops resolve w (w\<lparr>wd_store := s', wd_running := remove1 (t, k) (wd_running w),
      wd_freed := (if frees d r then bump k (wd_freed w) else wd_freed w)\<rparr>)"
| w_crash: "(t, k) \<in> set (wd_running w) \<Longrightarrow>
    world_step key valid ops resolve w (w\<lparr>wd_running := remove1 (t, k) (wd_running w)\<rparr>)"
| w_resolve: "resolve now t basis (wd_store w) = (r, s') \<Longrightarrow> world_step key valid ops resolve w (w\<lparr>wd_store := s'\<rparr>)"

text \<open>
  The account of a world over a log: a key was claimed, by a call that started its export or by one that
  never learnt of it, once for each release of it and once more for the record that stands; a running
  call has its record, and no two run for one key.
\<close>

definition accounted :: "('s \<Rightarrow> 'o intent_log) \<Rightarrow> 's world \<Rightarrow> bool" where
  "accounted lg w \<longleftrightarrow>
     (\<forall>k. wd_runs w k + wd_lost w k = wd_freed w k + (if lg (wd_store w) k = None then 0 else 1))
     \<and> distinct (map snd (wd_running w))
     \<and> (\<forall>(t, k) \<in> set (wd_running w). \<exists>h x. lg (wd_store w) k = Some (t, h, x))"

lemma accountedD:
  assumes "accounted lg w"
  shows "wd_runs w k + wd_lost w k = wd_freed w k + (if lg (wd_store w) k = None then 0 else 1)"
    and "distinct (map snd (wd_running w))"
    and "(t, k) \<in> set (wd_running w) \<Longrightarrow> \<exists>h x. lg (wd_store w) k = Some (t, h, x)"
  using assms unfolding accounted_def by blast+

lemma accountedI:
  assumes "\<And>k. wd_runs w k + wd_lost w k = wd_freed w k + (if lg (wd_store w) k = None then 0 else 1)"
    and "distinct (map snd (wd_running w))"
    and "\<And>t k. (t, k) \<in> set (wd_running w) \<Longrightarrow> \<exists>h x. lg (wd_store w) k = Some (t, h, x)"
  shows "accounted lg w"
  using assms unfolding accounted_def by blast

lemma distinct_snd_remove1:
  assumes "distinct (map snd xs)" and "(t, k) \<in> set xs"
  shows "distinct (map snd (remove1 (t, k) xs))" and "(t', k') \<in> set (remove1 (t, k) xs) \<Longrightarrow> k' \<noteq> k"
proof -
  have d: "distinct xs" "inj_on snd (set xs)" using assms(1) by (simp_all add: distinct_map)
  then show "distinct (map snd (remove1 (t, k) xs))" by (simp add: distinct_map inj_on_diff)
  show "k' \<noteq> k" if "(t', k') \<in> set (remove1 (t, k) xs)"
  proof
    assume "k' = k"
    moreover have "(t', k') \<in> set xs" "(t', k') \<noteq> (t, k)" using that d(1) by simp_all
    ultimately show False using inj_onD [OF d(2) _ _ assms(2), of "(t', k')"] by simp
  qed
qed

text \<open>A call that stops leaves an account whose other keys are as they were.\<close>

lemma accounted_stop:
  assumes "accounted lg w" and "(t, k) \<in> set (wd_running w)"
    and "\<And>j. j \<noteq> k \<Longrightarrow> lg s' j = lg (wd_store w) j"
    and "freed k + (if lg s' k = None then 0 else 1) = wd_runs w k + wd_lost w k" and "\<And>j. j \<noteq> k \<Longrightarrow> freed j = wd_freed w j"
  shows "accounted lg (w\<lparr>wd_store := s', wd_running := remove1 (t, k) (wd_running w), wd_freed := freed\<rparr>)"
    (is "accounted lg ?w")
proof (rule accountedI)
  note rest = distinct_snd_remove1 [OF accountedD(2) [OF assms(1)] assms(2)]
  show "distinct (map snd (wd_running ?w))" using rest(1) by simp
  show "wd_runs ?w j + wd_lost ?w j = wd_freed ?w j + (if lg (wd_store ?w) j = None then 0 else 1)" for j
    using accountedD(1) [OF assms(1), of j] assms(3,4,5) by (cases "j = k") simp_all
  fix u j
  assume "(u, j) \<in> set (wd_running ?w)"
  then have j: "(u, j) \<in> set (remove1 (t, k) (wd_running w))" by simp
  then have "(u, j) \<in> set (wd_running w)" using notin_set_remove1 by fastforce
  with assms(3) rest(2) [OF j] accountedD(3) [OF assms(1)] show "\<exists>h x. lg (wd_store ?w) j = Some (u, h, x)" by simp
qed

context intent_contract
begin

lemma start_accounted:
  assumes "ok (wd_store w)" and "accounted log w" and "valid i" and "begin_op now i (wd_store w) = (Inr (New t), s')"
  shows "accounted log (w\<lparr>wd_store := s', wd_running := (t, key i) # wd_running w,
      wd_runs := bump (key i) (wd_runs w)\<rparr>)" (is "accounted log ?w")
    and "accounted log (w\<lparr>wd_store := s', wd_lost := bump (key i) (wd_lost w)\<rparr>)" (is "accounted log ?v")
proof -
  have none: "log (wd_store w) (key i) = None"
    using begin_known [OF assms(1,3), of _ now] assms(4) by (cases "log (wd_store w) (key i)") auto
  then have lg: "log s' = (log (wd_store w))(key i \<mapsto> (t, in_input_hash i, Open))"
    using begin_unknown [OF assms(1,3) none, of now] assms(4) by auto
  have new: "key i \<notin> snd ` set (wd_running w)"
    using accountedD(3) [OF assms(2)] none by fastforce
  show "accounted log ?w"
  proof (rule accountedI)
    show "wd_runs ?w k + wd_lost ?w k = wd_freed ?w k + (if log (wd_store ?w) k = None then 0 else 1)" for k
      using accountedD(1) [OF assms(2), of k] none by (cases "k = key i") (simp_all add: lg bump_def)
    show "distinct (map snd (wd_running ?w))" using accountedD(2) [OF assms(2)] new by simp
    show "\<exists>h x. log (wd_store ?w) k = Some (u, h, x)" if "(u, k) \<in> set (wd_running ?w)" for u k
      using that accountedD(3) [OF assms(2), of u k] new by (cases "k = key i") (force simp: lg)+
  qed
  show "accounted log ?v"
  proof (rule accountedI)
    show "wd_runs ?v k + wd_lost ?v k = wd_freed ?v k + (if log (wd_store ?v) k = None then 0 else 1)" for k
      using accountedD(1) [OF assms(2), of k] none by (cases "k = key i") (simp_all add: lg bump_def)
    show "distinct (map snd (wd_running ?v))" using accountedD(2) [OF assms(2)] by simp
    show "\<exists>h x. log (wd_store ?v) k = Some (u, h, x)" if "(u, k) \<in> set (wd_running ?v)" for u k
      using that accountedD(3) [OF assms(2), of u k] new by (cases "k = key i") (force simp: lg)+
  qed
qed

lemma answer_same:
  assumes "ok s" and "valid i" and "begin_op now i s = (r, s')" and "\<forall>t. r \<noteq> Inr (New t)"
  shows "s' = s"
proof (cases "log s (key i)")
  case None
  from begin_unknown [OF assms(1,2) this, of now] assms(3,4) show ?thesis by auto
next
  case (Some e)
  from begin_known [OF assms(1,2) this, of now] assms(3) show ?thesis by auto
qed

lemma resolve_accounted:
  assumes "ok (wd_store w)" and "accounted log w" and "resolve_op now t basis (wd_store w) = (r, s')"
  shows "accounted log (w\<lparr>wd_store := s'\<rparr>)" (is "accounted log ?w")
proof (rule accountedI)
  have lg: "log s' k = None \<longleftrightarrow> log (wd_store w) k = None"
    "log (wd_store w) k = Some (u, h, x) \<Longrightarrow> \<exists>y. log s' k = Some (u, h, y)" for k u h x
    using resolve_law [OF assms(1,3)] by (auto split: if_splits)
  show "wd_runs ?w k + wd_lost ?w k = wd_freed ?w k + (if log (wd_store ?w) k = None then 0 else 1)" for k
    using accountedD(1) [OF assms(2), of k] lg(1) by simp
  show "distinct (map snd (wd_running ?w))" using accountedD(2) [OF assms(2)] by simp
  show "\<exists>h x. log (wd_store ?w) k = Some (u, h, x)" if "(u, k) \<in> set (wd_running ?w)" for u k
    using accountedD(3) [OF assms(2), of u k] that lg(2) by fastforce
qed

end

text \<open>The contract of a store whose outcomes are JSON values, which is the one a call uses.\<close>

locale json_intents = intent_contract ok log key valid begin_op finish_op release_op resolve_op
  for ok :: "'s \<Rightarrow> bool" and log :: "'s \<Rightarrow> 'o intent_log"
    and key :: "intent \<Rightarrow> string \<times> string" and valid :: "intent \<Rightarrow> bool"
    and begin_op :: "int option \<Rightarrow> intent \<Rightarrow> 's \<Rightarrow> (store_error, json begun) result \<times> 's"
    and finish_op :: "int option \<Rightarrow> string \<Rightarrow> json \<Rightarrow> 's \<Rightarrow> (store_error, unit) result \<times> 's"
    and release_op :: "string \<Rightarrow> 's \<Rightarrow> (store_error, unit) result \<times> 's"
    and resolve_op :: "int option \<Rightarrow> string \<Rightarrow> operator_action_basis \<Rightarrow> 's \<Rightarrow> (store_error, unit) result \<times> 's"
begin

abbreviation the_ops :: "'s intent_ops" where
  "the_ops \<equiv> \<lparr>io_begin = begin_op, io_finish = finish_op, io_release = release_op\<rparr>"

lemma record_ok: "ok s \<Longrightarrow> ok (snd (record_element the_ops now t d s))"
  using finish_op_ok release_ok
  by (auto simp: record_element_def case_prod_beta split: decision.split sum.split)

text \<open>What recording does to the log: only the call's own key changes, and it goes when it is freed.\<close>

lemma record_log:
  assumes "ok s" and "log s k = Some (t, h, x)" and "record_element the_ops now t d s = (r, s')"
  shows "(\<forall>j. j \<noteq> k \<longrightarrow> log s' j = log s j) \<and> (log s' k = None \<longleftrightarrow> frees d r)"
proof (cases d)
  case (LeaveOpen a)
  with assms show ?thesis by (auto simp: record_element_def frees_def)
next
  case (ReleaseThen a)
  obtain q s1 where q: "release_op t s = (q, s1)" by fastforce
  from release_law [OF assms(1,2) q] ReleaseThen q assms(2,3) show ?thesis
    by (auto simp: record_element_def frees_def split: sum.splits)
next
  case (FinishThen body a)
  obtain q s1 where q: "finish_op now t body s = (q, s1)" by fastforce
  from finish_law [OF assms(1,2) q] FinishThen q assms(2,3) show ?thesis
    by (auto simp: record_element_def frees_def split: sum.splits)
qed

lemma record_accounted:
  assumes "ok (wd_store w)" and "accounted log w" and "(t, k) \<in> set (wd_running w)"
    and "record_element the_ops now t d (wd_store w) = (r, s')"
  shows "accounted log (w\<lparr>wd_store := s', wd_running := remove1 (t, k) (wd_running w),
    wd_freed := (if frees d r then bump k (wd_freed w) else wd_freed w)\<rparr>)"
proof -
  obtain h x where e: "log (wd_store w) k = Some (t, h, x)" using accountedD(3) [OF assms(2,3)] by blast
  note lg = record_log [OF assms(1) e assms(4)]
  have other: "log s' j = log (wd_store w) j" if "j \<noteq> k" for j using lg that by blast
  show ?thesis
    by (rule accounted_stop [OF assms(2,3) other])
      (use lg accountedD(1) [OF assms(2), of k] e in \<open>simp_all add: bump_def\<close>)
qed

lemma step_accounted:
  assumes "world_step key valid the_ops resolve_op w w'" and "ok (wd_store w)" and "accounted log w"
  shows "ok (wd_store w') \<and> accounted log w'"
  using assms(1)
proof cases
  case (w_start i now t s')
  then show ?thesis using start_accounted(1) [OF assms(2,3) w_start(2)] begin_ok [OF assms(2) w_start(2), of now] by simp
next
  case (w_lost i now t s')
  then show ?thesis using start_accounted(2) [OF assms(2,3) w_lost(2)] begin_ok [OF assms(2) w_lost(2), of now] by simp
next
  case (w_answer i now r s')
  then have "s' = wd_store w" using answer_same [OF assms(2) w_answer(2)] by simp
  with w_answer assms show ?thesis by simp
next
  case (w_record t k now d r s')
  then show ?thesis using record_accounted [OF assms(2,3)] record_ok [OF assms(2), of now t d] by simp
next
  case (w_crash t k)
  have "accounted log (w\<lparr>wd_store := wd_store w, wd_running := remove1 (t, k) (wd_running w), wd_freed := wd_freed w\<rparr>)"
    using accountedD(1) [OF assms(3), of k] by (intro accounted_stop [OF assms(3) w_crash(2)]) simp_all
  with w_crash(1) assms(2) show ?thesis by simp
next
  case (w_resolve now t basis r s')
  then show ?thesis using resolve_accounted [OF assms(2,3)] resolve_op_ok [OF assms(2), of now t basis] by simp
qed

lemma steps_accounted:
  assumes "(world_step key valid the_ops resolve_op)\<^sup>*\<^sup>* w w'" and "ok (wd_store w)" and "accounted log w"
  shows "ok (wd_store w') \<and> accounted log w'"
  using assms by (induction rule: rtranclp_induct) (use step_accounted in blast)+

end

text \<open>The calls on an SQLite store.\<close>

definition sqlite_ops ::
    "(string \<Rightarrow> json option) \<Rightarrow> (json \<Rightarrow> string) \<Rightarrow> (intent_db \<Rightarrow> int option) \<Rightarrow> intent_db intent_ops" where
  "sqlite_ops parse to_text rowid =
     \<lparr>io_begin = begin_intent parse rowid, io_finish = finish_intent to_text, io_release = release_intent\<rparr>"

definition empty_world :: "'r list world" where
  "empty_world = \<lparr>wd_store = [], wd_running = [], wd_runs = (\<lambda>_. 0), wd_freed = (\<lambda>_. 0), wd_lost = (\<lambda>_. 0)\<rparr>"

interpretation sj: json_intents log_ok log_of key_of "\<lambda>_. True" "begin_intent parse max_rowid" "finish_intent to_text" release_intent
    resolve_intent for parse to_text
  unfolding json_intents_def by (rule sqlite_contract [OF max_rowid_fresh])

lemma sqlite_json:
  "fresh_rowid rowid \<Longrightarrow>
     json_intents log_ok log_of key_of (\<lambda>_. True) (begin_intent parse rowid) (finish_intent to_text) release_intent resolve_intent"
  unfolding json_intents_def by (rule sqlite_contract)


text \<open>A call that starts, a repeat that is answered, and the return of the export.\<close>

abbreviation sample_ops :: "intent_db intent_ops" where
  "sample_ops \<equiv> sqlite_ops (\<lambda>_. Some JNull) (\<lambda>_. ''null'') max_rowid"

definition started_world :: "intent_db world" where
  "started_world = empty_world\<lparr>wd_store := sample_begun, wd_running := [(''1'', ''acme'', ''k1'')],
     wd_runs := bump (''acme'', ''k1'') (\<lambda>_. 0)\<rparr>"

lemma sample_start: "world_step key_of (\<lambda>_. True) sample_ops resolve_intent empty_world started_world"
proof -
  have b: "io_begin sample_ops (Some 5) (sample_intent ''k1'') (wd_store empty_world) = (Inr (New ''1''), sample_begun)"
    by (simp add: sqlite_ops_def empty_world_def begin_intent_def sample_begun_def intent_eval)
  from world_step.w_start [of "\<lambda>_. True", OF TrueI b, of key_of resolve_intent]
  show ?thesis by (simp add: started_world_def sample_intent_def empty_world_def)
qed


lemma read_elements_faithful:
  "read_elements key_field keys vs = Inr es \<Longrightarrow>
     map re_value es = vs \<and> distinct (map re_key es) \<and> (\<forall>e \<in> set es. re_key e \<notin> set keys)
     \<and> list_all (\<lambda>e. Option.bind (json_get (re_value e) REQUEST_ID) as_str = Some (re_request_id e)) es"
  by (induction key_field keys vs arbitrary: es rule: read_elements.induct)
    (fastforce split: option.splits if_splits sum.splits)+

text \<open>
  The elements of a call are its input. When the envelope is read, the elements are the values of
  the input in their order, each under its own request id, and no two have one key, so no element
  of a call claims the key of another.
\<close>

lemma request_elements_are_input:
  assumes "request_elements input key_field = Inr es"
  shows "input = JArray (map re_value es) \<and> distinct (map re_key es)
    \<and> list_all (\<lambda>e. Option.bind (json_get (re_value e) REQUEST_ID) as_str = Some (re_request_id e)) es"
  using assms read_elements_faithful
  by (cases input) (fastforce simp: request_elements_def)+

end
