(* ===== verification/Write_Log.thy ===== *)
theory Write_Log
  imports Intent_Call
begin

text \<open>
  The write log of a project database (\<^verbatim>\<open>wamn_postgres/write_log.rs\<close>, the table of \<^verbatim>\<open>deploy/sql/app-schema.sql\<close>):
  the second store of operation calls. It records a call under its operation without the version and
  its idempotency key, and the id of a claim spells both. The statements are transitions of a list of
  rows, each statement alone, and a begin that claims nothing reads the row it met. The clock is the
  database's, and \<^const>\<open>None\<close> when the statement fails. A release or a listing whose statement fails is left
  out: it answers a storage error and changes nothing.
\<close>

section \<open>The table\<close>

record write_row =
  wl_operation :: string
  wl_key :: string
  wl_request :: string
  wl_result :: "string option"
  wl_created_at :: int

type_synonym write_log = "write_row list"

definition write_row_check :: "write_row \<Rightarrow> bool" where
  "write_row_check r \<longleftrightarrow> wl_operation r \<noteq> [] \<and> wl_key r \<noteq> [] \<and> wl_request r \<noteq> []"

definition wl_claim :: "write_row \<Rightarrow> string \<times> string" where
  "wl_claim r = (wl_operation r, wl_key r)"

definition find_claim :: "string \<times> string \<Rightarrow> write_log \<Rightarrow> write_row option" where
  "find_claim k lg = find (\<lambda>r. wl_claim r = k) lg"

definition is_open_claim :: "string \<times> string \<Rightarrow> write_row \<Rightarrow> bool" where
  "is_open_claim k r \<longleftrightarrow> wl_claim r = k \<and> wl_result r = None"

section \<open>Ids\<close>

definition log_operation :: "string \<Rightarrow> string" where
  "log_operation operation = (case split_once (CHR ''@'') operation of None \<Rightarrow> operation | Some (name, _) \<Rightarrow> name)"

definition write_key :: "intent \<Rightarrow> string \<times> string" where
  "write_key i = (log_operation (in_operation i), in_idempotency_key i)"

definition claim_id :: "string \<times> string \<Rightarrow> string" where
  "claim_id k = fst k @ CHR ''#'' # snd k"

definition claim_of :: "string \<Rightarrow> string \<Rightarrow> (store_error, string \<times> string) result" where
  "claim_of operation iid =
     (case split_once (CHR ''#'') iid of None \<Rightarrow> Inl (ContractFailure, operation) | Some k \<Rightarrow> Inr k)"

section \<open>The statements\<close>

text \<open>The insert of a claim: whether it claimed the key, or the error of its checks.\<close>

definition insert_claim ::
    "int \<Rightarrow> string \<times> string \<Rightarrow> string \<Rightarrow> string option \<Rightarrow> write_log \<Rightarrow> (string, bool \<times> write_log) result" where
  "insert_claim now k request known lg =
     (let r = \<lparr>wl_operation = fst k, wl_key = snd k, wl_request = request, wl_result = known, wl_created_at = now\<rparr> in
      if \<not> write_row_check r then Inl ''23514''
      else if find_claim k lg \<noteq> None then Inr (False, lg)
      else Inr (True, lg @ [r]))"

definition begin_claim ::
    "(string \<Rightarrow> json option) \<Rightarrow> int option \<Rightarrow> intent \<Rightarrow> string option \<Rightarrow> write_log
       \<Rightarrow> (store_error, json begun) result \<times> write_log" where
  "begin_claim parse now i known lg =
     (let k = write_key i in
      case now of
        None \<Rightarrow> (Inl (StorageFailure, ''begin''), lg)
      | Some t \<Rightarrow>
          (case insert_claim t k (in_input_hash i) known lg of
             Inl e \<Rightarrow> (Inl (StorageFailure, ''begin''), lg)
           | Inr (True, lg') \<Rightarrow> (Inr (New (claim_id k)), lg')
           | Inr (False, lg') \<Rightarrow>
               (case find_claim k lg' of
                  None \<Rightarrow> (Inl (ContractFailure, ''begin''), lg')
                | Some r \<Rightarrow>
                    if wl_request r \<noteq> in_input_hash i then (Inr (Conflict (claim_id k)), lg')
                    else
                      (case wl_result r of
                         Some text \<Rightarrow>
                           (case parse text of
                              None \<Rightarrow> (Inl (ContractFailure, ''begin''), lg')
                            | Some v \<Rightarrow> (Inr (Finished v), lg'))
                       | None \<Rightarrow> (Inr (Uncertain (claim_id k)), lg')))))"

definition write_log_begin ::
    "(string \<Rightarrow> json option) \<Rightarrow> string \<Rightarrow> int option \<Rightarrow> intent \<Rightarrow> write_log
       \<Rightarrow> (store_error, json begun) result \<times> write_log" where
  "write_log_begin parse env_key now i lg =
     (if in_tenant i \<noteq> env_key then (Inl (ContractFailure, ''begin''), lg) else begin_claim parse now i None lg)"

definition write_log_finish ::
    "(json \<Rightarrow> string) \<Rightarrow> int option \<Rightarrow> string \<Rightarrow> json \<Rightarrow> write_log \<Rightarrow> (store_error, unit) result \<times> write_log" where
  "write_log_finish to_text now iid outcome lg =
     (case claim_of ''finish'' iid of
        Inl e \<Rightarrow> (Inl e, lg)
      | Inr k \<Rightarrow>
          (case now of
             None \<Rightarrow> (Inl (StorageFailure, ''finish''), lg)
           | Some t \<Rightarrow>
               if list_ex (is_open_claim k) lg
               then (Inr (), map (\<lambda>r. if is_open_claim k r then r\<lparr>wl_result := Some (to_text outcome)\<rparr> else r) lg)
               else (Inl (ContractFailure, ''finish''), lg)))"

definition write_log_release :: "string \<Rightarrow> write_log \<Rightarrow> (store_error, unit) result \<times> write_log" where
  "write_log_release iid lg =
     (case claim_of ''release'' iid of
        Inl e \<Rightarrow> (Inl e, lg)
      | Inr k \<Rightarrow>
          if list_ex (is_open_claim k) lg then (Inr (), filter (\<lambda>r. \<not> is_open_claim k r) lg)
          else (Inl (ContractFailure, ''release''), lg))"

definition write_log_uncertain :: "string \<Rightarrow> nat \<Rightarrow> write_log \<Rightarrow> uncertain_intent list" where
  "write_log_uncertain env_key limit lg =
     map (\<lambda>r. \<lparr>un_id = claim_id (wl_claim r), un_tenant = env_key, un_release = [],
        un_package = (case split_once (CHR '':'') (wl_operation r) of None \<Rightarrow> [] | Some (package, _) \<Rightarrow> package),
        un_operation = wl_operation r, un_idempotency_key = wl_key r\<rparr>)
       (take limit (sort_key (\<lambda>r. (wl_created_at r, wl_operation r, wl_key r)) (filter (\<lambda>r. wl_result r = None) lg)))"

definition write_log_resolve ::
    "int option \<Rightarrow> string \<Rightarrow> operator_action_basis \<Rightarrow> write_log \<Rightarrow> (store_error, unit) result \<times> write_log" where
  "write_log_resolve now iid basis lg = (Inl (ContractFailure, ''resolve''), lg)"

section \<open>The log a table holds\<close>

definition write_state :: "write_row \<Rightarrow> string intent_state" where
  "write_state r = (case wl_result r of None \<Rightarrow> Open | Some text \<Rightarrow> Done text)"

definition claim_entry :: "write_row \<Rightarrow> string \<times> string \<times> string intent_state" where
  "claim_entry r = (claim_id (wl_claim r), wl_request r, write_state r)"

definition claims_of :: "write_log \<Rightarrow> string intent_log" where
  "claims_of lg k = map_option claim_entry (find_claim k lg)"

text \<open>No operation has the separator of an id, and the key of a row is unique.\<close>

definition names_operation :: "string \<Rightarrow> bool" where
  "names_operation operation \<longleftrightarrow> CHR ''#'' \<notin> set operation"

definition write_log_ok :: "write_log \<Rightarrow> bool" where
  "write_log_ok lg \<longleftrightarrow> distinct (map wl_claim lg) \<and> (\<forall>r \<in> set lg. names_operation (wl_operation r))"

definition names_claim :: "intent \<Rightarrow> bool" where
  "names_claim i \<longleftrightarrow> names_operation (in_operation i)"

section \<open>Lemmas\<close>

lemma log_operation_prefix: "set (log_operation operation) \<subseteq> set operation"
proof (cases "dropWhile (\<lambda>x. x \<noteq> CHR ''@'') operation")
  case Nil
  show ?thesis unfolding log_operation_def split_once_def Nil by simp
next
  case (Cons c rest)
  show ?thesis unfolding log_operation_def split_once_def Cons by (auto dest: set_takeWhileD)
qed

lemma log_operation_named: "names_operation operation \<Longrightarrow> names_operation (log_operation operation)"
  using log_operation_prefix by (auto simp: names_operation_def)

lemma claim_of_id: "names_operation (fst k) \<Longrightarrow> claim_of operation (claim_id k) = Inr k"
  by (simp add: claim_of_def claim_id_def names_operation_def split_once_join)

lemma claim_id_inj: "names_operation (fst k) \<Longrightarrow> names_operation (fst k') \<Longrightarrow> claim_id k = claim_id k' \<Longrightarrow> k = k'"
  by (metis claim_of_id sum.inject(2))

lemma find_claim_Some: "find_claim k lg = Some r \<Longrightarrow> r \<in> set lg \<and> wl_claim r = k"
  by (auto simp: find_claim_def find_Some_iff)

lemma claims_of_Some:
  assumes "write_log_ok lg" and "claims_of lg k = Some (t, h, x)"
  obtains r where "r \<in> set lg" "wl_claim r = k" "t = claim_id k" "h = wl_request r" "x = write_state r" "names_operation (fst k)"
proof -
  from assms(2) obtain r where r: "find_claim k lg = Some r" "(t, h, x) = claim_entry r" by (auto simp: claims_of_def)
  from find_claim_Some [OF r(1)] assms(1) have "r \<in> set lg" "wl_claim r = k" "names_operation (fst k)"
    by (auto simp: write_log_ok_def wl_claim_def)
  with r(2) that show ?thesis by (simp add: claim_entry_def)
qed

lemma open_claim_row:
  assumes "write_log_ok lg" and "list_ex (is_open_claim k) lg"
  obtains r where "r \<in> set lg" "wl_claim r = k" "wl_result r = None" "\<And>x. x \<in> set lg \<Longrightarrow> is_open_claim k x \<longleftrightarrow> x = r"
proof -
  from assms(2) obtain r where r: "r \<in> set lg" "is_open_claim k r" by (auto simp: list_ex_iff)
  with assms(1) have "\<And>x. x \<in> set lg \<Longrightarrow> is_open_claim k x \<longleftrightarrow> x = r"
    by (auto simp: write_log_ok_def is_open_claim_def distinct_map inj_on_def)
  with r that show ?thesis by (auto simp: is_open_claim_def)
qed

lemma finish_claims:
  assumes "write_log_ok lg" and "list_ex (is_open_claim k) lg"
  shows "\<exists>r \<in> set lg. wl_claim r = k \<and> wl_result r = None
    \<and> claims_of (map (\<lambda>r. if is_open_claim k r then r\<lparr>wl_result := Some out\<rparr> else r) lg)
      = (claims_of lg)(k \<mapsto> (claim_id k, wl_request r, Done out))"
proof -
  obtain r where r: "r \<in> set lg" "wl_claim r = k" "wl_result r = None" "\<And>x. x \<in> set lg \<Longrightarrow> is_open_claim k x \<longleftrightarrow> x = r"
    by (rule open_claim_row [OF assms]) blast
  let ?h = "\<lambda>r. if is_open_claim k r then r\<lparr>wl_result := Some out\<rparr> else r"
  have same: "wl_claim (?h x) = wl_claim x" for x by (simp add: wl_claim_def)
  have find: "find (\<lambda>x. wl_claim x = j) (map ?h lg) = (if j = wl_claim r then Some (?h r) else find (\<lambda>x. wl_claim x = j) lg)" for j
    by (rule find_map_at) (use assms(1) r same in \<open>auto simp: write_log_ok_def\<close>)
  have "claims_of (map ?h lg) j = ((claims_of lg)(k \<mapsto> (claim_id k, wl_request r, Done out))) j" for j
    unfolding claims_of_def find_claim_def find using r(2,3) r(4) [OF r(1)] same [of r]
    by (simp add: claim_entry_def write_state_def)
  then show ?thesis using r(1-3) by blast
qed

lemma release_claims:
  assumes "write_log_ok lg" and "list_ex (is_open_claim k) lg"
  shows "claims_of (filter (\<lambda>r. \<not> is_open_claim k r) lg) = (claims_of lg)(k := None)"
proof -
  obtain r where r: "r \<in> set lg" "wl_claim r = k" "\<And>x. x \<in> set lg \<Longrightarrow> is_open_claim k x \<longleftrightarrow> x = r"
    by (rule open_claim_row [OF assms]) blast
  have find: "find (\<lambda>x. wl_claim x = j) (filter (\<lambda>r. \<not> is_open_claim k r) lg)
      = (if j = wl_claim r then None else find (\<lambda>x. wl_claim x = j) lg)" for j
    using assms(1) r by (intro find_filter_at) (auto simp: write_log_ok_def)
  show ?thesis unfolding claims_of_def find_claim_def find using r(2) by (auto simp: fun_eq_iff)
qed

lemma open_claim_state:
  assumes "write_log_ok lg" and "claims_of lg k = Some (t, h, x)"
  shows "list_ex (is_open_claim k) lg \<longleftrightarrow> x = Open"
proof -
  obtain r where r: "r \<in> set lg" "wl_claim r = k" "x = write_state r" by (rule claims_of_Some [OF assms]) blast
  have inj: "inj_on wl_claim (set lg)" using assms(1) by (simp add: write_log_ok_def distinct_map)
  have only: "y = r" if "y \<in> set lg" "wl_claim y = k" for y using inj_onD [OF inj] r(1,2) that by blast
  have "list_ex (is_open_claim k) lg \<longleftrightarrow> wl_result r = None"
  proof
    assume "list_ex (is_open_claim k) lg"
    then obtain y where "y \<in> set lg" "wl_claim y = k" "wl_result y = None" by (auto simp: list_ex_iff is_open_claim_def)
    with only show "wl_result r = None" by blast
  next
    assume "wl_result r = None"
    with r(1,2) show "list_ex (is_open_claim k) lg" by (auto simp: list_ex_iff is_open_claim_def)
  qed
  then show ?thesis by (simp add: r(3) write_state_def split: option.split)
qed

text \<open>A begin on a key the log does not have inserts it, or fails; on one it has, it answers.\<close>

lemma begin_claim_known:
  assumes "claims_of lg (write_key i) = Some e"
  shows "\<exists>r. begin_claim parse now i known lg = (r, lg) \<and> (\<forall>t. r \<noteq> Inr (New t))"
proof -
  from assms obtain r where r: "find_claim (write_key i) lg = Some r" by (auto simp: claims_of_def)
  show ?thesis
    by (simp add: begin_claim_def insert_claim_def Let_def r split: option.split)
qed

lemma begin_claim_unknown:
  assumes "claims_of lg (write_key i) = None"
  shows "(\<exists>e. begin_claim parse now i None lg = (Inl e, lg))
    \<or> (\<exists>t lg'. begin_claim parse now i None lg = (Inr (New t), lg')
         \<and> claims_of lg' = (claims_of lg)(write_key i \<mapsto> (t, in_input_hash i, Open)))"
proof -
  have none: "find_claim (write_key i) lg = None" using assms by (simp add: claims_of_def)
  have app: "claims_of (lg @ [r]) = (claims_of lg)(write_key i \<mapsto> claim_entry r)" if "wl_claim r = write_key i" for r
    using that none by (auto simp: claims_of_def find_claim_def find_append fun_eq_iff split: option.split)
  let ?r = "\<lambda>t. \<lparr>wl_operation = fst (write_key i), wl_key = snd (write_key i), wl_request = in_input_hash i, wl_result = None,
    wl_created_at = t\<rparr>"
  have "wl_claim (?r t) = write_key i" "claim_entry (?r t) = (claim_id (write_key i), in_input_hash i, Open)" for t
    by (simp_all add: wl_claim_def claim_entry_def write_state_def)
  with app show ?thesis
    by (cases now) (simp_all add: begin_claim_def insert_claim_def Let_def none)
qed

section \<open>The write log meets the contract\<close>

lemma begin_claim_ok:
  assumes "write_log_ok lg" and "names_claim i"
  shows "write_log_ok (snd (begin_claim parse now i known lg))"
proof (cases "begin_claim parse now i known lg")
  case (Pair r lg')
  have named: "names_operation (fst (write_key i))"
    using assms(2) log_operation_named by (simp add: write_key_def names_claim_def)
  have grown: "write_log_ok (lg @ [x])" if "wl_claim x = write_key i" "find_claim (write_key i) lg = None" for x
  proof -
    have "write_key i \<notin> wl_claim ` set lg" using that(2) by (auto simp: find_claim_def find_None_iff)
    moreover have "names_operation (wl_operation x)" using named that(1) [symmetric] by (simp add: wl_claim_def)
    ultimately show ?thesis using assms(1) that(1) by (auto simp: write_log_ok_def)
  qed
  show ?thesis
  proof (cases "find_claim (write_key i) lg")
    case None
    then show ?thesis using grown [OF _ None] assms(1)
      by (cases now) (simp_all add: begin_claim_def insert_claim_def Let_def wl_claim_def)
  next
    case (Some x)
    then show ?thesis using assms(1)
      by (cases now) (simp_all add: begin_claim_def insert_claim_def Let_def split: option.split)
  qed
qed

lemma finish_claim_ok: "write_log_ok lg \<Longrightarrow> write_log_ok (snd (write_log_finish to_text now t out lg))"
proof -
  assume ok: "write_log_ok lg"
  have "write_log_ok (map (\<lambda>r. if is_open_claim k r then r\<lparr>wl_result := y\<rparr> else r) lg)" for k y
  proof -
    let ?h = "\<lambda>r. if is_open_claim k r then r\<lparr>wl_result := y\<rparr> else r"
    have "map wl_claim (map ?h lg) = map wl_claim lg" by (simp add: wl_claim_def)
    moreover have "\<forall>r \<in> set (map ?h lg). names_operation (wl_operation r)" using ok by (auto simp: write_log_ok_def)
    ultimately show ?thesis using ok unfolding write_log_ok_def by metis
  qed
  with ok show ?thesis by (simp add: write_log_finish_def split: sum.split option.split)
qed

lemma release_claim_ok: "write_log_ok lg \<Longrightarrow> write_log_ok (snd (write_log_release t lg))"
  by (auto simp: write_log_release_def write_log_ok_def distinct_map_filter split: sum.split)

lemma claim_of_claims:
  assumes "write_log_ok lg" and "claims_of lg k = Some (t, h, x)"
  shows "t = claim_id k" "claim_of operation t = Inr k"
  using claims_of_Some [OF assms] claim_of_id [of k operation] by blast+

lemma write_log_finish_law:
  assumes "write_log_ok lg" and "claims_of lg k = Some (t, h, x)" and "write_log_finish to_text now t out lg = (r, lg')"
  shows "(\<exists>e. r = Inl e) \<and> lg' = lg
    \<or> (\<exists>y. r = Inr () \<and> x = Open \<and> y \<noteq> Open \<and> claims_of lg' = (claims_of lg)(k \<mapsto> (t, h, y)))"
proof (cases "now \<noteq> None \<and> list_ex (is_open_claim k) lg")
  case True
  then obtain row where row: "row \<in> set lg" "wl_claim row = k"
    "claims_of (map (\<lambda>r. if is_open_claim k r then r\<lparr>wl_result := Some (to_text out)\<rparr> else r) lg)
      = (claims_of lg)(k \<mapsto> (claim_id k, wl_request row, Done (to_text out)))"
    using finish_claims [OF assms(1)] by blast
  have "h = wl_request row"
    using claims_of_Some [OF assms(1,2)] row(1,2) assms(1) by (auto simp: write_log_ok_def distinct_map inj_on_def)
  moreover have "r = Inr ()" "claims_of lg' = (claims_of lg)(k \<mapsto> (claim_id k, wl_request row, Done (to_text out)))"
    using True assms(3) row(3) by (auto simp: write_log_finish_def claim_of_claims(2) [OF assms(1,2)])
  ultimately show ?thesis
    using True open_claim_state [OF assms(1,2)] claim_of_claims(1) [OF assms(1,2)] by blast
next
  case False
  with assms(3) show ?thesis
    by (auto simp: write_log_finish_def claim_of_claims(2) [OF assms(1,2)] split: option.splits)
qed

lemma write_log_release_law:
  assumes "write_log_ok lg" and "claims_of lg k = Some (t, h, x)" and "write_log_release t lg = (r, lg')"
  shows "(\<exists>e. r = Inl e) \<and> lg' = lg \<or> r = Inr () \<and> x = Open \<and> claims_of lg' = (claims_of lg)(k := None)"
  using assms(3) open_claim_state [OF assms(1,2)] release_claims [OF assms(1), of k]
  by (auto simp: write_log_release_def claim_of_claims(2) [OF assms(1,2)] split: if_splits)

text \<open>The store of the two-step claims is the second provider of the contract.\<close>

lemma write_log_contract:
  "intent_contract write_log_ok claims_of write_key names_claim (write_log_begin parse env_key) (write_log_finish to_text)
     write_log_release write_log_resolve"
proof
  fix s :: write_log and now i t out basis r s' k h x e k' h' x'
  assume ok: "write_log_ok s"
  show "write_log_ok (snd (write_log_begin parse env_key now i s))" if "names_claim i"
    using begin_claim_ok [OF ok that] ok by (simp add: write_log_begin_def)
  show "write_log_ok (snd (write_log_finish to_text now t out s))" by (rule finish_claim_ok [OF ok])
  show "write_log_ok (snd (write_log_release t s))" by (rule release_claim_ok [OF ok])
  show "write_log_ok (snd (write_log_resolve now t basis s))" using ok by (simp add: write_log_resolve_def)
  show "k = k'" if "claims_of s k = Some (t, h, x)" "claims_of s k' = Some (t, h', x')"
  proof -
    have "t = claim_id k" "names_operation (fst k)" using claims_of_Some [OF ok that(1)] by blast+
    moreover have "t = claim_id k'" "names_operation (fst k')" using claims_of_Some [OF ok that(2)] by blast+
    ultimately show ?thesis using claim_id_inj by blast
  qed
  show "\<exists>r. write_log_begin parse env_key now i s = (r, s) \<and> (\<forall>t. r \<noteq> Inr (New t))"
    if "names_claim i" "claims_of s (write_key i) = Some e"
    using begin_claim_known [OF that(2)] by (simp add: write_log_begin_def)
  show "(\<exists>e. write_log_begin parse env_key now i s = (Inl e, s))
      \<or> (\<exists>t s'. write_log_begin parse env_key now i s = (Inr (New t), s')
           \<and> claims_of s' = (claims_of s)(write_key i \<mapsto> (t, in_input_hash i, Open)))"
    if "names_claim i" "claims_of s (write_key i) = None"
    using begin_claim_unknown [OF that(2)] by (simp add: write_log_begin_def)
  show "(\<exists>e. r = Inl e) \<and> s' = s \<or> (\<exists>y. r = Inr () \<and> x = Open \<and> y \<noteq> Open \<and> claims_of s' = (claims_of s)(k \<mapsto> (t, h, y)))"
    if "claims_of s k = Some (t, h, x)" "write_log_finish to_text now t out s = (r, s')"
    by (rule write_log_finish_law [OF ok that])
  show "(\<exists>e. r = Inl e) \<and> s' = s \<or> r = Inr () \<and> x = Open \<and> claims_of s' = (claims_of s)(k := None)"
    if "claims_of s k = Some (t, h, x)" "write_log_release t s = (r, s')"
    by (rule write_log_release_law [OF ok that])
  show "s' = s \<or> (\<exists>k t' h. claims_of s k = Some (t', h, Open) \<and> claims_of s' = (claims_of s)(k \<mapsto> (t', h, Closed basis)))"
    if "write_log_resolve now t basis s = (r, s')"
    using that by (simp add: write_log_resolve_def)
qed

interpretation wl: json_intents write_log_ok claims_of write_key names_claim "write_log_begin parse env_key"
    "write_log_finish to_text" write_log_release write_log_resolve for parse env_key to_text
  unfolding json_intents_def by (rule write_log_contract)

definition write_log_ops :: "(string \<Rightarrow> json option) \<Rightarrow> (json \<Rightarrow> string) \<Rightarrow> string \<Rightarrow> write_log intent_ops" where
  "write_log_ops parse to_text env_key =
     \<lparr>io_begin = write_log_begin parse env_key, io_finish = write_log_finish to_text, io_release = write_log_release\<rparr>"

text \<open>
  The write log runs an export at most once for each release. Under the operation without its
  version and the key, over every interleaving of calls of all releases, their crashes and their lost
  replies, a claim was made once for each release of the key and once more for the row that stands, so a
  retry of a key that was never released starts no second export, also after an upgrade.
\<close>

lemma write_log_runs_once:
  assumes "(world_step write_key names_claim (write_log_ops parse to_text env_key) write_log_resolve)\<^sup>*\<^sup>* empty_world w"
  shows "wd_runs w k + wd_lost w k = wd_freed w k + (if claims_of (wd_store w) k = None then 0 else 1)
    \<and> distinct (map snd (wd_running w)) \<and> (wd_freed w k = 0 \<longrightarrow> wd_runs w k \<le> 1)"
proof -
  have "accounted claims_of empty_world"
    by (rule accountedI) (simp_all add: empty_world_def claims_of_def find_claim_def)
  moreover have "write_log_ok (wd_store empty_world)" by (simp add: empty_world_def write_log_ok_def)
  ultimately have "accounted claims_of w"
    using wl.steps_accounted [of parse env_key to_text empty_world w] assms by (simp add: write_log_ops_def)
  from accountedD(1) [OF this, of k] accountedD(2) [OF this] show ?thesis by (auto split: if_splits)
qed

text \<open>A claim of one version, and the retry of the next version that it holds off.\<close>

definition sample_write :: "string \<Rightarrow> intent" where
  "sample_write operation = \<lparr>in_tenant = ''acme'', in_release = ''r1'', in_package = ''pkg'', in_operation = operation,
     in_idempotency_key = ''k1'', in_input_hash = ''h'', in_deadline_ms = 1000\<rparr>"

abbreviation sample_write_ops :: "write_log intent_ops" where
  "sample_write_ops \<equiv> write_log_ops (\<lambda>_. Some JNull) (\<lambda>_. ''null'') ''acme''"

definition claimed_world :: "write_log world" where
  "claimed_world = empty_world\<lparr>
     wd_store := [\<lparr>wl_operation = ''create'', wl_key = ''k1'', wl_request = ''h'', wl_result = None, wl_created_at = 5\<rparr>],
     wd_running := [(''create#k1'', ''create'', ''k1'')], wd_runs := bump (''create'', ''k1'') (\<lambda>_. 0)\<rparr>"

lemmas write_log_eval = write_log_ops_def write_log_begin_def begin_claim_def insert_claim_def write_row_check_def
  find_claim_def wl_claim_def write_key_def claim_id_def log_operation_def split_once_def sample_write_def Let_def

lemma sample_claim:
  "world_step write_key names_claim sample_write_ops write_log_resolve empty_world claimed_world"
proof -
  have b: "io_begin sample_write_ops (Some 5) (sample_write ''create@1'') (wd_store empty_world)
      = (Inr (New ''create#k1''), wd_store claimed_world)"
    by (simp add: empty_world_def claimed_world_def write_log_eval)
  have v: "names_claim (sample_write ''create@1'')"
    by (simp add: names_claim_def names_operation_def write_log_eval)
  from world_step.w_start [of names_claim, OF v b, of write_key write_log_resolve]
  show ?thesis by (simp add: claimed_world_def empty_world_def write_log_eval)
qed

end
