(* ===== verification/Number_Pattern.thy ===== *)
theory Number_Pattern
  imports Prelude
begin

text \<open>
  The parser of document-number patterns (\<^verbatim>\<open>crates/platform/number-pattern/src/lib.rs\<close>): its data, the
  scan of a text into parts, the options of a counter, the resolution of the keys and the refusal of
  cycles. A text is its bytes and a character its UTF-8 bytes; error messages are left out, and
  \<^const>\<open>None\<close> is a panic.
\<close>

section \<open>Patterns\<close>

definition MAX_WIDTH :: nat where "MAX_WIDTH = 32"

datatype date_format = Year | ShortYear | Month | Day | Week | Quarter

definition DATE_FORMATS :: "date_format list" where
  "DATE_FORMATS = [Year, ShortYear, Month, Day, Week, Quarter]"

fun date_format_as_str :: "date_format \<Rightarrow> string" where
  "date_format_as_str Year = ''YYYY''"
| "date_format_as_str ShortYear = ''YY''"
| "date_format_as_str Month = ''MM''"
| "date_format_as_str Day = ''DD''"
| "date_format_as_str Week = ''WW''"
| "date_format_as_str Quarter = ''Q''"

datatype key = KField string | KCounter string | KDate date_format

datatype scope = Always | Reset key | Per key

fun scope_key :: "scope \<Rightarrow> key option" where
  "scope_key Always = None"
| "scope_key (Reset k) = Some k"
| "scope_key (Per k) = Some k"

record counter =
  ct_name :: string
  ct_scope :: scope
  ct_width :: "nat option"
  ct_pad :: string
  ct_hex :: bool

definition is_bare :: "counter \<Rightarrow> bool" where
  "is_bare c \<longleftrightarrow> ct_scope c = Always \<and> ct_width c = None \<and> ct_pad c = ''0'' \<and> \<not> ct_hex c"

datatype part = PLiteral string | PCounter counter | PField string | PDate date_format

type_synonym pattern = "part list"

fun part_counter :: "part \<Rightarrow> counter option" where
  "part_counter (PCounter c) = Some c"
| "part_counter _ = None"

definition counters :: "pattern \<Rightarrow> counter list" where
  "counters p = List.map_filter part_counter p"

fun part_field :: "part \<Rightarrow> string option" where
  "part_field (PField name) = Some name"
| "part_field (PCounter c) = (case scope_key (ct_scope c) of Some (KField name) \<Rightarrow> Some name | _ \<Rightarrow> None)"
| "part_field _ = None"

definition pattern_fields :: "pattern \<Rightarrow> string list" where
  "pattern_fields p = remdups_adj (sort (List.map_filter part_field p))"

definition is_bare_counter :: "pattern \<Rightarrow> bool" where
  "is_bare_counter p = (case p of [PCounter c] \<Rightarrow> is_bare c | _ \<Rightarrow> False)"

datatype pattern_error = Syntax | UnknownDateFormat | InvalidOption | InvalidCounter

section \<open>Texts\<close>

fun split_on :: "char \<Rightarrow> string \<Rightarrow> string list" where
  "split_on c [] = [[]]"
| "split_on c (x # xs) =
     (if x = c then [] # split_on c xs
      else (case split_on c xs of [] \<Rightarrow> [[x]] | y # ys \<Rightarrow> (x # y) # ys))"

definition strip_prefix :: "string \<Rightarrow> string \<Rightarrow> string option" where
  "strip_prefix p s = (if take (length p) s = p then Some (drop (length p) s) else None)"

text \<open>One character of a UTF-8 text: its first byte tells its length.\<close>

definition utf8_width :: "char \<Rightarrow> nat" where
  "utf8_width c = (let b = of_char c :: nat in if b < 128 then 1 else if b < 224 then 2 else if b < 240 then 3 else 4)"

definition one_character :: "string \<Rightarrow> bool" where
  "one_character s \<longleftrightarrow> s \<noteq> [] \<and> length s = utf8_width (hd s)"

definition is_ascii_lowercase :: "char \<Rightarrow> bool" where
  "is_ascii_lowercase c \<longleftrightarrow> 97 \<le> (of_char c :: nat) \<and> (of_char c :: nat) \<le> 122"

section \<open>Tokens\<close>

definition is_identifier :: "string \<Rightarrow> bool" where
  "is_identifier name \<longleftrightarrow>
     (case name of
        [] \<Rightarrow> False
      | first # rest \<Rightarrow>
          (is_ascii_lowercase first \<or> first = CHR ''_'')
          \<and> list_all (\<lambda>b. is_ascii_lowercase b \<or> is_digit b \<or> b = CHR ''_'') rest)"

definition identifier_name :: "string \<Rightarrow> (pattern_error, string) result" where
  "identifier_name name = (if is_identifier name then Inr name else Inl Syntax)"

definition read_date_format :: "string \<Rightarrow> (pattern_error, date_format) result" where
  "read_date_format text =
     (case find_spelling DATE_FORMATS date_format_as_str text of None \<Rightarrow> Inl UnknownDateFormat | Some f \<Rightarrow> Inr f)"

definition width_value :: "string \<Rightarrow> nat option" where
  "width_value v =
     (if v = [] \<or> \<not> list_all is_digit v then None
      else if 65535 < digits_value v then None
      else if 1 \<le> digits_value v \<and> digits_value v \<le> MAX_WIDTH then Some (digits_value v)
      else None)"

text \<open>The options read so far, with the name that a \<^verbatim>\<open>reset=\<close> or \<^verbatim>\<open>per=\<close> option gives, not yet resolved.\<close>

record options =
  op_scope :: scope
  op_key :: "string option"
  op_width :: "nat option"
  op_pad :: "string option"
  op_hex :: bool

definition key_option :: "string \<Rightarrow> (key \<Rightarrow> scope) \<Rightarrow> options \<Rightarrow> (pattern_error, options) result" where
  "key_option v scope ops =
     (if op_scope ops \<noteq> Always then Inl InvalidOption
      else
        (case strip_prefix ''date:'' v of
           Some text \<Rightarrow>
             (case read_date_format text of Inl e \<Rightarrow> Inl e | Inr f \<Rightarrow> Inr (ops\<lparr>op_scope := scope (KDate f)\<rparr>))
         | None \<Rightarrow>
             (case identifier_name v of
                Inl e \<Rightarrow> Inl e
              | Inr name \<Rightarrow> Inr (ops\<lparr>op_key := Some name, op_scope := scope (KField [])\<rparr>))))"

definition width_option :: "string \<Rightarrow> options \<Rightarrow> (pattern_error, options) result" where
  "width_option v ops =
     (if op_width ops \<noteq> None then Inl InvalidOption
      else (case width_value v of None \<Rightarrow> Inl InvalidOption | Some w \<Rightarrow> Inr (ops\<lparr>op_width := Some w\<rparr>)))"

definition counter_option :: "string \<Rightarrow> options \<Rightarrow> (pattern_error, options) result" where
  "counter_option opt ops =
     (case strip_prefix ''reset='' opt of
        Some v \<Rightarrow> key_option v Reset ops
      | None \<Rightarrow>
     (case strip_prefix ''per='' opt of
        Some v \<Rightarrow> key_option v Per ops
      | None \<Rightarrow>
     (case strip_prefix ''width='' opt of
        Some v \<Rightarrow> width_option v ops
      | None \<Rightarrow>
     (if 1 < length opt \<and> hd opt = CHR ''0'' then width_option (tl opt) ops
      else
     (case strip_prefix ''pad='' opt of
        Some v \<Rightarrow>
          (if \<not> one_character v \<or> op_pad ops \<noteq> None then Inl InvalidOption
           else Inr (ops\<lparr>op_pad := Some v\<rparr>))
      | None \<Rightarrow>
          (if opt = ''hex'' then
             (if op_hex ops then Inl InvalidOption else Inr (ops\<lparr>op_hex := True\<rparr>))
           else Inl InvalidOption))))))"

fun counter_options :: "string list \<Rightarrow> options \<Rightarrow> (pattern_error, options) result" where
  "counter_options [] ops = Inr ops"
| "counter_options (opt # opts) ops =
     (case counter_option opt ops of Inl e \<Rightarrow> Inl e | Inr ops' \<Rightarrow> counter_options opts ops')"

definition no_options :: options where
  "no_options = \<lparr>op_scope = Always, op_key = None, op_width = None, op_pad = None, op_hex = False\<rparr>"

definition counter_of :: "string \<Rightarrow> options \<Rightarrow> counter" where
  "counter_of name ops =
     \<lparr>ct_name = name, ct_scope = op_scope ops, ct_width = op_width ops,
      ct_pad = (case op_pad ops of None \<Rightarrow> ''0'' | Some c \<Rightarrow> c), ct_hex = op_hex ops\<rparr>"

definition counter_token :: "string \<Rightarrow> (pattern_error, part \<times> string option) result" where
  "counter_token body =
     (case split_on (CHR '','') body of
        [] \<Rightarrow> Inl Syntax
      | first # opts \<Rightarrow>
          (case identifier_name first of
             Inl e \<Rightarrow> Inl e
           | Inr name \<Rightarrow>
               (case counter_options opts no_options of
                  Inl e \<Rightarrow> Inl e
                | Inr ops \<Rightarrow> Inr (PCounter (counter_of name ops), op_key ops))))"

definition pattern_token :: "string \<Rightarrow> (pattern_error, part \<times> string option) result" where
  "pattern_token body =
     (case split_once (CHR '':'') body of
        None \<Rightarrow> Inl Syntax
      | Some (kind, rest) \<Rightarrow>
          if kind = ''field'' then
            (case identifier_name rest of Inl e \<Rightarrow> Inl e | Inr name \<Rightarrow> Inr (PField name, None))
          else if kind = ''date'' then
            (case read_date_format rest of Inl e \<Rightarrow> Inl e | Inr f \<Rightarrow> Inr (PDate f, None))
          else if kind = ''seq'' then counter_token rest
          else Inl Syntax)"

section \<open>The parser\<close>

text \<open>The bytes of the two braces.\<close>

abbreviation open_brace :: char where "open_brace \<equiv> CHR 0x7B"
abbreviation close_brace :: char where "close_brace \<equiv> CHR 0x7D"

definition is_text :: "char \<Rightarrow> bool" where
  "is_text c \<longleftrightarrow> c \<noteq> open_brace \<and> c \<noteq> close_brace"

function scan :: "string \<Rightarrow> (pattern_error, part list \<times> string option list) result" where
  "scan rest =
     (if rest = [] then Inr ([], [])
      else if is_text (hd rest) then
        (case scan (dropWhile is_text rest) of
           Inl e \<Rightarrow> Inl e
         | Inr (parts, keys) \<Rightarrow> Inr (PLiteral (takeWhile is_text rest) # parts, keys))
      else if hd rest = close_brace then Inl Syntax
      else if close_brace \<notin> set rest then Inl Syntax
      else
        (let body = takeWhile (\<lambda>c. c \<noteq> close_brace) (tl rest) in
         if open_brace \<in> set body then Inl Syntax
         else
           (case pattern_token body of
              Inl e \<Rightarrow> Inl e
            | Inr (part, key) \<Rightarrow>
                (case scan (tl (dropWhile (\<lambda>c. c \<noteq> close_brace) (tl rest))) of
                   Inl e \<Rightarrow> Inl e
                 | Inr (parts, keys) \<Rightarrow> Inr (part # parts, key # keys)))))"
  by pat_completeness auto
termination
  by (relation "measure length")
    (auto simp: neq_Nil_conv length_dropWhile_le less_Suc_eq_le le_trans [OF diff_le_self length_dropWhile_le])

declare scan.simps [simp del]

text \<open>The keys are resolved when every counter is known; a key without a scope is a panic.\<close>

definition resolved_key :: "string list \<Rightarrow> string \<Rightarrow> key" where
  "resolved_key names name = (if name \<in> set names then KCounter name else KField name)"

fun resolve_scope :: "key \<Rightarrow> scope \<Rightarrow> scope option" where
  "resolve_scope k (Reset _) = Some (Reset k)"
| "resolve_scope k (Per _) = Some (Per k)"
| "resolve_scope k Always = None"

fun resolve_keys :: "string list \<Rightarrow> part list \<Rightarrow> string option list \<Rightarrow> part list option" where
  "resolve_keys names [] keys = Some []"
| "resolve_keys names (PLiteral t # parts) keys = map_option (\<lambda>ps. PLiteral t # ps) (resolve_keys names parts keys)"
| "resolve_keys names parts [] = Some parts"
| "resolve_keys names (PCounter c # parts) (Some name # keys) =
     (case resolve_scope (resolved_key names name) (ct_scope c) of
        None \<Rightarrow> None
      | Some scope \<Rightarrow> map_option (\<lambda>ps. PCounter (c\<lparr>ct_scope := scope\<rparr>) # ps) (resolve_keys names parts keys))"
| "resolve_keys names (part # parts) (_ # keys) = map_option (\<lambda>ps. part # ps) (resolve_keys names parts keys)"

definition counter_key_of :: "pattern \<Rightarrow> string \<Rightarrow> string option" where
  "counter_key_of p name =
     (case find (\<lambda>c. ct_name c = name) (counters p) of
        None \<Rightarrow> None
      | Some c \<Rightarrow> (case scope_key (ct_scope c) of Some (KCounter next) \<Rightarrow> Some next | _ \<Rightarrow> None))"

fun returns_to :: "(string \<Rightarrow> string option) \<Rightarrow> string \<Rightarrow> nat \<Rightarrow> string \<Rightarrow> bool" where
  "returns_to key start 0 current = False"
| "returns_to key start (Suc n) current =
     (case key current of
        None \<Rightarrow> False
      | Some next \<Rightarrow> if next = start then True else returns_to key start n next)"

definition refuse_counter_cycles :: "pattern \<Rightarrow> (pattern_error, unit) result" where
  "refuse_counter_cycles p =
     (if list_ex (\<lambda>c. returns_to (counter_key_of p) (ct_name c) (length (counters p)) (ct_name c)) (counters p)
      then Inl InvalidCounter else Inr ())"

definition parse_pattern :: "string \<Rightarrow> (pattern_error, pattern) result option" where
  "parse_pattern text =
     (case scan text of
        Inl e \<Rightarrow> Some (Inl e)
      | Inr (parts, keys) \<Rightarrow>
          (let names = map ct_name (counters parts) in
           if \<not> distinct names then Some (Inl InvalidCounter)
           else
             (case resolve_keys names parts keys of
                None \<Rightarrow> None
              | Some p \<Rightarrow>
                  Some (case refuse_counter_cycles p of Inl e \<Rightarrow> Inl e | Inr _ \<Rightarrow> Inr p))))"

section \<open>Well-formed patterns\<close>

interpretation date_vocabulary: vocabulary DATE_FORMATS date_format_as_str "find_spelling DATE_FORMATS date_format_as_str"
  by unfold_locales (auto simp: DATE_FORMATS_def split: date_format.split intro: date_format.exhaust)

text \<open>What one part promises, given the names of the pattern's counters.\<close>

definition counter_ok :: "counter \<Rightarrow> bool" where
  "counter_ok c \<longleftrightarrow> is_identifier (ct_name c) \<and> one_character (ct_pad c)
     \<and> (case ct_width c of None \<Rightarrow> True | Some w \<Rightarrow> 1 \<le> w \<and> w \<le> MAX_WIDTH)"

definition key_ok :: "string list \<Rightarrow> key option \<Rightarrow> bool" where
  "key_ok names k =
     (case k of
        Some (KCounter name) \<Rightarrow> name \<in> set names
      | Some (KField name) \<Rightarrow> is_identifier name \<and> name \<notin> set names
      | _ \<Rightarrow> True)"

fun part_ok :: "string list \<Rightarrow> part \<Rightarrow> bool" where
  "part_ok names (PLiteral t) \<longleftrightarrow> t \<noteq> [] \<and> list_all is_text t"
| "part_ok names (PCounter c) \<longleftrightarrow> counter_ok c \<and> key_ok names (scope_key (ct_scope c))"
| "part_ok names (PField name) \<longleftrightarrow> is_identifier name"
| "part_ok names (PDate f) \<longleftrightarrow> True"

definition key_relation :: "pattern \<Rightarrow> (string \<times> string) set" where
  "key_relation p =
     {(ct_name c, k) | c k. c \<in> set (counters p) \<and> scope_key (ct_scope c) = Some (KCounter k)}"

definition well_formed_pattern :: "pattern \<Rightarrow> bool" where
  "well_formed_pattern p \<longleftrightarrow>
     distinct (map ct_name (counters p)) \<and> list_all (part_ok (map ct_name (counters p))) p \<and> acyclic (key_relation p)"

text \<open>What a scanned token promises: its key is the name its placeholder stands for.\<close>

fun token_ok :: "part \<Rightarrow> string option \<Rightarrow> bool" where
  "token_ok (PLiteral t) key \<longleftrightarrow> False"
| "token_ok (PCounter c) key \<longleftrightarrow>
     counter_ok c \<and> (case key of
        None \<Rightarrow> ct_scope c = Always \<or> (\<exists>f. scope_key (ct_scope c) = Some (KDate f))
      | Some name \<Rightarrow> is_identifier name \<and> scope_key (ct_scope c) = Some (KField []))"
| "token_ok (PField name) key \<longleftrightarrow> is_identifier name \<and> key = None"
| "token_ok (PDate f) key \<longleftrightarrow> key = None"

fun scanned :: "part list \<Rightarrow> string option list \<Rightarrow> bool" where
  "scanned [] keys \<longleftrightarrow> keys = []"
| "scanned (PLiteral t # parts) keys \<longleftrightarrow> t \<noteq> [] \<and> list_all is_text t \<and> scanned parts keys"
| "scanned (part # parts) [] \<longleftrightarrow> False"
| "scanned (part # parts) (key # keys) \<longleftrightarrow> token_ok part key \<and> scanned parts keys"

definition options_ok :: "options \<Rightarrow> bool" where
  "options_ok ops \<longleftrightarrow>
     (case op_key ops of
        None \<Rightarrow> op_scope ops = Always \<or> (\<exists>f. scope_key (op_scope ops) = Some (KDate f))
      | Some name \<Rightarrow> is_identifier name \<and> scope_key (op_scope ops) = Some (KField []))
     \<and> (case op_width ops of None \<Rightarrow> True | Some w \<Rightarrow> 1 \<le> w \<and> w \<le> MAX_WIDTH)
     \<and> (case op_pad ops of None \<Rightarrow> True | Some c \<Rightarrow> one_character c)"

lemma identifier_name_Inr: "identifier_name s = Inr name \<longleftrightarrow> name = s \<and> is_identifier s"
  by (auto simp: identifier_name_def)

lemma width_value_Some: "width_value v = Some w \<Longrightarrow> 1 \<le> w \<and> w \<le> MAX_WIDTH"
  by (auto simp: width_value_def split: if_splits)

lemma key_option_ok:
  assumes "options_ok ops" and "key_option v scope ops = Inr ops'" and "\<And>k. scope_key (scope k) = Some k"
  shows "options_ok ops'"
proof -
  have "op_scope ops = Always" using assms(2) by (simp add: key_option_def split: if_splits)
  then have "op_key ops = None" using assms(1) by (auto simp: options_ok_def split: option.splits)
  with assms show ?thesis
    by (auto simp: key_option_def options_ok_def identifier_name_Inr split: if_splits option.splits sum.splits)
qed

lemma width_option_ok: "options_ok ops \<Longrightarrow> width_option v ops = Inr ops' \<Longrightarrow> options_ok ops'"
  by (auto simp: width_option_def options_ok_def dest: width_value_Some split: if_splits option.splits)

lemma counter_option_ok: "options_ok ops \<Longrightarrow> counter_option opt ops = Inr ops' \<Longrightarrow> options_ok ops'"
  unfolding counter_option_def
  by (auto split: option.splits if_splits intro: key_option_ok [of ops _ Reset] key_option_ok [of ops _ Per] width_option_ok)
    (auto simp: options_ok_def split: option.splits)

lemma counter_options_ok: "options_ok ops \<Longrightarrow> counter_options opts ops = Inr ops' \<Longrightarrow> options_ok ops'"
  by (induction opts ops rule: counter_options.induct) (auto dest: counter_option_ok split: sum.splits)

lemma one_character_zero: "one_character ''0''"
  by (simp add: one_character_def utf8_width_def)

lemma counter_token_Inr:
  assumes "counter_token body = Inr (part, key)"
  shows "token_ok part key"
proof -
  from assms obtain name ops opts where ops: "is_identifier name" "counter_options opts no_options = Inr ops"
    "part = PCounter (counter_of name ops)" "key = op_key ops"
    by (auto simp: counter_token_def identifier_name_Inr split: list.splits sum.splits)
  have "options_ok no_options" by (simp add: options_ok_def no_options_def)
  from counter_options_ok [OF this ops(2)] ops(1) show ?thesis
    by (simp add: ops(3,4) counter_of_def counter_ok_def options_ok_def one_character_zero split: option.splits)
qed

lemma token_Inr: "pattern_token body = Inr (part, key) \<Longrightarrow> token_ok part key"
  by (auto simp: pattern_token_def identifier_name_Inr intro: counter_token_Inr split: option.splits if_splits sum.splits)

lemma scan_Inr: "scan s = Inr (parts, keys) \<Longrightarrow> scanned parts keys"
proof (induction s arbitrary: parts keys rule: scan.induct)
  case (1 rest)
  from 1(3) consider "rest = []" "parts = []" "keys = []"
    | ps where "rest \<noteq> []" "is_text (hd rest)" "parts = PLiteral (takeWhile is_text rest) # ps"
        "scan (dropWhile is_text rest) = Inr (ps, keys)"
    | part key ps ks where "rest \<noteq> []" "\<not> is_text (hd rest)" "hd rest \<noteq> close_brace" "\<not> close_brace \<notin> set rest"
        "open_brace \<notin> set (takeWhile (\<lambda>c. c \<noteq> close_brace) (tl rest))"
        "pattern_token (takeWhile (\<lambda>c. c \<noteq> close_brace) (tl rest)) = Inr (part, key)" "parts = part # ps" "keys = key # ks"
        "scan (tl (dropWhile (\<lambda>c. c \<noteq> close_brace) (tl rest))) = Inr (ps, ks)"
    by (subst (asm) scan.simps) (auto simp: Let_def split: if_splits sum.splits)
  then show ?case
  proof cases
    case 2
    then show ?thesis
      using 1(1) [OF 2(1,2,4)] by (auto simp: neq_Nil_conv list_all_iff dest: set_takeWhileD)
  next
    case 3
    then show ?thesis
      using 1(2) [OF 3(1-4) refl 3(5,6) refl 3(9)] token_Inr [OF 3(6)] by (cases part) auto
  qed simp
qed

lemma counters_Cons [simp]:
  "counters (PCounter c # parts) = c # counters parts" "counters (PLiteral t # parts) = counters parts"
  "counters (PField name # parts) = counters parts" "counters (PDate f # parts) = counters parts" "counters [] = []"
  by (simp_all add: counters_def List.map_filter_simps)

lemma counters_set: "c \<in> set (counters p) \<longleftrightarrow> PCounter c \<in> set p"
proof (induction p)
  case (Cons a p)
  then show ?case by (cases a) auto
qed simp

lemma resolve_scope_key:
  "scope_key scope = Some k \<Longrightarrow> \<exists>scope'. resolve_scope k' scope = Some scope' \<and> scope_key scope' = Some k'"
  by (cases scope) auto

lemma resolve_keys_scanned:
  "scanned parts keys \<Longrightarrow> \<exists>p. resolve_keys names parts keys = Some p
     \<and> map ct_name (counters p) = map ct_name (counters parts) \<and> list_all (part_ok names) p"
proof (induction names parts keys rule: resolve_keys.induct)
  case (4 names c parts name keys)
  then have ok: "counter_ok c" "is_identifier name" "scope_key (ct_scope c) = Some (KField [])" by auto
  obtain scope where scope: "resolve_scope (resolved_key names name) (ct_scope c) = Some scope"
    "scope_key scope = Some (resolved_key names name)" using resolve_scope_key [OF ok(3)] by blast
  with 4 ok show ?case by (auto simp: counter_ok_def key_ok_def resolved_key_def)
qed (auto simp: key_ok_def)

text \<open>The walk along the keys of one counter finds every cycle through it: the relation of the keys is
  a partial function, and no cycle is longer than the number of counters.\<close>

lemma returns_to_relpow:
  assumes "(current, start) \<in> R ^^ Suc k" and "k < n" and "\<And>a b. (a, b) \<in> R \<longleftrightarrow> key a = Some b"
  shows "returns_to key start n current"
  using assms(1,2)
proof (induction k arbitrary: current n)
  case 0
  then show ?case using assms(3) by (cases n) auto
next
  case (Suc k)
  from Suc.prems(1) obtain next' where step: "(current, next') \<in> R" "(next', start) \<in> R ^^ Suc k"
    by (metis relpow_Suc_D2)
  from Suc.prems(2) obtain m where "n = Suc m" "k < m" by (cases n) auto
  with step Suc.IH [of next' m] assms(3) show ?case by auto
qed

lemma key_relation_key_of:
  assumes "distinct (map ct_name (counters p))"
  shows "(a, b) \<in> key_relation p \<longleftrightarrow> counter_key_of p a = Some b"
proof
  assume "(a, b) \<in> key_relation p"
  then obtain c where c: "c \<in> set (counters p)" "a = ct_name c" "scope_key (ct_scope c) = Some (KCounter b)"
    by (auto simp: key_relation_def)
  from find_distinct_image [OF assms c(1)] c(2,3) show "counter_key_of p a = Some b" by (simp add: counter_key_of_def)
next
  assume "counter_key_of p a = Some b"
  then obtain c where c: "find (\<lambda>d. ct_name d = a) (counters p) = Some c" "scope_key (ct_scope c) = Some (KCounter b)"
    by (auto simp: counter_key_of_def split: option.splits key.splits)
  from c(1) have "c \<in> set (counters p)" "ct_name c = a" by (auto simp: find_Some_iff)
  with c(2) show "(a, b) \<in> key_relation p" by (auto simp: key_relation_def)
qed

lemma card_key_relation:
  assumes "distinct (map ct_name (counters p))"
  shows "finite (key_relation p)" "card (key_relation p) \<le> length (counters p)"
proof -
  have sub: "fst ` key_relation p \<subseteq> set (map ct_name (counters p))" by (auto simp: key_relation_def)
  have inj: "inj_on fst (key_relation p)"
    using key_relation_key_of [OF assms] by (auto simp: inj_on_def)
  then show "finite (key_relation p)" using finite_subset [OF sub] by (simp add: finite_image_iff)
  have "card (fst ` key_relation p) \<le> card (set (map ct_name (counters p)))" by (rule card_mono [OF _ sub]) simp
  then show "card (key_relation p) \<le> length (counters p)"
    using card_image [OF inj] card_length [of "map ct_name (counters p)"] by simp
qed

lemma refuse_counter_cycles_acyclic:
  assumes "distinct (map ct_name (counters p))" and "refuse_counter_cycles p = Inr ()"
  shows "acyclic (key_relation p)"
proof (rule acyclicI, rule allI, rule notI)
  fix x
  assume cycle: "(x, x) \<in> (key_relation p)\<^sup>+"
  then obtain k where k: "0 < k" "k \<le> card (key_relation p)" "(x, x) \<in> key_relation p ^^ k"
    using trancl_finite_eq_relpow [OF card_key_relation(1) [OF assms(1)]] by auto
  from k(1) obtain j where "k = Suc j" by (cases k) auto
  with k card_key_relation(2) [OF assms(1)] have "returns_to (counter_key_of p) x (length (counters p)) x"
    using returns_to_relpow [OF _ _ key_relation_key_of [OF assms(1)], of x x j] by auto
  moreover have "x \<in> ct_name ` set (counters p)" using tranclD [OF cycle] by (auto simp: key_relation_def)
  ultimately show False using assms(2) by (auto simp: refuse_counter_cycles_def list_ex_iff split: if_splits)
qed

lemma parse_pattern_outcome:
  "\<exists>r. parse_pattern text = Some r \<and> (\<forall>p. r = Inr p \<longrightarrow> well_formed_pattern p)"
proof (cases "scan text")
  case (Inr b)
  obtain parts keys where b: "b = (parts, keys)" by force
  let ?names = "map ct_name (counters parts)"
  obtain p where p: "resolve_keys ?names parts keys = Some p" "map ct_name (counters p) = ?names"
    "list_all (part_ok ?names) p" using resolve_keys_scanned [OF scan_Inr] Inr b by blast
  then show ?thesis
    using Inr b refuse_counter_cycles_acyclic [of p]
    by (auto simp: parse_pattern_def well_formed_pattern_def Let_def split: sum.split)
qed (simp add: parse_pattern_def)

text \<open>
  C27. The parser never panics, and each pattern it accepts is well formed: its counters have distinct
  names, every name is an identifier, every width is between 1 and 32 and every pad one character, a
  key names a counter of the pattern exactly when there is one of that name, and no counter is keyed
  by itself through any chain of counters.
\<close>

theorem parsed_pattern_well_formed:
  "\<exists>r. parse_pattern text = Some r \<and> (case r of Inl e \<Rightarrow> True | Inr p \<Rightarrow> well_formed_pattern p)"
  using parse_pattern_outcome [of "text"] by (auto split: sum.split)

section \<open>The spelling of a pattern\<close>

fun spell_key :: "key \<Rightarrow> string" where
  "spell_key (KField name) = name"
| "spell_key (KCounter name) = name"
| "spell_key (KDate f) = ''date:'' @ date_format_as_str f"

fun spell_scope :: "scope \<Rightarrow> string list" where
  "spell_scope Always = []"
| "spell_scope (Reset k) = [''reset='' @ spell_key k]"
| "spell_scope (Per k) = [''per='' @ spell_key k]"

definition spell_options :: "counter \<Rightarrow> string list" where
  "spell_options c =
     spell_scope (ct_scope c)
     @ (case ct_width c of None \<Rightarrow> [] | Some w \<Rightarrow> [''width='' @ show_nat w])
     @ (if ct_pad c = ''0'' then [] else [''pad='' @ ct_pad c])
     @ (if ct_hex c then [''hex''] else [])"

fun spell_body :: "part \<Rightarrow> string" where
  "spell_body (PLiteral t) = t"
| "spell_body (PCounter c) = ''seq:'' @ ct_name c @ concat (map (\<lambda>opt. CHR '','' # opt) (spell_options c))"
| "spell_body (PField name) = ''field:'' @ name"
| "spell_body (PDate f) = ''date:'' @ date_format_as_str f"

fun spell_part :: "part \<Rightarrow> string" where
  "spell_part (PLiteral t) = t"
| "spell_part part = open_brace # spell_body part @ [close_brace]"

definition spell_pattern :: "pattern \<Rightarrow> string" where
  "spell_pattern p = concat (map spell_part p)"

text \<open>A pattern that a text can spell: no two literals meet, and no pad is a separator.\<close>

definition spellable_pad :: "string \<Rightarrow> bool" where
  "spellable_pad pad \<longleftrightarrow> list_all (\<lambda>c. is_text c \<and> c \<noteq> CHR '','') pad"

fun spellable :: "pattern \<Rightarrow> bool" where
  "spellable [] \<longleftrightarrow> True"
| "spellable (PLiteral t # PLiteral u # parts) \<longleftrightarrow> False"
| "spellable (PCounter c # parts) \<longleftrightarrow> spellable_pad (ct_pad c) \<and> spellable parts"
| "spellable (part # parts) \<longleftrightarrow> spellable parts"

fun raw_key :: "key \<Rightarrow> string option" where
  "raw_key (KDate f) = None"
| "raw_key (KField name) = Some name"
| "raw_key (KCounter name) = Some name"

fun placeholder_key :: "key \<Rightarrow> key" where
  "placeholder_key (KDate f) = KDate f"
| "placeholder_key k = KField []"

fun placeholder_scope :: "scope \<Rightarrow> scope" where
  "placeholder_scope Always = Always"
| "placeholder_scope (Reset k) = Reset (placeholder_key k)"
| "placeholder_scope (Per k) = Per (placeholder_key k)"

fun unresolved :: "part \<Rightarrow> part" where
  "unresolved (PCounter c) = PCounter (c\<lparr>ct_scope := placeholder_scope (ct_scope c)\<rparr>)"
| "unresolved part = part"

fun raw_keys :: "pattern \<Rightarrow> string option list" where
  "raw_keys [] = []"
| "raw_keys (PLiteral t # parts) = raw_keys parts"
| "raw_keys (PCounter c # parts) = Option.bind (scope_key (ct_scope c)) raw_key # raw_keys parts"
| "raw_keys (_ # parts) = None # raw_keys parts"

lemma split_on_join:
  "c \<notin> set x \<Longrightarrow> \<forall>s \<in> set xs. c \<notin> set s \<Longrightarrow> split_on c (x @ concat (map (\<lambda>s. c # s) xs)) = x # xs"
proof (induction xs arbitrary: x)
  case Nil
  then show ?case by (induction x) auto
next
  case (Cons y ys)
  from Cons.prems(1) show ?case
  proof (induction x)
    case Nil
    with Cons show ?case by simp
  qed auto
qed

lemma strip_prefix_append [simp]: "strip_prefix p (p @ s) = Some s"
  by (simp add: strip_prefix_def)

lemma identifier_chars:
  assumes "is_identifier name" and "c \<in> set name"
  shows "is_ascii_lowercase c \<or> is_digit c \<or> c = CHR ''_''"
  using assms by (auto simp: is_identifier_def list_all_iff split: list.splits)

lemma identifier_no_separator:
  assumes "is_identifier name"
  shows "list_all (\<lambda>c. is_text c \<and> c \<noteq> CHR '','' \<and> c \<noteq> CHR '':'') name"
  using identifier_chars [OF assms]
  by (fastforce simp: list_all_iff is_text_def is_ascii_lowercase_def is_digit_def)

lemma identifier_not_date: "is_identifier name \<Longrightarrow> strip_prefix ''date:'' name = None"
proof -
  assume name: "is_identifier name"
  have "take 5 name \<noteq> ''date:''"
  proof
    assume "take 5 name = ''date:''"
    then have "CHR '':'' \<in> set (take 5 name)" by simp
    then show False using identifier_no_separator [OF name] set_take_subset [of 5 name] by (auto simp: list_all_iff)
  qed
  then show ?thesis by (simp add: strip_prefix_def numeral_eq_Suc)
qed

lemma date_format_spelling [simp]: "read_date_format (date_format_as_str f) = Inr f"
  by (simp add: read_date_format_def date_vocabulary.parse_spell)

lemma width_value_spelling: "1 \<le> w \<Longrightarrow> w \<le> MAX_WIDTH \<Longrightarrow> width_value (show_nat w) = Some w"
  by (auto simp: width_value_def MAX_WIDTH_def list_all_iff show_nat_digits)

text \<open>Each spelled option is read as the option it spells.\<close>

lemma key_option_spelling:
  assumes "op_scope ops = Always" and "op_key ops = None" and "key_ok names (Some k)" and "\<forall>name \<in> set names. is_identifier name"
  shows "key_option (spell_key k) scope ops = Inr (ops\<lparr>op_key := raw_key k, op_scope := scope (placeholder_key k)\<rparr>)"
proof (cases k)
  case (KDate f)
  with assms(1,2) show ?thesis by (cases ops) (simp add: key_option_def strip_prefix_def)
qed (use assms identifier_not_date in \<open>auto simp: key_option_def key_ok_def identifier_name_def\<close>)

lemma scope_option_spelling:
  "counter_option (''reset='' @ v) ops = key_option v Reset ops" "counter_option (''per='' @ v) ops = key_option v Per ops"
  "counter_option (''width='' @ v) ops = width_option v ops"
  by (simp_all add: counter_option_def) (simp_all add: strip_prefix_def)

lemma pad_option_spelling:
  "one_character pad \<Longrightarrow> op_pad ops = None \<Longrightarrow> counter_option (''pad='' @ pad) ops = Inr (ops\<lparr>op_pad := Some pad\<rparr>)"
  by (simp add: counter_option_def strip_prefix_def)

lemma hex_option_spelling: "\<not> op_hex ops \<Longrightarrow> counter_option ''hex'' ops = Inr (ops\<lparr>op_hex := True\<rparr>)"
  by (simp add: counter_option_def strip_prefix_def)

lemma counter_options_append:
  "counter_options (xs @ ys) ops = (case counter_options xs ops of Inl e \<Rightarrow> Inl e | Inr ops' \<Rightarrow> counter_options ys ops')"
  by (induction xs arbitrary: ops) (auto split: sum.split)

text \<open>The options a counter spells, read from none.\<close>

definition options_of :: "counter \<Rightarrow> options" where
  "options_of c =
     \<lparr>op_scope = placeholder_scope (ct_scope c), op_key = Option.bind (scope_key (ct_scope c)) raw_key,
      op_width = ct_width c, op_pad = (if ct_pad c = ''0'' then None else Some (ct_pad c)), op_hex = ct_hex c\<rparr>"

lemma scope_spelling:
  assumes "key_ok names (scope_key scope)" and "\<forall>name \<in> set names. is_identifier name"
  shows "counter_options (spell_scope scope) no_options =
    Inr (no_options\<lparr>op_key := Option.bind (scope_key scope) raw_key, op_scope := placeholder_scope scope\<rparr>)"
proof (cases scope)
  case (Reset k)
  with assms key_option_spelling [of no_options names k Reset] show ?thesis
    by (simp only: spell_scope.simps counter_options.simps scope_option_spelling) (simp add: no_options_def)
next
  case (Per k)
  with assms key_option_spelling [of no_options names k Per] show ?thesis
    by (simp only: spell_scope.simps counter_options.simps scope_option_spelling) (simp add: no_options_def)
qed (simp add: no_options_def)

lemma width_spelling:
  assumes "counter_ok c" and "op_width ops = None"
  shows "counter_options (case ct_width c of None \<Rightarrow> [] | Some w \<Rightarrow> [''width='' @ show_nat w]) ops
    = Inr (ops\<lparr>op_width := ct_width c\<rparr>)"
proof (cases "ct_width c")
  case None
  with assms(2) show ?thesis by (cases ops) simp
next
  case (Some w)
  then have "width_value (show_nat w) = Some w" using assms(1) by (simp add: counter_ok_def width_value_spelling)
  with Some assms(2) show ?thesis
    by (simp only: option.case counter_options.simps scope_option_spelling) (simp add: width_option_def)
qed

lemma pad_spelling:
  assumes "counter_ok c" and "op_pad ops = None"
  shows "counter_options (if ct_pad c = ''0'' then [] else [''pad='' @ ct_pad c]) ops
    = Inr (ops\<lparr>op_pad := if ct_pad c = ''0'' then None else Some (ct_pad c)\<rparr>)"
proof (cases "ct_pad c = ''0''")
  case True
  with assms(2) show ?thesis by (cases ops) simp
next
  case False
  then have "counter_option (''pad='' @ ct_pad c) ops = Inr (ops\<lparr>op_pad := Some (ct_pad c)\<rparr>)"
    using assms by (intro pad_option_spelling) (simp_all add: counter_ok_def)
  with False show ?thesis by (simp only: if_False counter_options.simps) simp
qed

lemma hex_spelling: "\<not> op_hex ops \<Longrightarrow> counter_options (if h then [''hex''] else []) ops = Inr (ops\<lparr>op_hex := h\<rparr>)"
  by (cases ops) (simp add: hex_option_spelling)

lemma options_spelling:
  assumes "counter_ok c" and "key_ok names (scope_key (ct_scope c))" and "\<forall>name \<in> set names. is_identifier name"
  shows "counter_options (spell_options c) no_options = Inr (options_of c)"
proof -
  let ?o1 = "no_options\<lparr>op_key := Option.bind (scope_key (ct_scope c)) raw_key, op_scope := placeholder_scope (ct_scope c)\<rparr>"
  let ?o2 = "?o1\<lparr>op_width := ct_width c\<rparr>"
  let ?o3 = "?o2\<lparr>op_pad := if ct_pad c = ''0'' then None else Some (ct_pad c)\<rparr>"
  note scope = scope_spelling [OF assms(2,3)]
  have none: "op_width ?o1 = None" "op_pad ?o2 = None" "\<not> op_hex ?o3" by (simp_all add: no_options_def)
  have "counter_options (spell_options c) no_options = Inr (?o3\<lparr>op_hex := ct_hex c\<rparr>)"
    unfolding spell_options_def counter_options_append scope sum.case width_spelling [OF assms(1) none(1)]
      pad_spelling [OF assms(1) none(2)] by (rule hex_spelling [OF none(3)])
  then show ?thesis by (simp add: no_options_def options_of_def)
qed

lemma date_format_chars: "c \<in> set (date_format_as_str f) \<Longrightarrow> is_text c \<and> c \<noteq> CHR '',''"
  by (cases f) (auto simp: is_text_def)

lemma digit_chars: "is_digit c \<Longrightarrow> is_text c \<and> c \<noteq> CHR '',''"
  by (auto simp: is_text_def is_digit_def)

lemma spell_options_chars:
  assumes "counter_ok c" and "key_ok names (scope_key (ct_scope c))" and "\<forall>name \<in> set names. is_identifier name"
    and "spellable_pad (ct_pad c)" and "opt \<in> set (spell_options c)"
  shows "list_all (\<lambda>c. is_text c \<and> c \<noteq> CHR '','') opt"
proof -
  have key: "list_all (\<lambda>c. is_text c \<and> c \<noteq> CHR '','') (spell_key k)" if "scope_key (ct_scope c) = Some k" for k
    using assms(2,3) that identifier_no_separator date_format_chars
    by (cases k) (fastforce simp: list_all_iff key_ok_def is_text_def)+
  have scope: "list_all (\<lambda>c. is_text c \<and> c \<noteq> CHR '','') opt" if "opt \<in> set (spell_scope (ct_scope c))"
    using that key by (cases "ct_scope c") (auto simp: is_text_def)
  have width: "list_all (\<lambda>c. is_text c \<and> c \<noteq> CHR '','') (''width='' @ show_nat w)" for w
    using show_nat_digits digit_chars by (auto simp: list_all_iff is_text_def)
  show ?thesis
    using assms(4,5) scope width
    by (auto simp: spell_options_def spellable_pad_def is_text_def split: option.splits if_splits)
qed

lemma counter_spelling:
  assumes "counter_ok c" and "key_ok names (scope_key (ct_scope c))" and "\<forall>name \<in> set names. is_identifier name"
    and "spellable_pad (ct_pad c)"
  shows "pattern_token (spell_body (PCounter c)) = Inr (unresolved (PCounter c), Option.bind (scope_key (ct_scope c)) raw_key)"
proof -
  have name: "is_identifier (ct_name c)" using assms(1) by (simp add: counter_ok_def)
  have "split_on (CHR '','') (ct_name c @ concat (map (\<lambda>opt. CHR '','' # opt) (spell_options c))) = ct_name c # spell_options c"
    using identifier_no_separator [OF name] spell_options_chars [OF assms]
    by (intro split_on_join) (auto simp: list_all_iff)
  then have "counter_token (ct_name c @ concat (map (\<lambda>opt. CHR '','' # opt) (spell_options c)))
      = Inr (PCounter (counter_of (ct_name c) (options_of c)), op_key (options_of c))"
    using name options_spelling [OF assms(1-3)] by (simp add: counter_token_def identifier_name_def)
  then show ?thesis
    using split_once_join [of "CHR '':''" "''seq''"] by (simp add: pattern_token_def counter_of_def options_of_def)
qed

text \<open>One step of the scan over a spelled part.\<close>

lemma scan_literal:
  assumes "t \<noteq> []" and "list_all is_text t" and "rest = [] \<or> hd rest = open_brace" and "scan rest = Inr (parts, keys)"
  shows "scan (t @ rest) = Inr (PLiteral t # parts, keys)"
proof -
  have stop: "takeWhile is_text rest = []" "dropWhile is_text rest = rest"
    using assms(3) by (cases rest; simp add: is_text_def)+
  have "takeWhile is_text (t @ rest) = t" "dropWhile is_text (t @ rest) = rest"
    using assms(2) stop by (simp_all add: list_all_iff takeWhile_append2 dropWhile_append2)
  moreover have "is_text (hd (t @ rest))" using assms(1,2) by (cases t) auto
  ultimately show ?thesis using assms(1,4) by (subst scan.simps) simp
qed

lemma scan_token:
  assumes "list_all is_text body" and "pattern_token body = Inr (part, key)" and "scan rest = Inr (parts, keys)"
  shows "scan (open_brace # body @ close_brace # rest) = Inr (part # parts, key # keys)"
proof -
  have "takeWhile (\<lambda>c. c \<noteq> close_brace) (body @ close_brace # rest) = body"
    "dropWhile (\<lambda>c. c \<noteq> close_brace) (body @ close_brace # rest) = close_brace # rest"
    using assms(1) by (auto simp: list_all_iff is_text_def takeWhile_append2 dropWhile_append2)
  moreover have "open_brace \<notin> set body" using assms(1) by (auto simp: list_all_iff is_text_def)
  ultimately show ?thesis using assms(2,3) by (subst scan.simps) (simp add: is_text_def)
qed

lemma spell_body_text:
  assumes "part_ok names part" and "\<forall>name \<in> set names. is_identifier name" and "spellable [part]"
  shows "list_all is_text (spell_body part)"
proof (cases part)
  case (PCounter c)
  have "list_all is_text (ct_name c)"
    using assms(1) PCounter identifier_no_separator [of "ct_name c"] by (auto simp: counter_ok_def list_all_iff)
  moreover have "\<forall>opt \<in> set (spell_options c). list_all is_text opt"
    using assms PCounter spell_options_chars [of c names] by (fastforce simp: list_all_iff)
  ultimately show ?thesis using PCounter by (auto simp: list_all_iff is_text_def)
next
  case (PField name)
  with assms(1) identifier_no_separator [of name] show ?thesis by (auto simp: list_all_iff is_text_def)
next
  case (PDate f)
  with date_format_chars show ?thesis by (auto simp: list_all_iff is_text_def)
qed (use assms(1) in simp)

lemma spellable_Cons: "spellable (part # parts) \<Longrightarrow> spellable [part] \<and> spellable parts"
  by (cases part; cases parts) (auto elim: spellable.elims)

lemma spelled_start:
  assumes "spellable (PLiteral t # parts)"
  shows "spell_pattern parts = [] \<or> hd (spell_pattern parts) = open_brace"
proof (cases parts)
  case (Cons part rest)
  with assms show ?thesis by (cases part) (auto simp: spell_pattern_def)
qed (simp add: spell_pattern_def)

lemma scan_spelling:
  assumes "list_all (part_ok names) p" and "\<forall>name \<in> set names. is_identifier name" and "spellable p"
  shows "scan (spell_pattern p) = Inr (map unresolved p, raw_keys p)"
  using assms(1,3)
proof (induction p)
  case Nil
  then show ?case by (simp add: spell_pattern_def scan.simps)
next
  case (Cons part parts)
  then have ok: "part_ok names part" "spellable [part]" "scan (spell_pattern parts) = Inr (map unresolved parts, raw_keys parts)"
    using spellable_Cons by auto
  note chars = spell_body_text [OF ok(1) assms(2) ok(2)]
  show ?case
  proof (cases part)
    case (PLiteral t)
    with ok(1) scan_literal [OF _ _ spelled_start ok(3)] Cons.prems(2) show ?thesis by (simp add: spell_pattern_def)
  next
    case (PCounter c)
    with ok(1,2) scan_token [OF chars _ ok(3)] counter_spelling [of c names] assms(2) show ?thesis
      by (simp add: spell_pattern_def)
  next
    case (PField name)
    with ok(1) scan_token [OF chars _ ok(3)] split_once_join [of "CHR '':''" "''field''" name] show ?thesis
      by (simp add: spell_pattern_def pattern_token_def identifier_name_def)
  next
    case (PDate f)
    with scan_token [OF chars _ ok(3)] split_once_join [of "CHR '':''" "''date''" "date_format_as_str f"] show ?thesis
      by (simp add: spell_pattern_def pattern_token_def)
  qed
qed

lemma resolve_scope_spelling:
  assumes "key_ok names (scope_key scope)" and "Option.bind (scope_key scope) raw_key = Some name"
  shows "resolve_scope (resolved_key names name) (placeholder_scope scope) = Some scope"
  using assms by (cases scope; auto simp: resolved_key_def key_ok_def split: key.splits elim: raw_key.elims)

lemma resolve_spelling:
  "list_all (part_ok names) p \<Longrightarrow> resolve_keys names (map unresolved p) (raw_keys p) = Some p"
proof (induction p)
  case (Cons part parts)
  show ?case
  proof (cases part)
    case (PCounter c)
    show ?thesis
    proof (cases "Option.bind (scope_key (ct_scope c)) raw_key")
      case None
      then have "placeholder_scope (ct_scope c) = ct_scope c"
        by (cases "ct_scope c") (auto elim!: raw_key.elims split: Option.bind_splits)
      with Cons PCounter None show ?thesis by simp
    next
      case (Some name)
      with Cons PCounter resolve_scope_spelling [OF _ Some] show ?thesis by simp
    qed
  qed (use Cons in auto)
qed simp

lemma returns_to_trancl:
  "returns_to key start n current \<Longrightarrow> (\<And>a b. key a = Some b \<Longrightarrow> (a, b) \<in> R) \<Longrightarrow> (current, start) \<in> R\<^sup>+"
proof (induction key start n current rule: returns_to.induct)
  case (2 key start n current)
  then show ?case by (fastforce split: option.splits if_splits intro: trancl_into_trancl2)
qed simp

lemma spelled_pattern_parses:
  assumes "well_formed_pattern p" and "spellable p"
  shows "parse_pattern (spell_pattern p) = Some (Inr p)"
proof -
  let ?names = "map ct_name (counters p)"
  from assms(1) have wf: "distinct ?names" "list_all (part_ok ?names) p" "acyclic (key_relation p)"
    by (simp_all add: well_formed_pattern_def)
  have ids: "\<forall>name \<in> set ?names. is_identifier name"
    using wf(2) by (auto simp: list_all_iff counters_set counter_ok_def dest!: bspec)
  have names: "map ct_name (counters (map unresolved q)) = map ct_name (counters q)" for q
  proof (induction q)
    case (Cons a q)
    then show ?case by (cases a) auto
  qed simp
  have "\<not> returns_to (counter_key_of p) (ct_name c) n (ct_name c)" for c :: counter and n
    using returns_to_trancl [of "counter_key_of p" "ct_name c" n "ct_name c" "key_relation p"]
      key_relation_key_of [OF wf(1)] wf(3) by (auto simp: acyclic_def)
  then have "refuse_counter_cycles p = Inr ()" by (simp add: refuse_counter_cycles_def list_ex_iff)
  then show ?thesis
    using scan_spelling [OF wf(2) ids assms(2)] wf(1) resolve_spelling [OF wf(2)] names [of p]
    by (simp add: parse_pattern_def Let_def)
qed


text \<open>The pattern the documentation gives as its example.\<close>

definition batch_pattern :: pattern where
  "batch_pattern =
     [PLiteral ''B'',
      PCounter \<lparr>ct_name = ''batch'', ct_scope = Per (KField ''batch_id''), ct_width = Some 4, ct_pad = ''0'', ct_hex = False\<rparr>,
      PLiteral ''-'',
      PCounter \<lparr>ct_name = ''line'', ct_scope = Reset (KCounter ''batch''), ct_width = Some 3, ct_pad = ''0'', ct_hex = False\<rparr>]"

lemma unkeyed_acyclic: "(\<And>c k. c \<in> set (counters p) \<Longrightarrow> scope_key (ct_scope c) \<noteq> Some (KCounter k)) \<Longrightarrow> acyclic (key_relation p)"
  by (auto simp: key_relation_def acyclic_def elim: tranclE)

lemma batch_pattern_well_formed: "well_formed_pattern batch_pattern"
proof -
  have "key_relation batch_pattern \<subseteq> {(''line'', ''batch'')}"
    by (auto simp: key_relation_def batch_pattern_def)
  then have "acyclic (key_relation batch_pattern)"
    by (rule acyclic_subset [rotated]) (simp add: acyclic_insert, simp add: acyclic_def)
  moreover have "distinct (map ct_name (counters batch_pattern))
      \<and> list_all (part_ok (map ct_name (counters batch_pattern))) batch_pattern"
    by code_simp
  ultimately show ?thesis by (simp add: well_formed_pattern_def)
qed

lemma batch_pattern_spelled:
  "spellable batch_pattern"
  "spell_pattern batch_pattern = ''B{seq:batch,per=batch_id,width=4}-{seq:line,reset=batch,width=3}''"
  by code_simp+


end
