(* ===== verification/Numbering.thy ===== *)
theory Numbering
  imports Number_Pattern Json "HOL-Library.Multiset"
begin

text \<open>
  The document-number renderer (\<^verbatim>\<open>wamn_postgres/numbering.rs\<close>), the write of one counter
  (\<^verbatim>\<open>numbering/set.rs\<close>) and the tables and functions of \<^verbatim>\<open>deploy/sql/app-schema.sql\<close> they call. A table of
  counters is a map from its primary key, and a call of a function is one transition of it: the row
  locks are held until the transaction ends. What \<^verbatim>\<open>to_char\<close> answers for a time zone is a parameter. A
  failed statement changes nothing, an error is its \<^verbatim>\<open>SQLSTATE\<close>, and \<^const>\<open>None\<close> is a panic.
\<close>

section \<open>The tables\<close>

record number_sequence =
  ns_id :: string
  ns_application :: string
  ns_name :: string
  ns_pattern :: string

text \<open>The value of a counter by sequence, counter and key.\<close>

type_synonym counter_table = "string \<Rightarrow> string \<Rightarrow> string \<Rightarrow> int option"

record setting =
  st_scope_type :: string
  st_scope_id :: string
  st_key :: string
  st_value :: json

record numbering =
  nu_sequences :: "number_sequence list"
  nu_counters :: counter_table
  nu_settings :: "setting list"

definition put_counter :: "string \<Rightarrow> string \<Rightarrow> string \<Rightarrow> int \<Rightarrow> numbering \<Rightarrow> numbering" where
  "put_counter s c k v db =
     db\<lparr>nu_counters := (nu_counters db)(s := (nu_counters db s)(c := (nu_counters db s c)(k := Some v)))\<rparr>"

section \<open>The functions of the database\<close>

definition I64_MAX :: int where "I64_MAX = 9223372036854775807"

definition sequence_exists :: "numbering \<Rightarrow> string \<Rightarrow> bool" where
  "sequence_exists db s = list_ex (\<lambda>q. ns_id q = s) (nu_sequences db)"

text \<open>The insert of a counter row at 2, or its increment, which returns the value before it.\<close>

definition advance_counter ::
    "numbering \<Rightarrow> string \<Rightarrow> string \<Rightarrow> string \<Rightarrow> (string, int \<times> numbering) result" where
  "advance_counter db s c k =
     (if c = [] then Inl ''23514''
      else
        (case nu_counters db s c k of
           None \<Rightarrow> Inr (1, put_counter s c k 2 db)
         | Some v \<Rightarrow> if I64_MAX < v + 1 then Inl ''22003'' else Inr (v, put_counter s c k (v + 1) db)))"

definition bump_counter :: "numbering \<Rightarrow> string \<Rightarrow> string \<Rightarrow> string \<Rightarrow> (string, int \<times> numbering) result" where
  "bump_counter db s c k = (if \<not> sequence_exists db s then Inl ''42704'' else advance_counter db s c k)"

definition assign_counter :: "numbering \<Rightarrow> string \<Rightarrow> string \<Rightarrow> string \<Rightarrow> (string, int \<times> numbering) result" where
  "assign_counter db s c k =
     (if \<not> sequence_exists db s then Inl ''42704''
      else if k = [] then Inl ''22023''
      else
        (case nu_counters db s c k of
           Some v \<Rightarrow> Inr (v, db)
         | None \<Rightarrow>
             (case advance_counter db s c [] of
                Inl e \<Rightarrow> Inl e
              | Inr (v, db') \<Rightarrow> Inr (v, put_counter s c k v db'))))"

definition set_counter_row ::
    "numbering \<Rightarrow> string \<Rightarrow> string \<Rightarrow> string \<Rightarrow> int \<Rightarrow> (string, numbering) result" where
  "set_counter_row db s c k v =
     (if \<not> sequence_exists db s then Inl ''42704''
      else if v < 1 then Inl ''22023''
      else if c = [] then Inl ''23514''
      else Inr (put_counter s c k v db))"

text \<open>The row of a sequence of an application, and the time zone setting of the application.\<close>

definition sequence_row :: "numbering \<Rightarrow> string \<Rightarrow> string \<Rightarrow> number_sequence option \<times> json option" where
  "sequence_row db application name =
     (find (\<lambda>q. ns_application q = application \<and> ns_name q = name) (nu_sequences db),
      map_option st_value
        (find (\<lambda>t. st_scope_type t = ''application'' \<and> st_scope_id t = application \<and> st_key t = ''timezone'')
          (nu_settings db)))"

section \<open>The renderer\<close>

datatype number_call = Next | Peek

datatype number_failure = Refused string | Postgres string

definition NO_NUMBER_ISSUED :: string where "NO_NUMBER_ISSUED = ''P0002''"
definition UNKNOWN_SEQUENCE :: string where "UNKNOWN_SEQUENCE = ''42704''"
definition INVALID_INPUT :: string where "INVALID_INPUT = ''22023''"
definition NULL_FIELD :: string where "NULL_FIELD = ''22004''"

datatype timezone = Unset | ZoneText string | NotText

fun timezone_of :: "json option \<Rightarrow> timezone" where
  "timezone_of None = Unset"
| "timezone_of (Some (JString zone)) = ZoneText zone"
| "timezone_of (Some _) = NotText"

text \<open>What the database answers for the date in a zone, with or without the ISO year.\<close>

type_synonym date_query = "string \<Rightarrow> bool \<Rightarrow> (string, string) result"

definition read_dates :: "date_query \<Rightarrow> timezone \<Rightarrow> bool \<Rightarrow> (number_failure, string list) result" where
  "read_dates to_char zone iso_year =
     (case zone of
        Unset \<Rightarrow>
          (case to_char ''UTC'' iso_year of
             Inl e \<Rightarrow> Inl (Postgres e)
           | Inr row \<Rightarrow> Inr (split_on (CHR ''|'') row))
      | NotText \<Rightarrow> Inl (Refused INVALID_INPUT)
      | ZoneText z \<Rightarrow>
          (case to_char z iso_year of
             Inr row \<Rightarrow> Inr (split_on (CHR ''|'') row)
           | Inl e \<Rightarrow> if e = ''22023'' then Inl (Refused INVALID_INPUT) else Inl (Postgres e)))"

definition counter_value ::
    "numbering \<Rightarrow> string \<Rightarrow> counter \<Rightarrow> string \<Rightarrow> bool \<Rightarrow> number_call \<Rightarrow> (string, int option \<times> numbering) result" where
  "counter_value db s c k per call =
     (if call = Next \<and> \<not> per then
        (case bump_counter db s (ct_name c) k of Inl e \<Rightarrow> Inl e | Inr (v, db') \<Rightarrow> Inr (Some v, db'))
      else
        (case (call, nu_counters db s (ct_name c) k) of
           (Next, Some v) \<Rightarrow> Inr (Some v, db)
         | (Next, None) \<Rightarrow>
             (case assign_counter db s (ct_name c) k of Inl e \<Rightarrow> Inl e | Inr (v, db') \<Rightarrow> Inr (Some v, db'))
         | (Peek, stored) \<Rightarrow>
             if per then Inr (stored, db)
             else
               Inr (case stored of None \<Rightarrow> None | Some v \<Rightarrow> if 1 < v then Some (v - 1) else None, db)))"

fun key_map :: "(string \<times> string option) list \<Rightarrow> (string \<rightharpoonup> string option) \<Rightarrow> (number_failure, string \<rightharpoonup> string option) result" where
  "key_map [] m = Inr m"
| "key_map ((name, v) # keys) m =
     (if m name \<noteq> None then Inl (Refused INVALID_INPUT) else key_map keys (m(name \<mapsto> v)))"

fun key_values :: "string list \<Rightarrow> (string \<rightharpoonup> string option) \<Rightarrow> (number_failure, string \<rightharpoonup> string) result" where
  "key_values [] keys = Inr Map.empty"
| "key_values (field # fs) keys =
     (case keys field of
        None \<Rightarrow> Inl (Refused INVALID_INPUT)
      | Some None \<Rightarrow> Inl (Refused NULL_FIELD)
      | Some (Some v) \<Rightarrow>
          if v = [] then Inl (Refused INVALID_INPUT)
          else (case key_values fs keys of Inl e \<Rightarrow> Inl e | Inr m \<Rightarrow> Inr (m(field \<mapsto> v))))"

fun part_date :: "part \<Rightarrow> date_format option" where
  "part_date (PDate f) = Some f"
| "part_date (PCounter c) = (case scope_key (ct_scope c) of Some (KDate f) \<Rightarrow> Some f | _ \<Rightarrow> None)"
| "part_date _ = None"

definition date_formats :: "pattern \<Rightarrow> date_format list" where
  "date_formats p = List.map_filter part_date p"

definition date_text :: "string list option \<Rightarrow> date_format \<Rightarrow> string option" where
  "date_text dates f =
     (case dates of
        None \<Rightarrow> None
      | Some ds \<Rightarrow>
          (let i = length (takeWhile (\<lambda>g. g \<noteq> f) DATE_FORMATS) in if i < length ds then Some (ds ! i) else None))"

text \<open>The order in which the counters of a pattern are taken.\<close>

definition is_ready :: "counter list \<Rightarrow> counter \<Rightarrow> bool" where
  "is_ready ordered c =
     (case scope_key (ct_scope c) of Some (KCounter other) \<Rightarrow> list_ex (\<lambda>d. ct_name d = other) ordered | _ \<Rightarrow> True)"

function order_counters :: "counter list \<Rightarrow> counter list \<Rightarrow> counter list option" where
  "order_counters pending ordered =
     (if pending = [] then Some ordered
      else
        (case List.extract (is_ready ordered) pending of
           None \<Rightarrow> None
         | Some (before, c, after) \<Rightarrow> order_counters (before @ after) (ordered @ [c])))"
  by pat_completeness auto
termination
  by (relation "measure (length \<circ> fst)") (auto simp: extract_Some_iff)

declare order_counters.simps [simp del]

definition counter_order :: "pattern \<Rightarrow> counter list option" where
  "counter_order p = order_counters (sort_key ct_name (counters p)) []"

definition HEX_digit :: "nat \<Rightarrow> char" where
  "HEX_digit d = (if d < 10 then char_of (48 + d) else char_of (55 + d))"

fun show_HEX :: "nat \<Rightarrow> string" where
  "show_HEX n = (if n < 16 then [HEX_digit n] else show_HEX (n div 16) @ [HEX_digit (n mod 16)])"

declare show_HEX.simps [simp del]

definition counter_digits :: "bool \<Rightarrow> int \<Rightarrow> string" where
  "counter_digits hex v =
     (if hex then show_HEX (nat (v mod 2 ^ 64))
      else if v < 0 then CHR ''-'' # show_nat (nat (- v)) else show_nat (nat v))"

definition render_counter :: "counter \<Rightarrow> int \<Rightarrow> string" where
  "render_counter c v =
     (let digits = counter_digits (ct_hex c) v;
          width = (case ct_width c of None \<Rightarrow> 0 | Some w \<Rightarrow> w)
      in concat (replicate (width - length digits) (ct_pad c)) @ digits)"

text \<open>The key of a counter: empty, a field, the text of another counter, or a date.\<close>

definition counter_key ::
    "(string \<rightharpoonup> string) \<Rightarrow> string list option \<Rightarrow> (string \<rightharpoonup> string) \<Rightarrow> counter \<Rightarrow> string option" where
  "counter_key fs dates rendered c =
     (case scope_key (ct_scope c) of
        None \<Rightarrow> Some []
      | Some (KField field) \<Rightarrow> fs field
      | Some (KCounter other) \<Rightarrow> rendered other
      | Some (KDate f) \<Rightarrow> date_text dates f)"

definition is_per :: "counter \<Rightarrow> bool" where
  "is_per c = (case ct_scope c of Per _ \<Rightarrow> True | _ \<Rightarrow> False)"

fun render_counters ::
    "string \<Rightarrow> (string \<rightharpoonup> string) \<Rightarrow> string list option \<Rightarrow> number_call \<Rightarrow> counter list \<Rightarrow> (string \<rightharpoonup> string) \<Rightarrow> numbering
       \<Rightarrow> ((number_failure, string \<rightharpoonup> string) result \<times> numbering) option" where
  "render_counters s fs dates call [] rendered db = Some (Inr rendered, db)"
| "render_counters s fs dates call (c # cs) rendered db =
     (case counter_key fs dates rendered c of
        None \<Rightarrow> None
      | Some k \<Rightarrow>
          (case counter_value db s c k (is_per c) call of
             Inl e \<Rightarrow> Some (Inl (Postgres e), db)
           | Inr (None, db') \<Rightarrow> Some (Inl (Refused NO_NUMBER_ISSUED), db')
           | Inr (Some v, db') \<Rightarrow>
               render_counters s fs dates call cs (rendered(ct_name c \<mapsto> render_counter c v)) db'))"

fun part_text :: "(string \<rightharpoonup> string) \<Rightarrow> string list option \<Rightarrow> (string \<rightharpoonup> string) \<Rightarrow> part \<Rightarrow> string option" where
  "part_text fs dates rendered (PLiteral t) = Some t"
| "part_text fs dates rendered (PCounter c) = rendered (ct_name c)"
| "part_text fs dates rendered (PField field) = fs field"
| "part_text fs dates rendered (PDate f) = date_text dates f"

definition render_pattern ::
    "string \<Rightarrow> pattern \<Rightarrow> (string \<rightharpoonup> string) \<Rightarrow> string list option \<Rightarrow> number_call \<Rightarrow> numbering
       \<Rightarrow> ((number_failure, string) result \<times> numbering) option" where
  "render_pattern s p fs dates call db =
     (case counter_order p of
        None \<Rightarrow> None
      | Some cs \<Rightarrow>
          (case render_counters s fs dates call cs Map.empty db of
             None \<Rightarrow> None
           | Some (Inl e, db') \<Rightarrow> Some (Inl e, db')
           | Some (Inr rendered, db') \<Rightarrow>
               map_option (\<lambda>texts. (Inr (concat texts), db')) (those (map (part_text fs dates rendered) p))))"

definition pattern_dates :: "date_query \<Rightarrow> timezone \<Rightarrow> pattern \<Rightarrow> (number_failure, string list option) result" where
  "pattern_dates to_char zone p =
     (if date_formats p = [] then Inr None
      else
        (case read_dates to_char zone (Week \<in> set (date_formats p)) of
           Inl e \<Rightarrow> Inl e | Inr ds \<Rightarrow> Inr (Some ds)))"

definition render ::
    "date_query \<Rightarrow> string \<Rightarrow> string \<Rightarrow> (string \<rightharpoonup> string option) \<Rightarrow> number_call \<Rightarrow> numbering
       \<Rightarrow> ((number_failure, string) result \<times> numbering) option" where
  "render to_char application name keys call db =
     (case sequence_row db application name of
        (None, zone) \<Rightarrow> Some (Inl (Refused UNKNOWN_SEQUENCE), db)
      | (Some q, zone) \<Rightarrow>
          (case parse_pattern (ns_pattern q) of
             None \<Rightarrow> None
           | Some (Inl e) \<Rightarrow> Some (Inl (Refused INVALID_INPUT), db)
           | Some (Inr p) \<Rightarrow>
               (case key_values (pattern_fields p) keys of
                  Inl e \<Rightarrow> Some (Inl e, db)
                | Inr fs \<Rightarrow>
                    (case pattern_dates to_char (timezone_of zone) p of
                       Inl e \<Rightarrow> Some (Inl e, db)
                     | Inr dates \<Rightarrow> render_pattern (ns_id q) p fs dates call db))))"

section \<open>The call and the write of a counter\<close>

datatype pg_error =
    SerializationFailure
  | ConnectionUnavailable
  | StatementTimeout
  | UniqueViolation
  | ForeignKeyViolation
  | CheckViolation
  | ExclusionViolation
  | PermissionDenied
  | QueryError string

definition map_pg_error :: "string \<Rightarrow> pg_error" where
  "map_pg_error code =
     (if code = ''40001'' \<or> code = ''40P01'' then SerializationFailure
      else if code = ''57014'' then StatementTimeout
      else if code = ''23505'' then UniqueViolation
      else if code = ''23503'' then ForeignKeyViolation
      else if code = ''23514'' then CheckViolation
      else if code = ''23P01'' then ExclusionViolation
      else if code = ''42501'' then PermissionDenied
      else QueryError code)"

fun statement_failure :: "number_failure \<Rightarrow> pg_error" where
  "statement_failure (Refused code) = QueryError code"
| "statement_failure (Postgres code) = map_pg_error code"

text \<open>A call needs an open operation transaction that holds an application.\<close>

definition render_number ::
    "date_query \<Rightarrow> string option option \<Rightarrow> string \<Rightarrow> (string \<times> string option) list \<Rightarrow> number_call \<Rightarrow> numbering
       \<Rightarrow> ((pg_error, string) result \<times> numbering) option" where
  "render_number to_char transaction name keys call db =
     (case transaction of
        Some (Some application) \<Rightarrow>
          (case key_map keys Map.empty of
             Inl e \<Rightarrow> Some (Inl (statement_failure e), db)
           | Inr m \<Rightarrow>
               map_option (\<lambda>(r, db'). (case r of Inl e \<Rightarrow> Inl (statement_failure e) | Inr t \<Rightarrow> Inr t, db'))
                 (render to_char application name m call db))
      | _ \<Rightarrow> Some (Inl PermissionDenied, db))"

record counter_set =
  cs_application :: string
  cs_sequence :: string
  cs_counter :: string
  cs_key :: string
  cs_value :: int

datatype set_refusal =
    InvalidSetInput string
  | SequenceNotFound
  | CounterNotFound
  | AssignedPerKey
  | SetIdempotencyConflict

datatype set_error = SetRefused set_refusal | SetFailed string

definition set_counter :: "counter_set \<Rightarrow> numbering \<Rightarrow> ((set_error, unit) result \<times> numbering) option" where
  "set_counter x db =
     (case fst (sequence_row db (cs_application x) (cs_sequence x)) of
        None \<Rightarrow> Some (Inl (SetRefused SequenceNotFound), db)
      | Some q \<Rightarrow>
          (case parse_pattern (ns_pattern q) of
             None \<Rightarrow> None
           | Some (Inl e) \<Rightarrow> Some (Inl (SetRefused CounterNotFound), db)
           | Some (Inr p) \<Rightarrow>
               (case find (\<lambda>c. ct_name c = cs_counter x) (counters p) of
                  None \<Rightarrow> Some (Inl (SetRefused CounterNotFound), db)
                | Some target \<Rightarrow>
                    if is_per target then Some (Inl (SetRefused AssignedPerKey), db)
                    else if ct_scope target = Always \<and> cs_key x \<noteq> []
                    then Some (Inl (SetRefused (InvalidSetInput ''key'')), db)
                    else
                      (case set_counter_row db (ns_id q) (cs_counter x) (cs_key x) (cs_value x) of
                         Inl e \<Rightarrow> Some (Inl (SetFailed e), db)
                       | Inr db' \<Rightarrow> Some (Inr (), db')))))"

section \<open>The order of the counters\<close>

text \<open>Each counter comes after the counter its key names.\<close>

fun taken_in_order :: "counter list \<Rightarrow> counter list \<Rightarrow> bool" where
  "taken_in_order ordered [] \<longleftrightarrow> True"
| "taken_in_order ordered (c # cs) \<longleftrightarrow> is_ready ordered c \<and> taken_in_order (ordered @ [c]) cs"

lemma not_ready:
  assumes "\<not> is_ready ordered c"
  obtains k where "scope_key (ct_scope c) = Some (KCounter k)" "k \<notin> ct_name ` set ordered"
proof (cases "scope_key (ct_scope c)")
  case (Some key)
  with assms that show ?thesis by (cases key) (auto simp: is_ready_def list_ex_iff)
qed (use assms in \<open>simp add: is_ready_def\<close>)

lemma some_ready:
  assumes "acyclic (key_relation p)" and "finite (key_relation p)" and "pending \<noteq> []" and "set pending \<subseteq> set (counters p)"
    and "\<And>c k. c \<in> set pending \<Longrightarrow> scope_key (ct_scope c) = Some (KCounter k) \<Longrightarrow> k \<in> ct_name ` set (pending @ ordered)"
  shows "\<exists>c \<in> set pending. is_ready ordered c"
proof (rule ccontr)
  assume none: "\<not> ?thesis"
  have wf: "wf ((key_relation p)\<inverse>)" using assms(1,2) by (simp add: finite_acyclic_wf_converse)
  have "ct_name (hd pending) \<in> ct_name ` set pending" using assms(3) by simp
  from wfE_min [OF wf this] obtain x where x: "x \<in> ct_name ` set pending"
    "\<And>y. (y, x) \<in> (key_relation p)\<inverse> \<Longrightarrow> y \<notin> ct_name ` set pending" by blast
  then obtain c where c: "c \<in> set pending" "x = ct_name c" by blast
  with none obtain k where k: "scope_key (ct_scope c) = Some (KCounter k)" "k \<notin> ct_name ` set ordered"
    using not_ready by blast
  with assms(5) [OF c(1) k(1)] have "k \<in> ct_name ` set pending" by auto
  moreover have "(x, k) \<in> key_relation p" using c k assms(4) by (auto simp: key_relation_def)
  ultimately show False using x(2) by blast
qed

lemma order_counters_total:
  assumes "acyclic (key_relation p)" and "finite (key_relation p)" and "set pending \<subseteq> set (counters p)"
    and "\<And>c k. c \<in> set pending \<Longrightarrow> scope_key (ct_scope c) = Some (KCounter k) \<Longrightarrow> k \<in> ct_name ` set (pending @ ordered)"
  shows "\<exists>cs. order_counters pending ordered = Some (ordered @ cs) \<and> mset cs = mset pending \<and> taken_in_order ordered cs"
  using assms(3,4)
proof (induction pending ordered rule: order_counters.induct)
  case (1 pending ordered)
  show ?case
  proof (cases "pending = []")
    case True
    then show ?thesis by (simp add: order_counters.simps)
  next
    case False
    obtain before c after where ex: "List.extract (is_ready ordered) pending = Some (before, c, after)"
      using some_ready [OF assms(1,2) False 1(2,3)] by (cases "List.extract (is_ready ordered) pending")
        (auto simp: extract_None_iff)
    then have split: "pending = before @ c # after" "is_ready ordered c" by (auto simp: extract_Some_iff)
    have "\<exists>cs. order_counters (before @ after) (ordered @ [c]) = Some ((ordered @ [c]) @ cs)
        \<and> mset cs = mset (before @ after) \<and> taken_in_order (ordered @ [c]) cs"
      by (rule 1(1) [OF False ex refl refl]) (use 1(2,3) split(1) in auto)
    with False ex split show ?thesis by (subst order_counters.simps) auto
  qed
qed

lemma counter_order_total:
  assumes "well_formed_pattern p"
  shows "\<exists>cs. counter_order p = Some cs \<and> mset cs = mset (counters p) \<and> taken_in_order [] cs"
proof -
  from assms have wf: "distinct (map ct_name (counters p))" "list_all (part_ok (map ct_name (counters p))) p"
    "acyclic (key_relation p)" by (simp_all add: well_formed_pattern_def)
  have "k \<in> ct_name ` set (sort_key ct_name (counters p) @ [])"
    if "c \<in> set (sort_key ct_name (counters p))" "scope_key (ct_scope c) = Some (KCounter k)" for c k
    using that wf(2) by (auto simp: counters_set list_all_iff key_ok_def dest!: bspec)
  from order_counters_total [OF wf(3) card_key_relation(1) [OF wf(1)] _ this] show ?thesis
    by (auto simp: counter_order_def)
qed

section \<open>One counter\<close>

text \<open>What the columns of the table hold: a value is at least 1 and fits a \<^verbatim>\<open>bigint\<close>.\<close>

definition values_ok :: "numbering \<Rightarrow> bool" where
  "values_ok db \<longleftrightarrow> (\<forall>s c k v. nu_counters db s c k = Some v \<longrightarrow> 1 \<le> v \<and> v \<le> I64_MAX)"

lemma values_okD: "values_ok db \<Longrightarrow> nu_counters db s c k = Some v \<Longrightarrow> 1 \<le> v"
  by (simp add: values_ok_def)

lemma put_counter_lookup:
  "nu_counters (put_counter s c k v db) s' c' k' = (if s' = s \<and> c' = c \<and> k' = k then Some v else nu_counters db s' c' k')"
  by (simp add: put_counter_def)

lemma put_counter_kept [simp]:
  "nu_sequences (put_counter s c k v db) = nu_sequences db" "nu_settings (put_counter s c k v db) = nu_settings db"
  by (simp_all add: put_counter_def)

lemma values_ok_put: "values_ok db \<Longrightarrow> 1 \<le> v \<Longrightarrow> v \<le> I64_MAX \<Longrightarrow> values_ok (put_counter s c k v db)"
  by (auto simp: values_ok_def put_counter_lookup)

lemma advance_counter_Inr:
  assumes "advance_counter db s c k = Inr (v, db')" and "values_ok db"
  shows "db' = put_counter s c k (v + 1) db" "1 \<le> v" "v + 1 \<le> I64_MAX" "nu_counters db s c k \<in> {None, Some v}"
    "nu_counters db s c k = None \<Longrightarrow> v = 1"
  using assms by (auto simp: advance_counter_def I64_MAX_def dest: values_okD split: if_splits option.splits)

text \<open>A call advances a counter, reads the value of a key, or assigns it one; it never returns without one.\<close>

lemma counter_value_Next:
  assumes "counter_value db s c k (is_per c) Next = Inr (v, db')" and "values_ok db"
  obtains (bumped) w where "\<not> is_per c" "v = Some w" "db' = put_counter s (ct_name c) k (w + 1) db"
        "nu_counters db s (ct_name c) k \<in> {None, Some w}" "1 \<le> w" "w + 1 \<le> I64_MAX"
    | (reused) w where "is_per c" "v = Some w" "db' = db" "nu_counters db s (ct_name c) k = Some w"
    | (assigned) w where "is_per c" "v = Some w" "k \<noteq> []" "nu_counters db s (ct_name c) k = None"
        "db' = put_counter s (ct_name c) k w (put_counter s (ct_name c) [] (w + 1) db)"
        "nu_counters db s (ct_name c) [] \<in> {None, Some w}" "1 \<le> w" "w + 1 \<le> I64_MAX"
proof (cases "is_per c")
  case False
  with assms(1) obtain w where "v = Some w" "advance_counter db s (ct_name c) k = Inr (w, db')"
    by (auto simp: counter_value_def bump_counter_def split: if_splits sum.splits)
  with advance_counter_Inr [OF this(2) assms(2)] False bumped show ?thesis by blast
next
  case per: True
  show ?thesis
  proof (cases "nu_counters db s (ct_name c) k")
    case (Some w)
    with assms(1) per have "v = Some w" "db' = db" by (simp_all add: counter_value_def)
    with per Some reused show ?thesis by blast
  next
    case None
    with assms(1) per obtain w db1 where w: "v = Some w" "k \<noteq> []" "db' = put_counter s (ct_name c) k w db1"
      "advance_counter db s (ct_name c) [] = Inr (w, db1)"
      by (auto simp: counter_value_def assign_counter_def split: if_splits sum.splits)
    with advance_counter_Inr [OF w(4) assms(2)] per None assigned show ?thesis by blast
  qed
qed

lemma counter_value_Peek: "counter_value db s c k per Peek = Inr (v, db') \<Longrightarrow> db' = db"
  by (simp add: counter_value_def split: if_splits)

lemma counter_value_Peek_total: "\<exists>v. counter_value db s c k per Peek = Inr (v, db)"
  by (simp add: counter_value_def)

text \<open>A call changes only rows of the counters it takes, and keeps the columns in their bounds.\<close>

definition only_counters :: "string \<Rightarrow> string set \<Rightarrow> numbering \<Rightarrow> numbering \<Rightarrow> bool" where
  "only_counters s names db db' \<longleftrightarrow>
     values_ok db' \<and> nu_sequences db' = nu_sequences db \<and> nu_settings db' = nu_settings db
     \<and> (\<forall>s' c k. s' \<noteq> s \<or> c \<notin> names \<longrightarrow> nu_counters db' s' c k = nu_counters db s' c k)"

lemma only_counters_refl: "values_ok db \<Longrightarrow> only_counters s names db db"
  by (simp add: only_counters_def)

lemma only_counters_trans:
  "only_counters s names db db1 \<Longrightarrow> only_counters s names' db1 db2 \<Longrightarrow> only_counters s (names \<union> names') db db2"
  by (simp add: only_counters_def)

lemma counter_value_only:
  assumes "counter_value db s c k (is_per c) call = Inr (v, db')" and "values_ok db"
  shows "only_counters s {ct_name c} db db'"
proof (cases call)
  case Peek
  with assms counter_value_Peek have "db' = db" by blast
  with assms(2) show ?thesis by (simp add: only_counters_refl)
next
  case Next
  from counter_value_Next [OF assms(1) [unfolded Next] assms(2)] show ?thesis
    by cases (use assms(2) in \<open>auto simp: only_counters_def put_counter_lookup intro!: values_ok_put\<close>)
qed

text \<open>Peeking after a call reads the value the call issued, while the counter is left alone.\<close>

lemma peek_after_next:
  assumes "counter_value db s c k (is_per c) Next = Inr (v, db')" and "values_ok db"
    and "nu_counters db2 s (ct_name c) k = nu_counters db' s (ct_name c) k"
  shows "counter_value db2 s c k (is_per c) Peek = Inr (v, db2)"
  using counter_value_Next [OF assms(1,2)]
  by cases (use assms(3) in \<open>auto simp: counter_value_def put_counter_lookup\<close>)

section \<open>The counters of a pattern\<close>

lemma render_counters_Cons [consumes 2, case_names failed unissued issued]:
  assumes "render_counters s fs dates call (c # cs) rendered db = Some (r, db')" and "values_ok db"
  obtains (failed) e where "r = Inl (Postgres e)" "db' = db"
    | (unissued) "call = Peek" "r = Inl (Refused NO_NUMBER_ISSUED)" "db' = db"
    | (issued) k v db1 where "counter_key fs dates rendered c = Some k"
        "counter_value db s c k (is_per c) call = Inr (Some v, db1)"
        "render_counters s fs dates call cs (rendered(ct_name c \<mapsto> render_counter c v)) db1 = Some (r, db')"
proof -
  from assms(1) obtain k where k: "counter_key fs dates rendered c = Some k" by (auto split: option.splits)
  show ?thesis
  proof (cases "counter_value db s c k (is_per c) call")
    case (Inl e)
    with assms(1) k have "r = Inl (Postgres e)" "db' = db" by simp_all
    then show ?thesis by (rule failed)
  next
    case (Inr b)
    obtain v db1 where b: "b = (v, db1)" by force
    show ?thesis
    proof (cases v)
      case None
      then have "call = Peek" using Inr b counter_value_Next [OF _ assms(2)] by (cases call) blast+
      moreover from this have "db1 = db" using Inr b counter_value_Peek by blast
      ultimately show ?thesis using assms(1) k Inr b None by (intro unissued) simp_all
    next
      case (Some w)
      with assms(1) k Inr b show ?thesis by (intro issued [of k w db1]) simp_all
    qed
  qed
qed

lemma render_counters_only:
  "render_counters s fs dates call cs rendered db = Some (r, db') \<Longrightarrow> values_ok db
     \<Longrightarrow> only_counters s (ct_name ` set cs) db db'"
proof (induction cs arbitrary: rendered db)
  case (Cons c cs)
  from Cons.prems show ?case
  proof (cases rule: render_counters_Cons)
    case (issued k v db1)
    note first = counter_value_only [OF issued(2) Cons.prems(2)]
    have "only_counters s (ct_name ` set cs) db1 db'"
      using Cons.IH [OF issued(3)] first by (simp add: only_counters_def)
    from only_counters_trans [OF first this] show ?thesis by simp
  qed (use Cons.prems(2) in \<open>simp_all add: only_counters_refl\<close>)
qed (simp add: only_counters_refl)

lemma render_counters_Peek:
  "render_counters s fs dates Peek cs rendered db = Some (r, db') \<Longrightarrow> values_ok db \<Longrightarrow> db' = db"
proof (induction cs arbitrary: rendered db)
  case (Cons c cs)
  from Cons.prems show ?case
  proof (cases rule: render_counters_Cons)
    case (issued k v db1)
    then have "db1 = db" using counter_value_Peek by blast
    with issued(3) Cons.IH Cons.prems(2) show ?thesis by blast
  qed
qed simp

lemma render_counters_Next:
  "render_counters s fs dates Next cs rendered db = Some (r, db') \<Longrightarrow> values_ok db \<Longrightarrow> r \<noteq> Inl (Refused code)"
proof (induction cs arbitrary: rendered db)
  case (Cons c cs)
  from Cons.prems show ?case
  proof (cases rule: render_counters_Cons)
    case (issued k v db1)
    with Cons.IH [OF issued(3)] counter_value_only [OF issued(2) Cons.prems(2)] show ?thesis
      by (simp add: only_counters_def)
  qed auto
qed auto

text \<open>What the renderer reads of a counter's key is known before its turn.\<close>

definition keys_known :: "(string \<rightharpoonup> string) \<Rightarrow> string list option \<Rightarrow> counter \<Rightarrow> bool" where
  "keys_known fs dates c \<longleftrightarrow>
     (case scope_key (ct_scope c) of
        Some (KField field) \<Rightarrow> fs field \<noteq> None
      | Some (KDate f) \<Rightarrow> date_text dates f \<noteq> None
      | _ \<Rightarrow> True)"

lemma counter_key_known:
  assumes "keys_known fs dates c" and "is_ready ordered c" and "\<forall>d \<in> set ordered. rendered (ct_name d) \<noteq> None"
  shows "counter_key fs dates rendered c \<noteq> None"
proof (cases "scope_key (ct_scope c)")
  case (Some k)
  with assms show ?thesis by (cases k) (auto simp: keys_known_def is_ready_def counter_key_def list_ex_iff)
qed (simp add: counter_key_def)

lemma render_counters_total:
  "taken_in_order ordered cs \<Longrightarrow> \<forall>d \<in> set ordered. rendered (ct_name d) \<noteq> None \<Longrightarrow> list_all (keys_known fs dates) cs
     \<Longrightarrow> \<exists>r db'. render_counters s fs dates call cs rendered db = Some (r, db')
       \<and> (\<forall>m. r = Inr m \<longrightarrow> dom rendered \<union> ct_name ` set cs \<subseteq> dom m)"
proof (induction cs arbitrary: ordered rendered db)
  case (Cons c cs)
  obtain k where k: "counter_key fs dates rendered c = Some k"
    using counter_key_known [of fs dates c ordered rendered] Cons.prems by auto
  show ?case
  proof (cases "counter_value db s c k (is_per c) call")
    case (Inr b)
    obtain v db1 where b: "b = (v, db1)" by force
    show ?thesis
    proof (cases v)
      case (Some w)
      have "\<exists>r db'. render_counters s fs dates call cs (rendered(ct_name c \<mapsto> render_counter c w)) db1 = Some (r, db')
          \<and> (\<forall>m. r = Inr m \<longrightarrow> dom (rendered(ct_name c \<mapsto> render_counter c w)) \<union> ct_name ` set cs \<subseteq> dom m)"
        by (rule Cons.IH [of "ordered @ [c]"]) (use Cons.prems in auto)
      with k Inr b Some show ?thesis by auto
    qed (use k Inr b in simp)
  qed (use k in simp)
qed simp

lemma render_counters_peek:
  assumes "render_counters s fs dates Next cs rendered db = Some (Inr m, db')" and "values_ok db"
    and "distinct (map ct_name cs)"
    and "\<And>c k. c \<in> set cs \<Longrightarrow> nu_counters db2 s (ct_name c) k = nu_counters db' s (ct_name c) k"
  shows "render_counters s fs dates Peek cs rendered db2 = Some (Inr m, db2)"
  using assms
proof (induction cs arbitrary: rendered db)
  case (Cons c cs)
  from Cons.prems(1,2) show ?case
  proof (cases rule: render_counters_Cons)
    case (issued k v db1)
    have ok: "values_ok db1" using counter_value_only [OF issued(2) Cons.prems(2)] by (simp add: only_counters_def)
    have "nu_counters db2 s (ct_name c) k = nu_counters db1 s (ct_name c) k"
      using Cons.prems(3,4) render_counters_only [OF issued(3) ok] by (simp add: only_counters_def)
    note peek = peek_after_next [OF issued(2) Cons.prems(2) this]
    have "render_counters s fs dates Peek cs (rendered(ct_name c \<mapsto> render_counter c v)) db2 = Some (Inr m, db2)"
      by (rule Cons.IH [OF issued(3) ok]) (use Cons.prems(3,4) in auto)
    then show ?thesis by (simp only: render_counters.simps issued(1) peek option.case sum.case prod.case)
  qed auto
qed simp

lemma date_text_known: "length ds = 6 \<Longrightarrow> date_text (Some ds) f \<noteq> None"
  by (cases f) (simp_all add: date_text_def DATE_FORMATS_def)

lemma key_values_known: "key_values names keys = Inr fs \<Longrightarrow> field \<in> set names \<Longrightarrow> fs field \<noteq> None"
  by (induction names arbitrary: fs) (auto split: option.splits if_splits sum.splits)

lemma map_filter_member: "y \<in> set (List.map_filter f xs) \<longleftrightarrow> (\<exists>x \<in> set xs. f x = Some y)"
  by (auto simp: List.map_filter_def image_iff)

lemma pattern_fields_set: "field \<in> set (pattern_fields p) \<longleftrightarrow> (\<exists>part \<in> set p. part_field part = Some field)"
  by (simp add: pattern_fields_def map_filter_member)

text \<open>The answer of the database for a date is six texts joined by bars.\<close>

definition six_dates :: "date_query \<Rightarrow> bool" where
  "six_dates to_char \<longleftrightarrow> (\<forall>zone iso_year row. to_char zone iso_year = Inr row \<longrightarrow> length (split_on (CHR ''|'') row) = 6)"

lemma pattern_dates_known:
  assumes "six_dates to_char" and "pattern_dates to_char zone p = Inr dates" and "part \<in> set p" and "part_date part = Some f"
  shows "date_text dates f \<noteq> None"
proof -
  have "f \<in> set (date_formats p)" using assms(3,4) by (auto simp: date_formats_def map_filter_member)
  then have "date_formats p \<noteq> []" by auto
  with assms(2) obtain ds where ds: "dates = Some ds" "read_dates to_char zone (Week \<in> set (date_formats p)) = Inr ds"
    by (auto simp: pattern_dates_def split: sum.splits)
  from ds(2) assms(1) have "length ds = 6"
    by (auto simp: read_dates_def six_dates_def split: timezone.splits sum.splits if_splits)
  with ds(1) date_text_known show ?thesis by blast
qed

lemma those_known: "(\<And>x. x \<in> set xs \<Longrightarrow> f x \<noteq> None) \<Longrightarrow> \<exists>ys. those (map f xs) = Some ys"
  by (induction xs) (auto split: option.split)

lemma render_pattern_total:
  assumes "well_formed_pattern p" and "six_dates to_char" and "pattern_dates to_char zone p = Inr dates"
    and "key_values (pattern_fields p) keys = Inr fs"
  shows "\<exists>r db'. render_pattern s p fs dates call db = Some (r, db')"
proof -
  obtain cs where cs: "counter_order p = Some cs" "mset cs = mset (counters p)" "taken_in_order [] cs"
    using counter_order_total [OF assms(1)] by blast
  have set: "set cs = set (counters p)" using cs(2) by (metis set_mset_mset)
  have field: "fs field \<noteq> None" if "part \<in> set p" "part_field part = Some field" for part field
    using key_values_known [OF assms(4)] that by (auto simp: pattern_fields_set)
  note date = pattern_dates_known [OF assms(2,3)]
  have "keys_known fs dates c" if "c \<in> set cs" for c
    using field [of "PCounter c"] date [of "PCounter c"] that
    by (auto simp: set counters_set keys_known_def split: option.splits key.splits)
  then obtain r db' where r: "render_counters s fs dates call cs Map.empty db = Some (r, db')"
    "\<And>m. r = Inr m \<Longrightarrow> ct_name ` set cs \<subseteq> dom m"
    using render_counters_total [OF cs(3), of Map.empty fs dates s call db] by (auto simp: list_all_iff)
  show ?thesis
  proof (cases r)
    case (Inr m)
    have counter: "m (ct_name c) \<noteq> None" if "PCounter c \<in> set p" for c
    proof -
      have "ct_name c \<in> dom m" using that r(2) [OF Inr] set counters_set by blast
      then show ?thesis by blast
    qed
    have "part_text fs dates m part \<noteq> None" if "part \<in> set p" for part
      by (cases part) (use that field [OF that] date [OF that] counter in auto)
    with those_known [of p "part_text fs dates m"] show ?thesis by (auto simp: render_pattern_def cs(1) r(1) Inr)
  qed (simp add: render_pattern_def cs(1) r(1))
qed

lemma render_pattern_counters:
  assumes "render_pattern s p fs dates call db = Some (r, db')" and "counter_order p = Some cs"
  obtains (failed) e where "render_counters s fs dates call cs Map.empty db = Some (Inl e, db')" "r = Inl e"
    | (rendered) m texts where "render_counters s fs dates call cs Map.empty db = Some (Inr m, db')"
        "those (map (part_text fs dates m) p) = Some texts" "r = Inr (concat texts)"
proof (cases "render_counters s fs dates call cs Map.empty db")
  case (Some b)
  obtain r1 db1 where b: "b = (r1, db1)" by force
  show ?thesis
  proof (cases r1)
    case (Inl e)
    with assms Some b show ?thesis by (intro failed [of e]) (simp_all add: render_pattern_def)
  next
    case (Inr m)
    with assms Some b obtain texts where "those (map (part_text fs dates m) p) = Some texts"
      "r = Inr (concat texts)" "db' = db1" by (auto simp: render_pattern_def)
    with Some b Inr rendered show ?thesis by blast
  qed
qed (use assms in \<open>simp add: render_pattern_def\<close>)

lemma counter_order_names:
  assumes "well_formed_pattern p" and "counter_order p = Some cs"
  shows "set cs = set (counters p)" "distinct (map ct_name cs)"
proof -
  have cs: "mset cs = mset (counters p)" using counter_order_total [OF assms(1)] assms(2) by auto
  then show "set cs = set (counters p)" by (metis set_mset_mset)
  have "mset (map ct_name cs) = mset (map ct_name (counters p))" using cs by simp
  then show "distinct (map ct_name cs)"
    using assms(1) mset_eq_imp_distinct_iff well_formed_pattern_def by blast
qed

lemma render_pattern_only:
  assumes "well_formed_pattern p" and "values_ok db" and "render_pattern s p fs dates call db = Some (r, db')"
  shows "only_counters s (ct_name ` set (counters p)) db db'"
proof -
  obtain cs where cs: "counter_order p = Some cs" using counter_order_total [OF assms(1)] by blast
  note names = counter_order_names [OF assms(1) cs]
  obtain r1 where "render_counters s fs dates call cs Map.empty db = Some (r1, db')"
    by (rule render_pattern_counters [OF assms(3) cs]) auto
  from render_counters_only [OF this assms(2)] show ?thesis by (simp add: names(1))
qed

lemma render_pattern_unchanged:
  assumes "well_formed_pattern p" and "values_ok db" and "render_pattern s p fs dates call db = Some (r, db')"
    and "call = Peek \<or> r = Inl (Refused code)"
  shows "db' = db"
proof -
  obtain cs where cs: "counter_order p = Some cs" using counter_order_total [OF assms(1)] by blast
  obtain r1 where r1: "render_counters s fs dates call cs Map.empty db = Some (r1, db')" "r = Inl e \<Longrightarrow> r1 = Inl e" for e
    by (rule render_pattern_counters [OF assms(3) cs]) auto
  show ?thesis
  proof (cases call)
    case Peek
    with r1(1) render_counters_Peek assms(2) show ?thesis by blast
  next
    case Next
    with assms(4) have "r1 = Inl (Refused code)" using r1(2) by simp
    with r1(1) Next render_counters_Next [OF _ assms(2)] show ?thesis by blast
  qed
qed

lemma render_pattern_peek:
  assumes "well_formed_pattern p" and "values_ok db" and "render_pattern s p fs dates call db = Some (Inr t, db')"
  shows "render_pattern s p fs dates Peek db' = Some (Inr t, db')"
proof (cases call)
  case Peek
  with assms render_pattern_unchanged [OF assms] show ?thesis by simp
next
  case Next
  obtain cs where cs: "counter_order p = Some cs" using counter_order_total [OF assms(1)] by blast
  obtain m texts where m: "render_counters s fs dates Next cs Map.empty db = Some (Inr m, db')"
    "those (map (part_text fs dates m) p) = Some texts" "t = concat texts"
    by (rule render_pattern_counters [OF assms(3) cs]) (auto simp: Next)
  have "render_counters s fs dates Peek cs Map.empty db' = Some (Inr m, db')"
    by (rule render_counters_peek [OF m(1) assms(2) counter_order_names(2) [OF assms(1) cs]]) simp
  with cs m(2,3) show ?thesis by (simp add: render_pattern_def)
qed

text \<open>A call is refused or fails before any counter moves, or renders the pattern of its sequence.\<close>

lemma render_cases [case_names early rendered]:
  obtains (early) e where "\<And>call. render to_char application name keys call db = Some (Inl e, db)"
    | (rendered) q p fs dates zone where "sequence_row db application name = (Some q, zone)"
        "parse_pattern (ns_pattern q) = Some (Inr p)" "well_formed_pattern p"
        "key_values (pattern_fields p) keys = Inr fs" "pattern_dates to_char (timezone_of zone) p = Inr dates"
        "\<And>call db'. sequence_row db' application name = sequence_row db application name
           \<Longrightarrow> render to_char application name keys call db' = render_pattern (ns_id q) p fs dates call db'"
proof -
  obtain row zone where row: "sequence_row db application name = (row, zone)" by force
  show ?thesis
  proof (cases row)
    case None
    with row early show ?thesis by (simp add: render_def)
  next
    case (Some q)
    note row = row [unfolded Some]
    obtain parsed where parsed: "parse_pattern (ns_pattern q) = Some parsed" "\<And>p. parsed = Inr p \<Longrightarrow> well_formed_pattern p"
      using parse_pattern_outcome [of "ns_pattern q"] by blast
    show ?thesis
    proof (cases parsed)
      case (Inl e)
      with row parsed(1) early show ?thesis by (simp add: render_def)
    next
      case p: (Inr p)
      show ?thesis
      proof (cases "key_values (pattern_fields p) keys")
        case (Inl e)
        with row parsed(1) p early show ?thesis by (simp add: render_def)
      next
        case fs: (Inr fs)
        show ?thesis
        proof (cases "pattern_dates to_char (timezone_of zone) p")
          case (Inl e)
          with row parsed(1) p fs early show ?thesis by (simp add: render_def)
        next
          case dates: (Inr dates)
          show ?thesis
            by (rule rendered [OF row parsed(1) [unfolded p] parsed(2) [OF p] fs dates])
              (simp add: render_def row parsed(1) p fs dates)
        qed
      qed
    qed
  qed
qed

lemma sequence_row_only:
  "only_counters s names db db' \<Longrightarrow> sequence_row db' application name = sequence_row db application name"
  by (simp add: only_counters_def sequence_row_def)

lemma render_total:
  assumes "six_dates to_char"
  shows "\<exists>r db'. render to_char application name keys call db = Some (r, db')"
proof (cases rule: render_cases [of to_char application name keys db])
  case (rendered q p fs dates zone)
  then show ?thesis using render_pattern_total [OF rendered(3) assms rendered(5,4)] by simp
qed auto

lemma render_number_total:
  assumes "six_dates to_char"
  shows "\<exists>r db'. render_number to_char transaction name keys call db = Some (r, db')"
proof (cases "\<exists>application m. transaction = Some (Some application) \<and> key_map keys Map.empty = Inr m")
  case True
  then obtain application m where m: "transaction = Some (Some application)" "key_map keys Map.empty = Inr m" by blast
  from render_total [OF assms, of application name m call db] obtain r db'
    where "render to_char application name m call db = Some (r, db')" by blast
  with m show ?thesis by (simp add: render_number_def)
next
  case False
  then show ?thesis by (auto simp: render_number_def split: option.split sum.split)
qed

text \<open>
  A number call always answers: the renderer never panics, whatever the stored pattern, the keys and
  the settings. A call that is refused changes no counter, and peeking changes none; and a number that
  was just rendered is the one that peeking renders next.
\<close>

lemma number_call_answers:
  assumes "values_ok db" and "six_dates to_char"
  shows "\<exists>r db'. render to_char application name keys call db = Some (r, db')
    \<and> (case r of
         Inr t \<Rightarrow> render to_char application name keys Peek db' = Some (Inr t, db')
       | Inl (Refused code) \<Rightarrow> db' = db
       | Inl (Postgres code) \<Rightarrow> True)
    \<and> (call = Peek \<longrightarrow> db' = db)"
proof (cases rule: render_cases [of to_char application name keys db])
  case (early e)
  then show ?thesis by (cases e) auto
next
  case (rendered q p fs dates zone)
  obtain r db' where r: "render_pattern (ns_id q) p fs dates call db = Some (r, db')"
    using render_total [OF assms(2), of application name keys call db] rendered(6) by auto
  note same = rendered(6) [OF sequence_row_only [OF render_pattern_only [OF rendered(3) assms(1) r]]]
  have render: "render to_char application name keys call db = Some (r, db')" using rendered(6) r by simp
  show ?thesis
  proof (cases r)
    case (Inr t)
    with render same r render_pattern_peek [OF rendered(3) assms(1)] render_pattern_unchanged [OF rendered(3) assms(1) r]
    show ?thesis by simp
  next
    case (Inl e)
    with render r render_pattern_unchanged [OF rendered(3) assms(1) r] show ?thesis by (cases e) auto
  qed
qed

section \<open>Histories\<close>

text \<open>A number call that commits, a set that commits; the sequences keep their patterns.\<close>

inductive number_step :: "numbering \<Rightarrow> numbering \<Rightarrow> bool" where
  called: "render to_char application name keys call db = Some (Inr t, db') \<Longrightarrow> number_step db db'"
| counter_set: "set_counter x db = Some (Inr (), db') \<Longrightarrow> cs_value x \<le> I64_MAX \<Longrightarrow> number_step db db'"

inductive call_step :: "numbering \<Rightarrow> numbering \<Rightarrow> bool" where
  call_step: "render to_char application name keys call db = Some (Inr t, db') \<Longrightarrow> call_step db db'"

lemma call_renders:
  assumes "render to_char application name keys call db = Some (Inr t, db')"
  obtains q p fs dates zone where "sequence_row db application name = (Some q, zone)"
    "parse_pattern (ns_pattern q) = Some (Inr p)" "well_formed_pattern p"
    "render_pattern (ns_id q) p fs dates call db = Some (Inr t, db')"
    "key_values (pattern_fields p) keys = Inr fs" "pattern_dates to_char (timezone_of zone) p = Inr dates"
proof (cases rule: render_cases [of to_char application name keys db])
  case (early e)
  with assms show ?thesis by simp
next
  case (rendered q p fs dates zone)
  with assms that show ?thesis by simp
qed

lemma set_counter_Inr:
  assumes "set_counter x db = Some (Inr (), db')"
  obtains q p c where "fst (sequence_row db (cs_application x) (cs_sequence x)) = Some q"
    "parse_pattern (ns_pattern q) = Some (Inr p)" "c \<in> set (counters p)" "ct_name c = cs_counter x" "\<not> is_per c"
    "1 \<le> cs_value x" "db' = put_counter (ns_id q) (cs_counter x) (cs_key x) (cs_value x) db"
proof -
  from assms obtain q where q: "fst (sequence_row db (cs_application x) (cs_sequence x)) = Some q"
    by (auto simp: set_counter_def split: option.splits)
  with assms obtain p where p: "parse_pattern (ns_pattern q) = Some (Inr p)"
    by (auto simp: set_counter_def split: option.splits sum.splits)
  with assms q obtain c where c: "find (\<lambda>c. ct_name c = cs_counter x) (counters p) = Some c"
    by (auto simp: set_counter_def split: option.splits)
  with assms q p have "\<not> is_per c" "1 \<le> cs_value x"
    "db' = put_counter (ns_id q) (cs_counter x) (cs_key x) (cs_value x) db"
    by (auto simp: set_counter_def set_counter_row_def split: if_splits sum.splits)
  moreover from c have "c \<in> set (counters p)" "ct_name c = cs_counter x" by (auto simp: find_Some_iff)
  ultimately show ?thesis using that q p by blast
qed

lemma sequence_row_member: "fst (sequence_row db application name) = Some q \<Longrightarrow> q \<in> set (nu_sequences db)"
  by (auto simp: sequence_row_def find_Some_iff)

lemma number_step_kept:
  assumes "number_step db db'" and "values_ok db"
  shows "values_ok db' \<and> nu_sequences db' = nu_sequences db \<and> nu_settings db' = nu_settings db"
  using assms
proof cases
  case (called to_char application name keys call t)
  obtain s names where "only_counters s names db db'"
    by (rule call_renders [OF called]) (use assms(2) render_pattern_only in blast)
  then show ?thesis by (simp add: only_counters_def)
next
  case (counter_set x)
  show ?thesis
    by (rule set_counter_Inr [OF counter_set(1)]) (use assms(2) counter_set(2) in \<open>auto intro: values_ok_put\<close>)
qed

text \<open>The values a \<^verbatim>\<open>per=\<close> counter has assigned: below its allocator, and no two keys share one.\<close>

definition per_ok :: "counter_table \<Rightarrow> string \<Rightarrow> string \<Rightarrow> bool" where
  "per_ok t s c \<longleftrightarrow>
     (\<forall>k v. k \<noteq> [] \<longrightarrow> t s c k = Some v \<longrightarrow> (\<exists>a. t s c [] = Some a \<and> v < a))
     \<and> (\<forall>k k' v. k \<noteq> [] \<longrightarrow> k' \<noteq> [] \<longrightarrow> t s c k = Some v \<longrightarrow> t s c k' = Some v \<longrightarrow> k = k')"

definition per_kept :: "string \<Rightarrow> string \<Rightarrow> numbering \<Rightarrow> numbering \<Rightarrow> bool" where
  "per_kept s c db db' \<longleftrightarrow>
     per_ok (nu_counters db) s c \<longrightarrow>
       per_ok (nu_counters db') s c
       \<and> (\<forall>k v. k \<noteq> [] \<longrightarrow> nu_counters db s c k = Some v \<longrightarrow> nu_counters db' s c k = Some v)"

lemma per_kept_trans: "per_kept s c db db1 \<Longrightarrow> per_kept s c db1 db2 \<Longrightarrow> per_kept s c db db2"
  by (simp add: per_kept_def)

lemma per_kept_frame: "nu_counters db' s c = nu_counters db s c \<Longrightarrow> per_kept s c db db'"
  by (simp add: per_kept_def per_ok_def)

lemma per_kept_only: "only_counters s' names db db' \<Longrightarrow> s \<noteq> s' \<or> c \<notin> names \<Longrightarrow> per_kept s c db db'"
  by (rule per_kept_frame) (auto simp: only_counters_def)

lemma per_ok_assign:
  assumes "per_ok t s c" and "k \<noteq> []" and "t s c [] \<in> {None, Some w}" and "t s c k = None"
    and "t' s c = (t s c)([] \<mapsto> w + 1, k \<mapsto> w)"
  shows "per_ok t' s c"
proof -
  have old: "v < w" if "j \<noteq> []" "t s c j = Some v" for j v
    using assms(1,3) that unfolding per_ok_def by fastforce
  show ?thesis
    unfolding per_ok_def assms(5)
  proof (intro conjI allI impI)
    fix j v
    assume "j \<noteq> []" "((t s c)([] \<mapsto> w + 1, k \<mapsto> w)) j = Some v"
    then show "\<exists>a. ((t s c)([] \<mapsto> w + 1, k \<mapsto> w)) [] = Some a \<and> v < a"
      using assms(2) old [of j v] by (auto split: if_splits)
  next
    fix j j' v
    assume j: "j \<noteq> []" "j' \<noteq> []" "((t s c)([] \<mapsto> w + 1, k \<mapsto> w)) j = Some v"
      "((t s c)([] \<mapsto> w + 1, k \<mapsto> w)) j' = Some v"
    have "j = j'" if "t s c j = Some v" "t s c j' = Some v"
      using assms(1) j(1,2) that unfolding per_ok_def by blast
    with j old [of j w] old [of j' w] show "j = j'" by (auto split: if_splits)
  qed
qed

lemma counter_value_per:
  assumes "counter_value db s c k (is_per c) call = Inr (v, db')" and "values_ok db" and "is_per c"
  shows "per_kept s (ct_name c) db db'"
proof (cases call)
  case Peek
  with assms counter_value_Peek have "db' = db" by blast
  then show ?thesis by (simp add: per_kept_def)
next
  case Next
  from counter_value_Next [OF assms(1) [unfolded Next] assms(2)] show ?thesis
  proof cases
    case (3 w)
    then have t': "nu_counters db' s (ct_name c) = (nu_counters db s (ct_name c))([] \<mapsto> w + 1, k \<mapsto> w)"
      by (auto simp: put_counter_lookup)
    show ?thesis
      unfolding per_kept_def
      using per_ok_assign [of "nu_counters db" s "ct_name c" k w "nu_counters db'", OF _ 3(3,6,4) t'] 3(3,4)
      by (auto simp: t')
  qed (use assms(3) in \<open>auto simp: per_kept_def\<close>)
qed

lemma render_counters_per:
  "render_counters s' fs dates call cs rendered db = Some (r, db') \<Longrightarrow> values_ok db
     \<Longrightarrow> \<forall>d \<in> set cs. s' = s \<longrightarrow> ct_name d = c \<longrightarrow> is_per d \<Longrightarrow> per_kept s c db db'"
proof (induction cs arbitrary: rendered db)
  case (Cons d cs)
  from Cons.prems(1,2) show ?case
  proof (cases rule: render_counters_Cons)
    case (issued k v db1)
    note only = counter_value_only [OF issued(2) Cons.prems(2)]
    have "per_kept s c db db1"
    proof (cases "s' = s \<and> ct_name d = c")
      case True
      with Cons.prems(3) counter_value_per [OF issued(2) Cons.prems(2)] show ?thesis by auto
    next
      case False
      then have "s \<noteq> s' \<or> c \<notin> {ct_name d}" by auto
      with per_kept_only [OF only] show ?thesis by blast
    qed
    moreover have "per_kept s c db1 db'"
      using Cons.IH [OF issued(3)] only Cons.prems(3) by (simp add: only_counters_def)
    ultimately show ?thesis by (rule per_kept_trans)
  qed (simp_all add: per_kept_def)
qed (simp add: per_kept_def)

lemma distinct_map_unique: "distinct (map f xs) \<Longrightarrow> x \<in> set xs \<Longrightarrow> y \<in> set xs \<Longrightarrow> f x = f y \<Longrightarrow> x = y"
  by (auto simp: distinct_map dest: inj_onD)

lemma number_step_per:
  assumes "number_step db db'" and "values_ok db" and "distinct (map ns_id (nu_sequences db))"
    and "q \<in> set (nu_sequences db)" and "parse_pattern (ns_pattern q) = Some (Inr p)" and "c \<in> set (counters p)" and "is_per c"
  shows "per_kept (ns_id q) (ct_name c) db db'"
proof -
  have wf: "distinct (map ct_name (counters p))"
    using parse_pattern_outcome [of "ns_pattern q"] assms(5) by (auto simp: well_formed_pattern_def)
  have same: "is_per d" if "q' \<in> set (nu_sequences db)" "parse_pattern (ns_pattern q') = Some (Inr p')"
    "ns_id q' = ns_id q" "d \<in> set (counters p')" "ct_name d = ct_name c" for q' p' d
  proof -
    have "q' = q" using distinct_map_unique [OF assms(3) that(1) assms(4) that(3)] .
    then have "d = c" using that assms(5,6) distinct_map_unique [OF wf] by auto
    then show ?thesis using assms(7) by simp
  qed
  from assms(1) show ?thesis
  proof cases
    case (called to_char application name keys call t)
    obtain q' p' fs dates zone where r: "sequence_row db application name = (Some q', zone)"
      "parse_pattern (ns_pattern q') = Some (Inr p')" "well_formed_pattern p'"
      "render_pattern (ns_id q') p' fs dates call db = Some (Inr t, db')" by (rule call_renders [OF called]) blast
    obtain cs where cs: "counter_order p' = Some cs" using counter_order_total [OF r(3)] by blast
    obtain r1 where r1: "render_counters (ns_id q') fs dates call cs Map.empty db = Some (r1, db')"
      by (rule render_pattern_counters [OF r(4) cs]) auto
    have member: "q' \<in> set (nu_sequences db)" by (rule sequence_row_member [of db application name]) (simp add: r(1))
    show ?thesis
      by (rule render_counters_per [OF r1 assms(2)])
        (use same [OF member r(2)] counter_order_names(1) [OF r(3) cs] in auto)
  next
    case (counter_set x)
    show ?thesis
    proof (rule set_counter_Inr [OF counter_set(1)])
      fix q' p' d
      assume d: "fst (sequence_row db (cs_application x) (cs_sequence x)) = Some q'" "parse_pattern (ns_pattern q') = Some (Inr p')"
        "d \<in> set (counters p')" "ct_name d = cs_counter x" "\<not> is_per d"
        "db' = put_counter (ns_id q') (cs_counter x) (cs_key x) (cs_value x) db"
      then have "ns_id q' \<noteq> ns_id q \<or> cs_counter x \<noteq> ct_name c" using same [OF sequence_row_member [OF d(1)] d(2)] by auto
      then show ?thesis by (intro per_kept_frame ext) (auto simp: d(6) put_counter_lookup)
    qed
  qed
qed

lemma number_steps_per:
  assumes "number_step\<^sup>*\<^sup>* db db'" and "values_ok db" and "distinct (map ns_id (nu_sequences db))"
    and "q \<in> set (nu_sequences db)" and "parse_pattern (ns_pattern q) = Some (Inr p)" and "c \<in> set (counters p)" and "is_per c"
  shows "values_ok db' \<and> nu_sequences db' = nu_sequences db \<and> per_kept (ns_id q) (ct_name c) db db'"
  using assms(1)
proof induction
  case base
  with assms(2) show ?case by (simp add: per_kept_def)
next
  case (step db1 db2)
  from step.IH have ok: "values_ok db1" "nu_sequences db1 = nu_sequences db" "per_kept (ns_id q) (ct_name c) db db1" by auto
  have "per_kept (ns_id q) (ct_name c) db1 db2"
    by (rule number_step_per [OF step.hyps(2) ok(1) _ _ assms(5-7)]) (use assms(3,4) ok(2) in simp_all)
  with per_kept_trans [OF ok(3) this] number_step_kept [OF step.hyps(2) ok(1)] ok(2) show ?case by simp
qed

text \<open>
  A \<^verbatim>\<open>per=\<close> counter is an assignment: over every history of number calls and counter sets, of all
  sequences, from a table without rows of the counter, a key that has a value keeps that value for
  ever, and no two keys have the same one.
\<close>

lemma per_values_fixed:
  assumes "values_ok db0" and "distinct (map ns_id (nu_sequences db0))" and "q \<in> set (nu_sequences db0)"
    and "parse_pattern (ns_pattern q) = Some (Inr p)" and "c \<in> set (counters p)" and "is_per c"
    and "\<forall>k. nu_counters db0 (ns_id q) (ct_name c) k = None"
    and "number_step\<^sup>*\<^sup>* db0 db" and "number_step\<^sup>*\<^sup>* db db'" and "k \<noteq> []" and "nu_counters db (ns_id q) (ct_name c) k = Some v"
  shows "nu_counters db' (ns_id q) (ct_name c) k = Some v
    \<and> (\<forall>k'. k' \<noteq> [] \<longrightarrow> nu_counters db' (ns_id q) (ct_name c) k' = Some v \<longrightarrow> k' = k)"
proof -
  have "per_ok (nu_counters db0) (ns_id q) (ct_name c)" using assms(7) by (simp add: per_ok_def)
  with number_steps_per [OF assms(8,1-6)] have db: "values_ok db" "nu_sequences db = nu_sequences db0"
    "per_ok (nu_counters db) (ns_id q) (ct_name c)" by (auto simp: per_kept_def)
  then have "per_kept (ns_id q) (ct_name c) db db'"
    using number_steps_per [OF assms(9) db(1) _ _ assms(4-6)] assms(2,3) by simp
  with db(3) have db': "per_ok (nu_counters db') (ns_id q) (ct_name c)"
    "\<And>k v. k \<noteq> [] \<Longrightarrow> nu_counters db (ns_id q) (ct_name c) k = Some v \<Longrightarrow> nu_counters db' (ns_id q) (ct_name c) k = Some v"
    by (auto simp: per_kept_def)
  have kept: "nu_counters db' (ns_id q) (ct_name c) k = Some v" by (rule db'(2) [OF assms(10,11)])
  with db'(1) assms(10) show ?thesis unfolding per_ok_def by blast
qed

section \<open>Numbers are not issued twice\<close>

text \<open>No call lowers a row.\<close>

definition grows :: "numbering \<Rightarrow> numbering \<Rightarrow> bool" where
  "grows db db' \<longleftrightarrow> values_ok db'
     \<and> (\<forall>s c k v. nu_counters db s c k = Some v \<longrightarrow> (\<exists>v'. nu_counters db' s c k = Some v' \<and> v \<le> v'))"

lemma growsD: "grows db db' \<Longrightarrow> nu_counters db s c k = Some v \<Longrightarrow> \<exists>v'. nu_counters db' s c k = Some v' \<and> v \<le> v'"
  unfolding grows_def by blast

lemma grows_refl: "values_ok db \<Longrightarrow> grows db db"
  by (simp add: grows_def)

lemma grows_trans:
  assumes "grows db db1" and "grows db1 db2"
  shows "grows db db2"
  unfolding grows_def
proof (intro conjI allI impI)
  show "values_ok db2" using assms(2) by (simp add: grows_def)
  fix s c k v
  assume "nu_counters db s c k = Some v"
  from growsD [OF assms(1) this] obtain v1 where v1: "nu_counters db1 s c k = Some v1" "v \<le> v1" by blast
  from growsD [OF assms(2) v1(1)] v1(2) show "\<exists>v'. nu_counters db2 s c k = Some v' \<and> v \<le> v'" by auto
qed

lemma counter_value_grows:
  assumes "counter_value db s c k (is_per c) call = Inr (v, db')" and "values_ok db"
  shows "grows db db'"
proof (cases call)
  case Peek
  with assms counter_value_Peek have "db' = db" by blast
  with assms(2) show ?thesis by (simp add: grows_refl)
next
  case Next
  have ok: "values_ok db'" using counter_value_only [OF assms] by (simp add: only_counters_def)
  from counter_value_Next [OF assms(1) [unfolded Next] assms(2)] show ?thesis
    by cases (use ok in \<open>auto simp: grows_def put_counter_lookup\<close>)
qed

lemma render_counters_grows:
  "render_counters s fs dates call cs rendered db = Some (r, db') \<Longrightarrow> values_ok db \<Longrightarrow> grows db db'"
proof (induction cs arbitrary: rendered db)
  case (Cons c cs)
  from Cons.prems show ?case
  proof (cases rule: render_counters_Cons)
    case (issued k v db1)
    note first = counter_value_grows [OF issued(2) Cons.prems(2)]
    have "grows db1 db'" using Cons.IH [OF issued(3)] first by (simp add: grows_def)
    with first show ?thesis by (rule grows_trans)
  qed (use Cons.prems(2) in \<open>simp_all add: grows_refl\<close>)
qed (simp add: grows_refl)

lemma call_steps_grow:
  assumes "call_step\<^sup>*\<^sup>* db db'" and "values_ok db"
  shows "grows db db' \<and> nu_sequences db' = nu_sequences db"
  using assms(1)
proof induction
  case (step db1 db2)
  then have ok: "values_ok db1" by (simp add: grows_def)
  from step.hyps(2) have "grows db1 db2 \<and> nu_sequences db2 = nu_sequences db1"
  proof cases
    case (call_step to_char application name keys call t)
    obtain q :: number_sequence and p fs dates where r: "well_formed_pattern p" "render_pattern (ns_id q) p fs dates call db1 = Some (Inr t, db2)"
      by (rule call_renders [OF call_step]) blast
    obtain cs where cs: "counter_order p = Some cs" using counter_order_total [OF r(1)] by blast
    obtain r1 where "render_counters (ns_id q) fs dates call cs Map.empty db1 = Some (r1, db2)"
      by (rule render_pattern_counters [OF r(2) cs]) auto
    with render_counters_grows ok render_pattern_only [OF r(1) ok r(2)] show ?thesis by (auto simp: only_counters_def)
  qed
  with step.IH grows_trans show ?case by auto
qed (simp add: assms(2) grows_refl)

text \<open>A bare counter renders the value its row held, and leaves the next one there.\<close>

lemma is_bare_counter_iff: "is_bare_counter p \<longleftrightarrow> (\<exists>c. p = [PCounter c] \<and> is_bare c)"
proof (cases p)
  case (Cons a ps)
  then show ?thesis by (cases a; cases ps) (auto simp: is_bare_counter_def)
qed (simp add: is_bare_counter_def)

lemma bare_counter_rendered:
  assumes "render_pattern s p fs dates Next db = Some (Inr t, db')" and "values_ok db" and "is_bare_counter p"
  obtains c v where "p = [PCounter c]" "t = show_nat (nat v)" "1 \<le> v" "nu_counters db' s (ct_name c) [] = Some (v + 1)"
    "nu_counters db s (ct_name c) [] \<in> {None, Some v}"
proof -
  from assms(3) obtain c where c: "p = [PCounter c]" "is_bare c"
    using is_bare_counter_iff by blast
  then have bare: "ct_scope c = Always" "\<not> is_per c" by (auto simp: is_bare_def is_per_def)
  have order: "counter_order p = Some [c]"
    by (simp add: c(1) counter_order_def order_counters.simps is_ready_def bare extract_Cons_code)
  obtain m texts where m: "render_counters s fs dates Next [c] Map.empty db = Some (Inr m, db')"
    "those (map (part_text fs dates m) p) = Some texts" "t = concat texts"
    by (rule render_pattern_counters [OF assms(1) order]) auto
  from m(1) assms(2) show ?thesis
  proof (cases rule: render_counters_Cons)
    case (issued k v db1)
    then have k: "k = []" "db1 = db'" "m = [ct_name c \<mapsto> render_counter c v]"
      by (auto simp: counter_key_def bare)
    with m(2,3) c have t: "t = show_nat (nat v)" if "1 \<le> v"
      using that by (auto simp: render_counter_def counter_digits_def is_bare_def)
    from counter_value_Next [OF issued(2) assms(2)] show ?thesis
      by cases (use that c(1) k t bare(2) in \<open>auto simp: put_counter_lookup\<close>)
  qed auto
qed

text \<open>
  C25. No number is issued twice. Over every history of number calls, of all sequences and in between any
  two calls of one sequence whose pattern is a bare counter, the second renders a greater number than
  the first.
\<close>

theorem bare_numbers_increase:
  assumes "values_ok db" and "fst (sequence_row db application name) = Some q"
    and "parse_pattern (ns_pattern q) = Some (Inr p)" and "is_bare_counter p"
    and "render to_char application name keys Next db = Some (Inr t, db1)" and "call_step\<^sup>*\<^sup>* db1 db2"
    and "render to_char' application name keys' Next db2 = Some (Inr t', db3)"
  shows "digits_value t < digits_value t'"
proof -
  obtain fs dates where r: "render_pattern (ns_id q) p fs dates Next db = Some (Inr t, db1)" "well_formed_pattern p"
    by (rule call_renders [OF assms(5)]) (use assms(2,3) in auto)
  note only = render_pattern_only [OF r(2) assms(1) r(1)]
  have db2: "grows db1 db2" "nu_sequences db2 = nu_sequences db"
    using call_steps_grow [OF assms(6)] only by (auto simp: only_counters_def)
  then have row: "fst (sequence_row db2 application name) = Some q" using assms(2) by (simp add: sequence_row_def)
  obtain fs' dates' where r': "render_pattern (ns_id q) p fs' dates' Next db2 = Some (Inr t', db3)"
    by (rule call_renders [OF assms(7)]) (use row assms(3) in auto)
  obtain c v where v: "p = [PCounter c]" "t = show_nat (nat v)" "1 \<le> v"
    "nu_counters db1 (ns_id q) (ct_name c) [] = Some (v + 1)"
    by (rule bare_counter_rendered [OF r(1) assms(1,4)])
  have "values_ok db2" using db2(1) by (simp add: grows_def)
  from bare_counter_rendered [OF r' this assms(4)] obtain c' w where w: "p = [PCounter c']" "t' = show_nat (nat w)" "1 \<le> w"
    "nu_counters db2 (ns_id q) (ct_name c') [] \<in> {None, Some w}" by blast
  from growsD [OF db2(1) v(4)] v(1) w(1,4) have "v + 1 \<le> w" by auto
  with v(2,3) w(2) show ?thesis by simp
qed

text \<open>A rendered counter determines its value, unless its pad is a digit other than zero.\<close>

definition safe_pad :: "string \<Rightarrow> bool" where
  "safe_pad pad \<longleftrightarrow> pad = ''0'' \<or> (\<forall>d < 16. HEX_digit d \<notin> set pad)"

lemma HEX_digit_inj: "d < 16 \<Longrightarrow> e < 16 \<Longrightarrow> HEX_digit d = HEX_digit e \<Longrightarrow> d = e"
proof -
  assume "d < 16" "e < 16" "HEX_digit d = HEX_digit e"
  then have "(of_char (HEX_digit d) :: nat) = of_char (HEX_digit e)" by simp
  with \<open>d < 16\<close> \<open>e < 16\<close> show "d = e" by (auto simp: HEX_digit_def split: if_splits)
qed

lemma show_HEX_inj: "show_HEX m = show_HEX n \<Longrightarrow> m = n"
proof (induction m arbitrary: n rule: show_HEX.induct)
  case (1 m)
  have nonempty: "show_HEX k \<noteq> []" for k by (simp add: show_HEX.simps [of k])
  show ?case
  proof (cases "m < 16 \<or> n < 16")
    case True
    with 1(2) nonempty [of "m div 16"] nonempty [of "n div 16"] show ?thesis
      by (auto simp: show_HEX.simps [of m] show_HEX.simps [of n] HEX_digit_inj append_eq_Cons_conv Cons_eq_append_conv
          split: if_splits)
  next
    case False
    then have "show_HEX (m div 16) = show_HEX (n div 16)" "HEX_digit (m mod 16) = HEX_digit (n mod 16)"
      using 1(2) by (simp_all add: show_HEX.simps [of m] show_HEX.simps [of n])
    then have "m div 16 = n div 16" "m mod 16 = n mod 16" using 1(1) False HEX_digit_inj by auto
    then show ?thesis by (metis div_mult_mod_eq)
  qed
qed

lemma show_HEX_hd: "0 < n \<Longrightarrow> \<exists>d. 0 < d \<and> d < 16 \<and> hd (show_HEX n) = HEX_digit d"
proof (induction n rule: show_HEX.induct)
  case (1 n)
  have "show_HEX (n div 16) \<noteq> []" by (simp add: show_HEX.simps [of "n div 16"])
  with 1 show ?case by (cases "n < 16") (auto simp: show_HEX.simps [of n])
qed

lemma show_nat_hd: "0 < n \<Longrightarrow> \<exists>d. 0 < d \<and> d < 10 \<and> hd (show_nat n) = HEX_digit d"
proof (induction n rule: show_nat.induct)
  case (1 n)
  then show ?case by (cases "n < 10") (auto simp: show_nat.simps [of n] HEX_digit_def digit_char_def)
qed

lemma counter_digits_pos:
  assumes "1 \<le> v" and "v \<le> I64_MAX"
  shows "counter_digits h v = (if h then show_HEX (nat v) else show_nat (nat v))"
proof -
  have "v mod 2 ^ 64 = v" using assms by (intro mod_pos_pos_trivial) (simp_all add: I64_MAX_def)
  with assms(1) show ?thesis by (simp add: counter_digits_def)
qed

lemma HEX_digit_zero: "HEX_digit 0 = CHR ''0''"
  by code_simp

lemma counter_digits_hd:
  assumes "1 \<le> v" and "v \<le> I64_MAX" and "safe_pad pad"
  shows "hd (counter_digits h v) \<notin> set pad"
proof -
  have "\<exists>d. 0 < d \<and> d < 16 \<and> hd (counter_digits h v) = HEX_digit d"
    using assms(1) show_HEX_hd [of "nat v"] show_nat_hd [of "nat v"]
    by (auto simp: counter_digits_pos [OF assms(1,2)] intro: order.strict_trans)
  then obtain d where d: "0 < d" "d < 16" "hd (counter_digits h v) = HEX_digit d" by blast
  have "HEX_digit d \<noteq> HEX_digit 0" using HEX_digit_inj [of d 0] d by auto
  with assms(3) d show ?thesis by (auto simp: safe_pad_def HEX_digit_zero)
qed

lemma counter_digits_inj:
  assumes "counter_digits h v = counter_digits h w" and "1 \<le> v" "v \<le> I64_MAX" and "1 \<le> w" "w \<le> I64_MAX"
  shows "v = w"
  using assms(1,2,4) show_HEX_inj [of "nat v" "nat w"]
  by (auto simp: counter_digits_pos [OF assms(2,3)] counter_digits_pos [OF assms(4,5)] show_nat_inj split: if_splits)

lemma render_counter_inj:
  assumes "render_counter c v = render_counter c w" and "safe_pad (ct_pad c)"
    and "1 \<le> v" "v \<le> I64_MAX" and "1 \<le> w" "w \<le> I64_MAX"
  shows "v = w"
proof -
  have strip: "dropWhile (\<lambda>x. x \<in> set (ct_pad c)) (render_counter c u) = counter_digits (ct_hex c) u"
    if "1 \<le> u" "u \<le> I64_MAX" for u
  proof -
    have "dropWhile (\<lambda>x. x \<in> set pad) (concat (replicate n pad) @ ds) = ds" if "hd ds \<notin> set pad" for n ds and pad :: string
      using that by (induction n) (cases ds; auto simp: dropWhile_append2)+
    then show ?thesis using counter_digits_hd [OF that assms(2)] by (simp add: render_counter_def Let_def)
  qed
  from assms(1) have "counter_digits (ct_hex c) v = counter_digits (ct_hex c) w"
    using strip assms(3-6) by metis
  with counter_digits_inj assms(3-6) show ?thesis by blast
qed

text \<open>The parser accepts another digit as a pad, and then two values have one text.\<close>

lemma unkeyed_counter_parses:
  assumes "counter_ok c" and "spellable_pad (ct_pad c)" and "ct_scope c = Always"
  shows "parse_pattern (spell_pattern [PCounter c]) = Some (Inr [PCounter c])"
proof (rule spelled_pattern_parses)
  have "acyclic (key_relation [PCounter c])" by (rule unkeyed_acyclic) (simp add: assms(3))
  then show "well_formed_pattern [PCounter c]" using assms(1,3) by (simp add: well_formed_pattern_def key_ok_def)
qed (simp add: assms(2))

definition padded_counter :: counter where
  "padded_counter = \<lparr>ct_name = ''n'', ct_scope = Always, ct_width = Some 2, ct_pad = ''1'', ct_hex = False\<rparr>"

lemma digit_pad_collides:
  "parse_pattern ''{seq:n,width=2,pad=1}'' = Some (Inr [PCounter padded_counter])
     \<and> render_counter padded_counter 1 = render_counter padded_counter 11"
proof -
  have "counter_ok padded_counter" "spellable_pad (ct_pad padded_counter)" "ct_scope padded_counter = Always"
    "spell_pattern [PCounter padded_counter] = ''{seq:n,width=2,pad=1}''"
    "render_counter padded_counter 1 = ''11''" "render_counter padded_counter 11 = ''11''" by code_simp+
  with unkeyed_counter_parses [of padded_counter] show ?thesis by simp
qed

section \<open>Examples\<close>

definition utc_dates :: date_query where
  "utc_dates zone iso_year = Inr ''2027|27|01|04|01|1''"

lemma utc_dates_six: "six_dates utc_dates"
proof -
  have "length (split_on (CHR ''|'') ''2027|27|01|04|01|1'') = 6" by code_simp
  then show ?thesis by (simp add: six_dates_def utc_dates_def)
qed

text \<open>The lot numbers of the documentation: one batch, two lines.\<close>

definition lot_db :: numbering where
  "lot_db =
     \<lparr>nu_sequences = [\<lparr>ns_id = ''s1'', ns_application = ''wms'', ns_name = ''lot'',
        ns_pattern = ''B{seq:batch,per=batch_id,width=4}-{seq:line,reset=batch,width=3}''\<rparr>],
      nu_counters = (\<lambda>_ _ _. None), nu_settings = []\<rparr>"

definition lot_db1 :: numbering where
  "lot_db1 = put_counter ''s1'' ''line'' ''0001'' 2 (put_counter ''s1'' ''batch'' ''x'' 1 (put_counter ''s1'' ''batch'' [] 2 lot_db))"

definition lot_key :: "string \<rightharpoonup> string option" where
  "lot_key = [''batch_id'' \<mapsto> Some ''x'']"

lemma lot_pattern: "parse_pattern ''B{seq:batch,per=batch_id,width=4}-{seq:line,reset=batch,width=3}'' = Some (Inr batch_pattern)"
  using spelled_pattern_parses [OF batch_pattern_well_formed batch_pattern_spelled(1)] by (simp add: batch_pattern_spelled(2))

lemma lot_order: "counter_order batch_pattern = Some (counters batch_pattern)"
  by (simp add: counter_order_def batch_pattern_def order_counters.simps is_ready_def extract_Cons_code extract_Nil_code)

lemma lot_fields: "pattern_fields batch_pattern = [''batch_id'']"
  by code_simp

lemma lot_values:
  "render_counter \<lparr>ct_name = ''batch'', ct_scope = Per (KField ''batch_id''), ct_width = Some 4, ct_pad = ''0'', ct_hex = False\<rparr> 1 = ''0001''"
  "render_counter \<lparr>ct_name = ''line'', ct_scope = Reset (KCounter ''batch''), ct_width = Some 3, ct_pad = ''0'', ct_hex = False\<rparr> 1 = ''001''"
  "render_counter \<lparr>ct_name = ''line'', ct_scope = Reset (KCounter ''batch''), ct_width = Some 3, ct_pad = ''0'', ct_hex = False\<rparr> 2 = ''002''"
  by code_simp+

lemma lot_dates: "pattern_dates utc_dates Unset batch_pattern = Inr None"
  by code_simp

lemma lot_render:
  assumes "nu_sequences db = nu_sequences lot_db" and "nu_settings db = nu_settings lot_db"
  shows "render utc_dates ''wms'' ''lot'' lot_key call db = render_pattern ''s1'' batch_pattern [''batch_id'' \<mapsto> ''x''] None call db"
  by (simp add: render_def sequence_row_def assms) (simp add: lot_db_def lot_pattern lot_fields lot_key_def lot_dates)

lemma lot_counters:
  assumes "nu_sequences db = nu_sequences lot_db"
  shows "sequence_exists db ''s1''"
  by (simp add: sequence_exists_def assms) (simp add: lot_db_def)

lemma lot_rendered:
  "render utc_dates ''wms'' ''lot'' lot_key Next lot_db = Some (Inr ''B0001-001'', lot_db1)"
  "map_option fst (render utc_dates ''wms'' ''lot'' lot_key Next lot_db1) = Some (Inr ''B0001-002'')"
proof -
  note defs = render_pattern_def lot_order counter_key_def counter_value_def bump_counter_def assign_counter_def
    advance_counter_def is_per_def put_counter_lookup lot_values I64_MAX_def lot_counters batch_pattern_def
  have none: "nu_counters lot_db s c k = None" for s c k by (simp add: lot_db_def)
  have kept: "nu_sequences lot_db1 = nu_sequences lot_db" "nu_settings lot_db1 = nu_settings lot_db"
    by (simp_all add: lot_db1_def)
  have "counter_order batch_pattern = Some (counters batch_pattern)" by (rule lot_order)
  note order = this [unfolded batch_pattern_def counters_Cons]
  show "render utc_dates ''wms'' ''lot'' lot_key Next lot_db = Some (Inr ''B0001-001'', lot_db1)"
    by (simp add: lot_render defs order none lot_db1_def)
  show "map_option fst (render utc_dates ''wms'' ''lot'' lot_key Next lot_db1) = Some (Inr ''B0001-002'')"
    by (simp add: lot_render kept defs order) (simp add: lot_db1_def defs none)
qed

lemma lot_db_ok: "values_ok lot_db"
  by (simp add: values_ok_def lot_db_def)

text \<open>A purchase order number: one bare counter.\<close>

definition po_counter :: counter where
  "po_counter = \<lparr>ct_name = ''po'', ct_scope = Always, ct_width = None, ct_pad = ''0'', ct_hex = False\<rparr>"

definition po_db :: numbering where
  "po_db =
     \<lparr>nu_sequences = [\<lparr>ns_id = ''s2'', ns_application = ''wms'', ns_name = ''purchase_order'', ns_pattern = ''{seq:po}''\<rparr>],
      nu_counters = (\<lambda>_ _ _. None), nu_settings = []\<rparr>"

lemma po_pattern: "parse_pattern ''{seq:po}'' = Some (Inr [PCounter po_counter])"
proof -
  have "counter_ok po_counter" "spellable_pad (ct_pad po_counter)" "ct_scope po_counter = Always"
    "spell_pattern [PCounter po_counter] = ''{seq:po}''" by code_simp+
  with unkeyed_counter_parses [of po_counter] show ?thesis by simp
qed

lemma po_render:
  assumes "nu_sequences db = nu_sequences po_db" and "nu_settings db = nu_settings po_db"
    and "nu_counters db ''s2'' ''po'' [] = stored" and "stored \<in> {None, Some 2}"
  shows "render utc_dates ''wms'' ''purchase_order'' Map.empty Next db =
    Some (if stored = None then (Inr ''1'', put_counter ''s2'' ''po'' [] 2 db) else (Inr ''2'', put_counter ''s2'' ''po'' [] 3 db))"
proof -
  have order: "counter_order [PCounter po_counter] = Some [po_counter]"
    by (simp add: counter_order_def po_counter_def order_counters.simps is_ready_def extract_Cons_code)
  have plain: "pattern_fields [PCounter po_counter] = []" "pattern_dates utc_dates Unset [PCounter po_counter] = Inr None"
    "render_counter po_counter 1 = ''1''" "render_counter po_counter 2 = ''2''" "is_per po_counter = False" by code_simp+
  have "sequence_exists db ''s2''" by (simp add: sequence_exists_def assms(1)) (simp add: po_db_def)
  then show ?thesis
    using assms(3,4) order plain
    by (auto simp: render_def sequence_row_def assms(1,2) po_db_def po_pattern render_pattern_def counter_key_def
        po_counter_def [THEN arg_cong [of _ _ ct_name]] po_counter_def [THEN arg_cong [of _ _ ct_scope]]
        counter_value_def bump_counter_def advance_counter_def I64_MAX_def)
qed

theorem bare_numbers_increase_witness:
  "\<exists>db1 db2. render utc_dates ''wms'' ''purchase_order'' Map.empty Next po_db = Some (Inr ''1'', db1)
     \<and> render utc_dates ''wms'' ''purchase_order'' Map.empty Next db1 = Some (Inr ''2'', db2)
     \<and> digits_value ''1'' < digits_value ''2''"
proof -
  let ?db1 = "put_counter ''s2'' ''po'' [] 2 po_db"
  have ok: "values_ok po_db" by (simp add: values_ok_def po_db_def)
  have "render utc_dates ''wms'' ''purchase_order'' Map.empty Next po_db = Some (Inr ''1'', ?db1)"
    using po_render [of po_db None] by (simp add: po_db_def)
  moreover have "render utc_dates ''wms'' ''purchase_order'' Map.empty Next ?db1 = Some (Inr ''2'', put_counter ''s2'' ''po'' [] 3 ?db1)"
    using po_render [of ?db1 "Some 2"] by (simp add: put_counter_lookup)
  moreover have "fst (sequence_row po_db ''wms'' ''purchase_order'') = Some (hd (nu_sequences po_db))"
    "parse_pattern (ns_pattern (hd (nu_sequences po_db))) = Some (Inr [PCounter po_counter])"
    using po_pattern by (simp_all add: sequence_row_def po_db_def)
  moreover have "is_bare_counter [PCounter po_counter]" by code_simp
  ultimately show ?thesis using bare_numbers_increase [OF ok] by blast
qed

end
