(* ===== verification/Operation_Transaction.thy ===== *)
theory Operation_Transaction
  imports Write_Log Numbering
begin

text \<open>
  The transaction that the host owns for one request element (\<^verbatim>\<open>wamn_postgres/operation_transaction.rs\<close>),
  and the claims of the write log inside it (\<^verbatim>\<open>wamn_postgres/write_log.rs\<close>). A project database is the
  application's own data, which only the guest changes, beside the write log. A transaction keeps the
  database it began on and its own view of it; transactions run one after another, as the insert of a
  claim makes those of one key do. What the server answers to a \<^verbatim>\<open>COMMIT\<close> is a parameter.
\<close>

section \<open>The transaction\<close>

record 'd project_db =
  pd_data :: 'd
  pd_log :: write_log

text \<open>
  A failed statement of the guest or of the write log, or a lost connection, leaves none. After a failed
  statement of the host's own work the connection stays, and the server holds the transaction aborted.
\<close>

datatype tx_connection = Live | Aborted | Gone

record 'd operation_transaction =
  ot_begun :: "'d project_db"
  ot_work :: "'d project_db"
  ot_connection :: tx_connection
  ot_finish :: "((string \<times> string) \<times> string) option"
  ot_known_result :: "string option"
  ot_causation :: bool

definition begin_operation_transaction :: "bool \<Rightarrow> 'd project_db \<Rightarrow> 'd operation_transaction" where
  "begin_operation_transaction causation db =
     \<lparr>ot_begun = db, ot_work = db, ot_connection = Live, ot_finish = None, ot_known_result = None,
      ot_causation = causation\<rparr>"

definition with_known_result :: "string \<Rightarrow> 'd operation_transaction \<Rightarrow> 'd operation_transaction" where
  "with_known_result result tx = tx\<lparr>ot_known_result := Some result\<rparr>"

section \<open>The claim in the transaction\<close>

text \<open>A statement of the log on this connection; a failed one drops the connection.\<close>

definition drops_connection :: "(store_error, 'a) result \<Rightarrow> bool" where
  "drops_connection r \<longleftrightarrow> (case r of Inl (StorageFailure, _) \<Rightarrow> True | _ \<Rightarrow> False)"

definition tx_begin ::
    "(string \<Rightarrow> json option) \<Rightarrow> int option \<Rightarrow> intent \<Rightarrow> 'd operation_transaction
       \<Rightarrow> (store_error, json begun) result \<times> 'd operation_transaction" where
  "tx_begin parse now i tx =
     (if ot_connection tx \<noteq> Live then (Inl (StorageFailure, ''begin''), tx\<lparr>ot_connection := Gone\<rparr>)
      else
        (case begin_claim parse now i (ot_known_result tx) (pd_log (ot_work tx)) of
           (r, lg) \<Rightarrow>
             (r, tx\<lparr>ot_work := (ot_work tx)\<lparr>pd_log := lg\<rparr>,
                ot_connection := (if drops_connection r then Gone else Live)\<rparr>)))"

definition tx_finish ::
    "(json \<Rightarrow> string) \<Rightarrow> string \<Rightarrow> json \<Rightarrow> 'd operation_transaction
       \<Rightarrow> (store_error, unit) result \<times> 'd operation_transaction" where
  "tx_finish to_text iid outcome tx =
     (if ot_known_result tx \<noteq> None then (Inr (), tx)
      else
        (case claim_of ''finish'' iid of
           Inl e \<Rightarrow> (Inl e, tx)
         | Inr k \<Rightarrow>
             if ot_finish tx \<noteq> None then (Inl (ContractFailure, ''finish''), tx)
             else (Inr (), tx\<lparr>ot_finish := Some (k, to_text outcome)\<rparr>)))"

definition tx_release :: "string \<Rightarrow> 'd operation_transaction \<Rightarrow> (store_error, unit) result \<times> 'd operation_transaction" where
  "tx_release iid tx = (Inr (), tx)"

definition tx_uncertain :: "nat \<Rightarrow> 'd operation_transaction \<Rightarrow> uncertain_intent list" where
  "tx_uncertain limit tx = []"

definition tx_resolve ::
    "int option \<Rightarrow> string \<Rightarrow> operator_action_basis \<Rightarrow> 'd operation_transaction
       \<Rightarrow> (store_error, unit) result \<times> 'd operation_transaction" where
  "tx_resolve now iid basis tx = (Inl (ContractFailure, ''resolve''), tx)"

definition tx_ops :: "(string \<Rightarrow> json option) \<Rightarrow> (json \<Rightarrow> string) \<Rightarrow> 'd operation_transaction intent_ops" where
  "tx_ops parse to_text = \<lparr>io_begin = tx_begin parse, io_finish = (\<lambda>_. tx_finish to_text), io_release = tx_release\<rparr>"

text \<open>
  The claim of bytes that the host does not interpret. The statement answers its time, or fails with
  an error of the server or of the connection.
\<close>

datatype opaque_begun = OpaqueNew | OpaqueFinished string | OpaqueUncertain | OpaqueConflict

definition closed_error :: "tx_connection \<Rightarrow> pg_error" where
  "closed_error c = (if c = Gone then QueryError ''WAMN2'' else map_pg_error ''25P02'')"

definition begin_opaque ::
    "(pg_error, int) result \<Rightarrow> string \<Rightarrow> string \<Rightarrow> string \<Rightarrow> 'd operation_transaction
       \<Rightarrow> (pg_error, opaque_begun) result \<times> 'd operation_transaction" where
  "begin_opaque statement operation key request tx =
     (let k = (log_operation operation, key); lg = pd_log (ot_work tx) in
      if ot_connection tx \<noteq> Live then (Inl (closed_error (ot_connection tx)), tx\<lparr>ot_connection := Gone\<rparr>)
      else
        (case statement of
           Inl e \<Rightarrow> (Inl e, tx\<lparr>ot_connection := Gone\<rparr>)
         | Inr now \<Rightarrow>
             (case insert_claim now k request (ot_known_result tx) lg of
                Inl code \<Rightarrow> (Inl (map_pg_error code), tx\<lparr>ot_connection := Gone\<rparr>)
              | Inr (True, lg') \<Rightarrow> (Inr OpaqueNew, tx\<lparr>ot_work := (ot_work tx)\<lparr>pd_log := lg'\<rparr>\<rparr>)
              | Inr (False, _) \<Rightarrow>
                  (case find_claim k lg of
                     None \<Rightarrow> (Inl (QueryError ''P0002''), tx)
                   | Some r \<Rightarrow>
                       if wl_request r \<noteq> request then (Inr OpaqueConflict, tx)
                       else
                         (case wl_result r of
                            Some result \<Rightarrow> (Inr (OpaqueFinished result), tx)
                          | None \<Rightarrow> (Inr OpaqueUncertain, tx))))))"

definition finish_opaque :: "string \<Rightarrow> string \<Rightarrow> string \<Rightarrow> 'd operation_transaction \<Rightarrow> 'd operation_transaction" where
  "finish_opaque operation key result tx =
     (if ot_known_result tx \<noteq> None then tx
      else tx\<lparr>ot_finish := Some ((log_operation operation, key), result)\<rparr>)"

section \<open>The guest\<close>

text \<open>The guest's statements in the transaction: what the export returned, the data and the connection it left.\<close>

type_synonym 'd guest = "json \<Rightarrow> 'd \<Rightarrow> (string, (guest_error, emission) result) result \<times> 'd \<times> tx_connection"

definition in_transaction ::
    "'d guest \<Rightarrow> json \<Rightarrow> 'd operation_transaction
       \<Rightarrow> (string, (guest_error, emission) result) result \<times> 'd operation_transaction" where
  "in_transaction guest v tx =
     (case guest v (pd_data (ot_work tx)) of
        (r, d, c) \<Rightarrow> (r, tx\<lparr>ot_work := (ot_work tx)\<lparr>pd_data := d\<rparr>, ot_connection := c\<rparr>))"

section \<open>Commit and rollback\<close>

text \<open>
  The connection was closed before the commit, or the server answers it, refuses it with an error, or
  its answer is not read: then it may have committed or not.
\<close>

datatype commit_answer = Closed | Answers | Refuses string | Unread pg_error bool

datatype pg_commit_failure = RolledBack pg_error | UncertainCommit pg_error

text \<open>
  The pipeline before the commit: the staged finish, which divides by the number of rows it changed,
  and the causation. The commit of an aborted transaction is answered, and rolls back.
\<close>

definition store_result :: "string \<times> string \<Rightarrow> string \<Rightarrow> write_log \<Rightarrow> write_log" where
  "store_result k result lg = map (\<lambda>r. if is_open_claim k r then r\<lparr>wl_result := Some result\<rparr> else r) lg"

definition commit_pipeline :: "'d operation_transaction \<Rightarrow> (pg_error, 'd project_db) result" where
  "commit_pipeline tx =
     (case ot_finish tx of
        None \<Rightarrow>
          if ot_connection tx = Live then Inr (ot_work tx)
          else if ot_causation tx then Inl (map_pg_error ''25P02'')
          else Inr (ot_begun tx)
      | Some (k, result) \<Rightarrow>
          if ot_connection tx \<noteq> Live then Inl (map_pg_error ''25P02'')
          else if \<not> list_ex (is_open_claim k) (pd_log (ot_work tx)) then Inl (map_pg_error ''22012'')
          else Inr ((ot_work tx)\<lparr>pd_log := store_result k result (pd_log (ot_work tx))\<rparr>))"

definition commit_transaction ::
    "commit_answer \<Rightarrow> 'd operation_transaction \<Rightarrow> (pg_commit_failure, unit) result \<times> 'd project_db" where
  "commit_transaction answer tx =
     (if ot_connection tx = Gone then (Inl (RolledBack (closed_error Gone)), ot_begun tx)
      else
        (case answer of
           Closed \<Rightarrow> (Inl (RolledBack ConnectionUnavailable), ot_begun tx)
         | Refuses code \<Rightarrow> (Inl (RolledBack (map_pg_error code)), ot_begun tx)
         | Unread e landed \<Rightarrow>
             (Inl (UncertainCommit e),
              case commit_pipeline tx of Inr db \<Rightarrow> if landed then db else ot_begun tx | Inl _ \<Rightarrow> ot_begun tx)
         | Answers \<Rightarrow>
             (case commit_pipeline tx of
                Inl e \<Rightarrow> (Inl (RolledBack e), ot_begun tx)
              | Inr db \<Rightarrow> (Inr (), db))))"

text \<open>The generated error literal of a commit that rolled back.\<close>

fun commit_code :: "pg_error \<Rightarrow> string" where
  "commit_code SerializationFailure = ''retry''"
| "commit_code ConnectionUnavailable = ''retry''"
| "commit_code StatementTimeout = ''timeout''"
| "commit_code _ = ''internal_error''"

text \<open>A rollback, and a transaction that is dropped, leave the database it began on.\<close>

definition rollback_transaction :: "'d operation_transaction \<Rightarrow> 'd project_db" where
  "rollback_transaction tx = ot_begun tx"

section \<open>What a transaction does to the log\<close>

text \<open>The claim of a new key, and the row that its commit leaves.\<close>

definition write_claim_row :: "int \<Rightarrow> intent \<Rightarrow> string option \<Rightarrow> write_row" where
  "write_claim_row now i result =
     \<lparr>wl_operation = fst (write_key i), wl_key = snd (write_key i), wl_request = in_input_hash i,
      wl_result = result, wl_created_at = now\<rparr>"

lemma write_claim_row_sel [simp]:
  "wl_claim (write_claim_row now i result) = write_key i" "wl_request (write_claim_row now i result) = in_input_hash i"
  "wl_result (write_claim_row now i result) = result"
  by (simp_all add: write_claim_row_def wl_claim_def)

lemma begin_claim_New:
  assumes "begin_claim parse now i known lg = (Inr (New t), lg')"
  obtains n where "now = Some n" "t = claim_id (write_key i)" "find_claim (write_key i) lg = None"
    "lg' = lg @ [write_claim_row n i known]" "write_row_check (write_claim_row n i known)"
proof (cases now)
  case (Some n)
  show thesis
  proof (cases "insert_claim n (write_key i) (in_input_hash i) known lg")
    case (Inr p)
    obtain b lg1 where p: "p = (b, lg1)" by (cases p)
    show thesis
    proof (cases b)
      case True
      with assms Some Inr p have "t = claim_id (write_key i)" "lg' = lg1" by (simp_all add: begin_claim_def Let_def)
      with that [OF Some] True Inr p show thesis
        by (auto simp: insert_claim_def Let_def write_claim_row_def split: if_splits)
    next
      case False
      with assms Some Inr p show thesis by (simp add: begin_claim_def Let_def split: option.splits if_splits)
    qed
  qed (use assms Some in \<open>simp add: begin_claim_def Let_def\<close>)
qed (use assms in \<open>simp add: begin_claim_def Let_def\<close>)

lemma begin_claim_kept:
  assumes "begin_claim parse now i known lg = (r, lg')" and "\<nexists>t. r = Inr (New t)"
  shows "lg' = lg"
proof (cases now)
  case (Some n)
  show ?thesis
  proof (cases "insert_claim n (write_key i) (in_input_hash i) known lg")
    case (Inr p)
    obtain b lg1 where p: "p = (b, lg1)" by (cases p)
    have "lg1 = lg" if "\<not> b" using Inr p that by (auto simp: insert_claim_def Let_def split: if_splits)
    with assms Some Inr p show ?thesis
      by (cases b) (auto simp: begin_claim_def Let_def split: option.splits if_splits)
  qed (use assms Some in \<open>simp add: begin_claim_def Let_def\<close>)
qed (use assms in \<open>simp add: begin_claim_def Let_def\<close>)

lemma find_claim_None: "find_claim k lg = None \<longleftrightarrow> (\<forall>r \<in> set lg. wl_claim r \<noteq> k)"
  by (auto simp: find_claim_def find_None_iff)

lemma find_claim_append:
  "find_claim k (lg @ [r]) = (case find_claim k lg of Some x \<Rightarrow> Some x | None \<Rightarrow> if wl_claim r = k then Some r else None)"
  by (induction lg) (simp_all add: find_claim_def)

lemma find_claim_extended: "find_claim k lg = Some x \<Longrightarrow> find_claim k (lg @ rows) = Some x"
  by (induction lg) (auto simp: find_claim_def split: if_splits)

lemma store_result_claim:
  assumes "find_claim (write_key i) lg = None"
  shows "store_result (write_key i) result (lg @ [write_claim_row now i None]) = lg @ [write_claim_row now i (Some result)]"
proof -
  have "map (\<lambda>r. if is_open_claim (write_key i) r then r\<lparr>wl_result := Some result\<rparr> else r) lg = lg"
    using assms by (intro map_idI) (auto simp: find_claim_None is_open_claim_def)
  then show ?thesis by (simp add: store_result_def is_open_claim_def write_claim_row_def wl_claim_def)
qed

text \<open>Only a pipeline that the server carried out changes the database, and an answered one did.\<close>

lemma commit_transaction_cases:
  assumes "commit_transaction answer tx = (r, db')"
  obtains (kept) "db' = ot_begun tx" "r \<noteq> Inr () \<or> commit_pipeline tx = Inr db'"
  | (committed) "commit_pipeline tx = Inr db'" "ot_connection tx \<noteq> Gone" "r = Inr () \<or> (\<exists>e. r = Inl (UncertainCommit e))"
  using assms unfolding commit_transaction_def
  by (auto split: if_splits commit_answer.splits sum.splits)

end
