(* ===== verification/Logged_Call.thy ===== *)
theory Logged_Call
  imports Operation_Transaction
begin

text \<open>
  The loop of a logged call (\<^verbatim>\<open>crates/platform/engine/src/operation/intent.rs\<close>, \<open>invoke_logged\<close>): each request
  element is admitted, claimed, run and settled alone, in a host transaction when its operation has
  SQL, and the answers are merged in the order of the input. What happens around an element (the time
  left, the admission, the guest, the answers of the database) is a parameter for each element. The call
  that an entry makes (\<^verbatim>\<open>operation.rs\<close>, \<open>invoke_operation\<close>) chooses the loop by the kind of the operation.
\<close>

section \<open>The kinds that log\<close>

datatype operation_type = Get | Query | Create | Update | Delete | Command | Projection | EventHandler

fun logs_intent :: "operation_type \<Rightarrow> bool" where
  "logs_intent Create = True"
| "logs_intent Update = True"
| "logs_intent Delete = True"
| "logs_intent Command = True"
| "logs_intent _ = False"

section \<open>One request element\<close>

record call_config =
  cc_parse :: "string \<Rightarrow> json option"
  cc_to_text :: "json \<Rightarrow> string"
  cc_sha :: "json \<Rightarrow> string"
  cc_debug :: "pg_error \<Rightarrow> string"
  cc_context :: intent_context

text \<open>
  The surroundings of an element. The admission refuses, opens no transaction, or opens one: with the
  known result of a delete, and with or without a run that causes it.
\<close>

record 'd element_env =
  ee_remaining :: nat
  ee_admission :: "(string, (string option \<times> bool) option) result"
  ee_begun_at :: "int option"
  ee_ended_at :: "int option"
  ee_export :: "json \<Rightarrow> (string, (guest_error, emission) result) result"
  ee_guest :: "'d guest"
  ee_commit :: commit_answer
  ee_rollback :: "string option"

text \<open>The time left, in nanoseconds, as the milliseconds of the element's own call.\<close>

definition element_deadline_ms :: "nat \<Rightarrow> u64" where
  "element_deadline_ms remaining = of_nat (max 1 (min (remaining div 1000000) (2 ^ 64 - 1)))"

type_synonym element_result = "(call_error, (guest_error, json \<times> string option) result) result"

definition rolled_back :: "string option \<Rightarrow> (guest_error, json \<times> string option) result \<Rightarrow> element_result" where
  "rolled_back failure answer = (case failure of None \<Rightarrow> Inr answer | Some e \<Rightarrow> Inl (HostErr e))"

definition commit_body :: "call_config \<Rightarrow> json \<Rightarrow> string option \<Rightarrow> (pg_commit_failure, unit) result \<Rightarrow> (call_error, json) result" where
  "commit_body cfg body iid r =
     (case r of
        Inr _ \<Rightarrow> Inr body
      | Inl (UncertainCommit _) \<Rightarrow>
          (case iid of
             None \<Rightarrow> Inl (HostErr ''a committed request element has an intent'')
           | Some t \<Rightarrow> Inr (uncertain_body t))
      | Inl (RolledBack e) \<Rightarrow>
          Inr (JObject [(''error'', JObject [(''code'', JString (commit_code e)),
            (''message'', JString (''the commit rolled back: '' @ cc_debug cfg e))])]))"

definition settle_transaction ::
    "call_config \<Rightarrow> 'd element_env \<Rightarrow> (call_error, settled) result \<Rightarrow> 'd operation_transaction
       \<Rightarrow> element_result \<times> 'd project_db" where
  "settle_transaction cfg env r tx =
     (case r of
        Inl e \<Rightarrow> (Inl e, rollback_transaction tx)
      | Inr SettledCancelled \<Rightarrow> (rolled_back (ee_rollback env) (Inl GCancelled), rollback_transaction tx)
      | Inr (SettledFailed error) \<Rightarrow> (rolled_back (ee_rollback env) (Inl error), rollback_transaction tx)
      | Inr (AnswerElement body iid commit port) \<Rightarrow>
          if \<not> commit then (rolled_back (ee_rollback env) (Inr (body, port)), rollback_transaction tx)
          else
            (case commit_transaction (ee_commit env) tx of
               (committed, db) \<Rightarrow>
                 (case commit_body cfg body iid committed of
                    Inl e \<Rightarrow> (Inl e, db)
                  | Inr answer \<Rightarrow> (Inr (Inr (answer, port)), db))))"

definition open_transaction :: "string option \<Rightarrow> bool \<Rightarrow> 'd project_db \<Rightarrow> 'd operation_transaction" where
  "open_transaction known causation db =
     (case known of
        None \<Rightarrow> begin_operation_transaction causation db
      | Some result \<Rightarrow> with_known_result result (begin_operation_transaction causation db))"

definition transacted_element ::
    "call_config \<Rightarrow> nat \<Rightarrow> 'd element_env \<Rightarrow> string option \<Rightarrow> bool \<Rightarrow> request_element \<Rightarrow> 'd project_db
       \<Rightarrow> element_result \<times> 'd project_db" where
  "transacted_element cfg whole env known causation e db =
     (case settle_request_element (tx_ops (cc_parse cfg) (cc_to_text cfg)) (cc_parse cfg) (cc_sha cfg) (cc_context cfg)
             (element_deadline_ms (ee_remaining env)) whole True (ee_begun_at env) (ee_ended_at env)
             (in_transaction (ee_guest env)) e (open_transaction known causation db) of
        (r, tx) \<Rightarrow> settle_transaction cfg env r tx)"

text \<open>Without a transaction the element claims in the call's own store, and the export changes no project data.\<close>

definition plain_settled :: "(call_error, settled) result \<Rightarrow> element_result" where
  "plain_settled r =
     (case r of
        Inl e \<Rightarrow> Inl e
      | Inr SettledCancelled \<Rightarrow> Inr (Inl GCancelled)
      | Inr (SettledFailed error) \<Rightarrow> Inr (Inl error)
      | Inr (AnswerElement body _ _ port) \<Rightarrow> Inr (Inr (body, port)))"

definition plain_element ::
    "'s intent_ops \<Rightarrow> call_config \<Rightarrow> nat \<Rightarrow> 'd element_env \<Rightarrow> request_element \<Rightarrow> 's \<Rightarrow> element_result \<times> 's" where
  "plain_element ops cfg whole env e s =
     (case settle_request_element ops (cc_parse cfg) (cc_sha cfg) (cc_context cfg)
             (element_deadline_ms (ee_remaining env)) whole False (ee_begun_at env) (ee_ended_at env)
             (\<lambda>v s. (ee_export env v, s)) e s of
        (r, s') \<Rightarrow> (plain_settled r, s'))"

section \<open>The call\<close>

definition run_element ::
    "'s intent_ops \<Rightarrow> call_config \<Rightarrow> nat \<Rightarrow> 'd element_env \<Rightarrow> request_element \<Rightarrow> 's \<times> 'd project_db
       \<Rightarrow> element_result \<times> 's \<times> 'd project_db" where
  "run_element ops cfg whole env e st =
     (if ee_remaining env = 0 then (Inl (HostErr ''native node enclosing deadline elapsed''), st)
      else
        (case ee_admission env of
           Inl m \<Rightarrow> (Inl (HostErr m), st)
         | Inr None \<Rightarrow> (case plain_element ops cfg whole env e (fst st) of (r, s') \<Rightarrow> (r, s', snd st))
         | Inr (Some (known, causation)) \<Rightarrow>
             (case transacted_element cfg whole env known causation e (snd st) of (r, db') \<Rightarrow> (r, fst st, db'))))"

fun invoke_elements ::
    "'s intent_ops \<Rightarrow> call_config \<Rightarrow> nat \<Rightarrow> (request_element \<Rightarrow> 'd element_env) \<Rightarrow> request_element list
       \<Rightarrow> json list \<Rightarrow> string option \<Rightarrow> 's \<times> 'd project_db
       \<Rightarrow> (call_error, (guest_error, json list \<times> string option) result) result \<times> 's \<times> 'd project_db" where
  "invoke_elements ops cfg whole env [] answers port st = (Inr (Inr (answers, port)), st)"
| "invoke_elements ops cfg whole env (e # es) answers port st =
     (case run_element ops cfg whole (env e) e st of
        (Inl err, st') \<Rightarrow> (Inl err, st')
      | (Inr (Inl error), st') \<Rightarrow> (Inr (Inl error), st')
      | (Inr (Inr (body, p)), st') \<Rightarrow>
          invoke_elements ops cfg whole env es (answers @ [body]) (if p \<noteq> None then p else port) st')"

text \<open>An answer under the request id of its element; the members of the body come after it.\<close>

definition merge_answer :: "request_element \<Rightarrow> json \<Rightarrow> json" where
  "merge_answer e body =
     JObject (fold (\<lambda>(k, v). members_insert k v) (case body of JObject m \<Rightarrow> m | _ \<Rightarrow> [])
       [(REQUEST_ID, JString (re_request_id e))])"

definition canonical_input :: "(json \<Rightarrow> json) option \<Rightarrow> json \<Rightarrow> json" where
  "canonical_input form input =
     (case (form, input) of (Some f, JArray vs) \<Rightarrow> JArray (map f vs) | _ \<Rightarrow> input)"

text \<open>The application of the call is loaded, or the host fails with the given error.\<close>

definition invoke_logged ::
    "'s intent_ops \<Rightarrow> call_config \<Rightarrow> (json \<Rightarrow> json) option \<Rightarrow> string option \<Rightarrow> (request_element \<Rightarrow> 'd element_env)
       \<Rightarrow> json \<Rightarrow> 's \<times> 'd project_db
       \<Rightarrow> (call_error, (guest_error, emission) result) result \<times> 's \<times> 'd project_db" where
  "invoke_logged ops cfg form unloaded env input st =
     (let canonical = canonical_input form input in
      case request_elements canonical (ic_key_field (cc_context cfg)) of
        Inl message \<Rightarrow>
          (Inr (Inl (GInvalidInput \<lparr>gd_message = message, gd_code = Some ''invalid_input''\<rparr>)), st)
      | Inr es \<Rightarrow>
          (case unloaded of
             Some m \<Rightarrow> (Inl (HostErr m), st)
           | None \<Rightarrow>
               (case invoke_elements ops cfg (length es) env es [] None st of
                  (Inl err, st') \<Rightarrow> (Inl err, st')
                | (Inr (Inl error), st') \<Rightarrow> (Inr (Inl error), st')
                | (Inr (Inr (answers, port)), st') \<Rightarrow>
                    (Inr (Inr \<lparr>em_payload = cc_to_text cfg (JArray (map2 merge_answer es answers)), em_port = port\<rparr>),
                     st'))))"

text \<open>
  One operation call: logged when the entry gives an intent context and the kind changes records, and else
  its export alone; the policy then finishes the result, which the log never holds.
\<close>

definition invoke_operation ::
    "'s intent_ops \<Rightarrow> (call_config \<times> operation_type) option \<Rightarrow> (json \<Rightarrow> json) option \<Rightarrow> string option
       \<Rightarrow> (request_element \<Rightarrow> 'd element_env)
       \<Rightarrow> (json \<Rightarrow> 's \<times> 'd project_db \<Rightarrow> (call_error, (guest_error, emission) result) result \<times> 's \<times> 'd project_db)
       \<Rightarrow> ((guest_error, emission) result \<Rightarrow> (call_error, (guest_error, emission) result) result)
       \<Rightarrow> json \<Rightarrow> 's \<times> 'd project_db \<Rightarrow> (call_error, (guest_error, emission) result) result \<times> 's \<times> 'd project_db" where
  "invoke_operation ops intent form unloaded env run_export finish_result input st =
     (case (case intent of
              Some (cfg, kind) \<Rightarrow>
                if logs_intent kind then invoke_logged ops cfg form unloaded env input st else run_export input st
            | None \<Rightarrow> run_export input st) of
        (Inl err, st') \<Rightarrow> (Inl err, st')
      | (Inr outcome, st') \<Rightarrow> (finish_result outcome, st'))"

section \<open>What an element leaves\<close>

text \<open>An answer has no member for the request id of its element; an error answer has an error.\<close>

definition is_error :: "json \<Rightarrow> bool" where
  "is_error body \<longleftrightarrow> json_get body ''error'' \<noteq> None"

definition no_request_id :: "json \<Rightarrow> bool" where
  "no_request_id body \<longleftrightarrow> json_get body REQUEST_ID = None"

definition error_answer :: "json \<Rightarrow> bool" where
  "error_answer body \<longleftrightarrow> is_error body \<and> no_request_id body"

lemma find_body_no_request_id: "find_body q ms = Some body \<Longrightarrow> no_request_id body"
  by (induction q ms rule: find_body.induct)
    (auto simp: no_request_id_def members_remove_def map_of_eq_None_iff split: if_splits)

text \<open>Only a returned body without an error asks for a commit, and it is stored first.\<close>

lemma decide_FinishThen:
  assumes "decide parse whole request_id transacted t outcome = FinishThen body a"
  obtains port where "a = AnswerElement body (Some t) True port" "\<not> is_error body" "no_request_id body"
  using assms find_body_no_request_id unfolding decide_def is_error_def by (auto split: sum.splits option.splits if_splits)

lemma decide_no_commit:
  "decide parse whole request_id transacted t outcome \<noteq> LeaveOpen (Inr (AnswerElement body iid True port))"
  "decide parse whole request_id transacted t outcome \<noteq> ReleaseThen (AnswerElement body iid True port)"
  unfolding decide_def by (auto simp: plain_answer_def split: sum.splits option.splits if_splits)

lemma claim_answer_no_commit: "claim_answer c e b \<noteq> Inl (AnswerElement body iid True port)"
  unfolding claim_answer_def by (auto simp: plain_answer_def split: begun.splits)

lemma claim_answer_Inr: "claim_answer c e b = Inr t \<longleftrightarrow> b = New t"
  unfolding claim_answer_def by (auto split: begun.splits)

lemma open_transaction_sel [simp]:
  "ot_begun (open_transaction known causation db) = db" "ot_work (open_transaction known causation db) = db"
  "ot_connection (open_transaction known causation db) = Live" "ot_finish (open_transaction known causation db) = None"
  "ot_known_result (open_transaction known causation db) = known"
  "ot_causation (open_transaction known causation db) = causation"
  by (simp_all add: open_transaction_def begin_operation_transaction_def with_known_result_def split: option.split)

lemma tx_begin_open:
  assumes "tx_begin parse now i (open_transaction known causation db) = (r, tx)"
  obtains lg where "begin_claim parse now i known (pd_log db) = (r, lg)"
    "tx = (open_transaction known causation db)\<lparr>ot_work := db\<lparr>pd_log := lg\<rparr>,
       ot_connection := (if drops_connection r then Gone else Live)\<rparr>"
  using assms unfolding tx_begin_def by (auto split: prod.splits)

lemma record_element_tx:
  assumes "record_element (tx_ops parse to_text) now t d tx = (r, tx')"
  shows "ot_begun tx' = ot_begun tx" "ot_work tx' = ot_work tx" "ot_connection tx' = ot_connection tx"
    "ot_known_result tx' = ot_known_result tx" "ot_causation tx' = ot_causation tx"
  using assms unfolding record_element_def
  by (auto simp: tx_ops_def tx_finish_def tx_release_def split: decision.splits prod.splits sum.splits if_splits)

lemma record_element_commit:
  assumes "record_element (tx_ops parse to_text) now t (decide parse' whole q tr t out) tx = (Inr (AnswerElement body iid True port), tx')"
    and "claim_of ''finish'' t = Inr k" and "ot_finish tx = None"
  shows "iid = Some t" "\<not> is_error body" "no_request_id body"
    "ot_finish tx' = (case ot_known_result tx of None \<Rightarrow> Some (k, to_text body) | Some _ \<Rightarrow> None)"
proof -
  from assms(1) obtain body' a where d: "decide parse' whole q tr t out = FinishThen body' a"
    "tx_finish to_text t body' tx = (Inr (), tx')" "a = AnswerElement body iid True port"
    using decide_no_commit unfolding record_element_def
    by (fastforce simp: tx_ops_def tx_release_def split: decision.splits prod.splits sum.splits)
  from decide_FinishThen [OF d(1)] d(3) have b: "body' = body" "iid = Some t" "\<not> is_error body" "no_request_id body" by auto
  then show "iid = Some t" "\<not> is_error body" "no_request_id body" by simp_all
  show "ot_finish tx' = (case ot_known_result tx of None \<Rightarrow> Some (k, to_text body) | Some _ \<Rightarrow> None)"
    using d(2) assms(2,3) b(1) by (auto simp: tx_finish_def split: if_splits option.splits)
qed

text \<open>The settling of an element in a transaction: what it answers without a commit, and what it stages for one.\<close>

lemma settle_new:
  assumes "begin_claim parse begun i known (pd_log db) = (Inr (New t), lg)"
    and tx1: "tx1 = (open_transaction known causation db)\<lparr>ot_work := db\<lparr>pd_log := lg\<rparr>, ot_connection := Live\<rparr>"
    and tx2: "in_transaction guest v tx1 = (out, tx2)"
    and r: "record_element (tx_ops parse to_text) ended t dec tx2 = (r, tx)"
  obtains n d con where "find_claim (write_key i) (pd_log db) = None" "t = claim_id (write_key i)"
    "write_row_check (write_claim_row n i known)" "guest v (pd_data db) = (out, d, con)"
    "ot_begun tx = db" "ot_connection tx = con" "ot_causation tx = causation"
    "ot_work tx = \<lparr>pd_data = d, pd_log = pd_log db @ [write_claim_row n i known]\<rparr>"
    "ot_finish tx2 = None" "ot_known_result tx2 = known"
proof -
  obtain n where n: "t = claim_id (write_key i)" "find_claim (write_key i) (pd_log db) = None"
    "lg = pd_log db @ [write_claim_row n i known]" "write_row_check (write_claim_row n i known)"
    by (rule begin_claim_New [OF assms(1)])
  obtain out' d con where g: "guest v (pd_data db) = (out', d, con)" by (metis prod_cases3)
  with tx2 tx1 have tx2': "out' = out" "tx2 = tx1\<lparr>ot_work := (ot_work tx1)\<lparr>pd_data := d\<rparr>, ot_connection := con\<rparr>"
    by (simp_all add: in_transaction_def)
  note kept = record_element_tx [OF r]
  have sel: "ot_begun tx = db" "ot_connection tx = con" "ot_causation tx = causation"
    "ot_finish tx2 = None" "ot_known_result tx2 = known"
    using kept tx1 tx2' by simp_all
  have work: "ot_work tx = \<lparr>pd_data = d, pd_log = pd_log db @ [write_claim_row n i known]\<rparr>"
    using kept(2) tx1 tx2'(2) n(3) by (cases db) simp
  from that [OF n(2,1,4) g [unfolded tx2'(1)] sel(1-3) work sel(4,5)] show thesis .
qed

lemma settle_cases:
  assumes "settle_request_element (tx_ops parse to_text) parse sha c ms whole True begun ended (in_transaction guest) e
      (open_transaction known causation db) = (r, tx)"
  obtains (failed) err where "r = Inl err" "ot_begun tx = db"
  | (answered) b a where "begin_claim parse begun (element_intent sha c ms e) known (pd_log db) = (Inr b, pd_log db)"
      "claim_answer c e b = Inl a" "r = Inr a" "ot_begun tx = db"
  | (ran) t lg tx1 out tx2 where
      "begin_claim parse begun (element_intent sha c ms e) known (pd_log db) = (Inr (New t), lg)"
      "tx1 = (open_transaction known causation db)\<lparr>ot_work := db\<lparr>pd_log := lg\<rparr>, ot_connection := Live\<rparr>"
      "in_transaction guest (JArray [re_value e]) tx1 = (out, tx2)"
      "record_element (tx_ops parse to_text) ended t (decide parse whole (re_request_id e) True t out) tx2 = (r, tx)"
proof -
  let ?i = "element_intent sha c ms e" and ?tx = "open_transaction known causation db"
  obtain b1 tx1 where b1: "tx_begin parse begun ?i ?tx = (b1, tx1)" by fastforce
  obtain lg where lg: "begin_claim parse begun ?i known (pd_log db) = (b1, lg)"
    and tx1: "tx1 = ?tx\<lparr>ot_work := db\<lparr>pd_log := lg\<rparr>, ot_connection := (if drops_connection b1 then Gone else Live)\<rparr>"
    by (rule tx_begin_open [OF b1])
  note settle = assms [unfolded settle_request_element_def, simplified tx_ops_def intent_ops.simps b1 prod.case, folded tx_ops_def]
  show thesis
  proof (cases b1)
    case (Inl err)
    with settle tx1 have "r = Inl (StoreErr err)" "ot_begun tx = db" by auto
    then show thesis by (rule failed)
  next
    case b: (Inr b)
    show thesis
    proof (cases "claim_answer c e b")
      case (Inl a)
      then have "\<nexists>t. b1 = Inr (New t)" using b by (auto simp: claim_answer_def)
      from begin_claim_kept [OF lg this] have "begin_claim parse begun ?i known (pd_log db) = (Inr b, pd_log db)"
        using lg b by simp
      moreover have "r = Inr a" "ot_begun tx = db" using settle b Inl tx1 by auto
      ultimately show thesis using Inl by (intro answered)
    next
      case (Inr t)
      obtain out tx2 where out: "in_transaction guest (JArray [re_value e]) tx1 = (out, tx2)" by fastforce
      have new: "b1 = Inr (New t)" using Inr b by (simp add: claim_answer_Inr)
      from ran [OF lg [unfolded new] _ out] show thesis
        using tx1 settle b Inr out by (simp add: new drops_connection_def)
    qed
  qed
qed

text \<open>What is answered without a commit is an error, apart from a stored outcome.\<close>

lemma error_answer_error: "error_answer (JObject [(''error'', v)])"
  by (simp add: error_answer_def is_error_def no_request_id_def REQUEST_ID_def)

lemma error_answer_refusal [simp]: "error_answer (refusal code message detail)"
  by (simp add: refusal_def error_answer_error)

lemma error_answer_uncertain [simp]: "error_answer (uncertain_body t)"
  by (simp add: uncertain_body_def)

lemma failed_body_error: "failed_body error = Some body \<Longrightarrow> error_answer body"
  by (cases error) (auto simp: detail_body_def error_answer_error)

lemma find_body_error: "find_body q ms = Some body \<Longrightarrow> is_error body \<Longrightarrow> error_answer body"
  using find_body_no_request_id by (simp add: error_answer_def)

lemma claim_answer_error:
  assumes "claim_answer c e b = Inl (AnswerElement body iid commit port)" and "\<nexists>v. b = Finished v"
  shows "error_answer body"
  using assms unfolding claim_answer_def by (auto simp: plain_answer_def split: begun.splits)

lemma decide_answer_error:
  assumes "decide parse whole q True t out \<in> {LeaveOpen (Inr a), ReleaseThen a}" and "a = AnswerElement body iid commit port"
  shows "error_answer body \<and> \<not> commit"
  using assms failed_body_error find_body_error unfolding decide_def is_error_def [symmetric]
  by (auto simp: plain_answer_def split: sum.splits option.splits if_splits)

lemma begin_claim_Finished:
  assumes "begin_claim parse now i known lg = (Inr (Finished v), lg')"
  obtains row stored where "find_claim (write_key i) lg = Some row" "wl_request row = in_input_hash i"
    "wl_result row = Some stored" "parse stored = Some v"
proof (cases now)
  case (Some n)
  show thesis
  proof (cases "insert_claim n (write_key i) (in_input_hash i) known lg")
    case (Inr p)
    obtain b lg1 where p: "p = (b, lg1)" by (cases p)
    have "lg1 = lg" if "\<not> b" using Inr p that by (auto simp: insert_claim_def Let_def split: if_splits)
    with assms Some Inr p show thesis
      by (cases b) (auto simp: begin_claim_def Let_def split: option.splits if_splits intro: that)
  qed (use assms Some in \<open>simp add: begin_claim_def Let_def\<close>)
qed (use assms in \<open>simp add: begin_claim_def Let_def\<close>)

lemma record_answer_error:
  assumes "record_element (tx_ops parse to_text) now t (decide parse' whole q True t out) tx
      = (Inr (AnswerElement body iid commit port), tx')"
  shows "commit \<or> error_answer body"
proof (cases "decide parse' whole q True t out")
  case (FinishThen b a)
  with assms have "a = AnswerElement body iid commit port"
    by (auto simp: record_element_def split: prod.splits sum.splits)
  with decide_FinishThen [OF FinishThen] show ?thesis by auto
next
  case (LeaveOpen r)
  with assms decide_answer_error [of parse' whole q t out "AnswerElement body iid commit port"] show ?thesis
    by (auto simp: record_element_def)
next
  case (ReleaseThen a)
  with assms decide_answer_error [of parse' whole q t out a] show ?thesis
    by (auto simp: record_element_def tx_ops_def tx_release_def)
qed


text \<open>
  The commit of a claimed element: it rolls back, or it stores the row with the data. The one answered
  commit that stores nothing is that of an aborted transaction with nothing staged.
\<close>

definition committed_db :: "'d project_db \<Rightarrow> 'd \<Rightarrow> int \<Rightarrow> intent \<Rightarrow> string \<Rightarrow> 'd project_db" where
  "committed_db db d now i result = \<lparr>pd_data = d, pd_log = pd_log db @ [write_claim_row now i (Some result)]\<rparr>"

definition stored_text :: "string option \<Rightarrow> string \<Rightarrow> string" where
  "stored_text known result = (case known of None \<Rightarrow> result | Some x \<Rightarrow> x)"

lemma commit_pipeline_claimed:
  assumes "find_claim (write_key i) (pd_log db) = None" and "ot_begun tx = db"
    and "ot_work tx = \<lparr>pd_data = d, pd_log = pd_log db @ [write_claim_row now i known]\<rparr>"
    and "ot_finish tx = (case known of None \<Rightarrow> Some (write_key i, result) | Some _ \<Rightarrow> None)"
  shows "commit_pipeline tx =
    (if ot_connection tx = Live then Inr (committed_db db d now i (stored_text known result))
     else if known = None \<or> ot_causation tx then Inl (map_pg_error ''25P02'') else Inr db)"
  using assms store_result_claim [OF assms(1)]
  by (cases known) (auto simp: commit_pipeline_def committed_db_def stored_text_def is_open_claim_def)

lemma commit_claimed:
  assumes "find_claim (write_key i) (pd_log db) = None" and "ot_begun tx = db"
    and "ot_work tx = \<lparr>pd_data = d, pd_log = pd_log db @ [write_claim_row now i known]\<rparr>"
    and "ot_finish tx = (case known of None \<Rightarrow> Some (write_key i, result) | Some _ \<Rightarrow> None)"
    and "commit_transaction answer tx = (c, db')"
  obtains (failed) f where "c = Inl f" "db' = db"
  | (swallowed) "c = Inr ()" "db' = db" "ot_connection tx = Aborted" "known \<noteq> None" "\<not> ot_causation tx"
  | (unread) e where "c = Inl (UncertainCommit e)" "ot_connection tx = Live"
      "db' = committed_db db d now i (stored_text known result)"
  | (stored) "c = Inr ()" "ot_connection tx = Live" "db' = committed_db db d now i (stored_text known result)"
  using assms(2,5) commit_pipeline_claimed [OF assms(1-4)] unfolding commit_transaction_def
  by (cases "ot_connection tx") (auto split: commit_answer.splits if_splits)

lemma commit_body_error: "commit_body cfg body iid (Inl f) = Inr answer \<Longrightarrow> error_answer answer"
  by (cases f) (auto simp: commit_body_def error_answer_error split: option.splits)

text \<open>The whole element in its transaction.\<close>

definition env_intent :: "call_config \<Rightarrow> 'd element_env \<Rightarrow> request_element \<Rightarrow> intent" where
  "env_intent cfg env e = element_intent (cc_sha cfg) (cc_context cfg) (element_deadline_ms (ee_remaining env)) e"

definition guest_run :: "'d element_env \<Rightarrow> request_element \<Rightarrow> 'd \<Rightarrow> (string, (guest_error, emission) result) result \<times> 'd \<times> tx_connection" where
  "guest_run env e d = ee_guest env (JArray [re_value e]) d"

lemma write_key_named: "names_claim i \<Longrightarrow> names_operation (fst (write_key i))"
  using log_operation_named by (simp add: write_key_def names_claim_def)

lemma settle_kept:
  assumes "settle_transaction cfg env r1 tx = (r, db')" and "\<And>body iid port. r1 \<noteq> Inr (AnswerElement body iid True port)"
    and "\<And>body iid port. r1 = Inr (AnswerElement body iid False port) \<Longrightarrow> error_answer body"
  shows "db' = ot_begun tx" "r = Inr (Inr (body, port)) \<Longrightarrow> error_answer body"
  using assms unfolding settle_transaction_def rollback_transaction_def rolled_back_def
  by (auto split: sum.splits settled.splits if_splits option.splits prod.splits)

lemma settle_committed:
  assumes "settle_transaction cfg env (Inr (AnswerElement body (Some t) True port)) tx = (r, db')"
    and "find_claim (write_key i) (pd_log db) = None" and "ot_begun tx = db"
    and "ot_work tx = \<lparr>pd_data = d, pd_log = pd_log db @ [write_claim_row now i known]\<rparr>"
    and "ot_finish tx = (case known of None \<Rightarrow> Some (write_key i, result) | Some _ \<Rightarrow> None)"
  obtains (kept) "db' = db" "\<And>body port. r = Inr (Inr (body, port)) \<Longrightarrow> error_answer body"
  | (swallowed) "db' = db" "ot_connection tx = Aborted" "known \<noteq> None" "\<not> ot_causation tx" "r = Inr (Inr (body, port))"
  | (stored) "ot_connection tx = Live" "db' = committed_db db d now i (stored_text known result)"
      "r = Inr (Inr (body, port)) \<or> r = Inr (Inr (uncertain_body t, port))"
proof -
  obtain c db1 where c: "commit_transaction (ee_commit env) tx = (c, db1)" by fastforce
  from c show thesis
  proof (cases rule: commit_claimed [OF assms(2-5), consumes 1, case_names failed swallowed unread stored])
    case (failed f)
    have "db' = db" "error_answer b" if "r = Inr (Inr (b, p))" for b p
      using assms(1) c failed that commit_body_error [of cfg body "Some t" f b]
      by (auto simp: settle_transaction_def split: sum.splits)
    moreover have "db' = db" using assms(1) c failed by (auto simp: settle_transaction_def split: sum.splits)
    ultimately show thesis by (intro kept)
  next
    case swallowed
    with assms(1) c that(2) show thesis by (auto simp: settle_transaction_def commit_body_def)
  next
    case (unread e)
    with assms(1) c that(3) show thesis by (auto simp: settle_transaction_def commit_body_def)
  next
    case stored
    with assms(1) c that(3) show thesis by (auto simp: settle_transaction_def commit_body_def)
  qed
qed

lemma settled_run:
  assumes "settle_transaction cfg env r1 tx = (r, db')" and "names_claim i"
    and "begin_claim parse begun i known (pd_log db) = (Inr (New t), lg)"
    and "tx1 = (open_transaction known causation db)\<lparr>ot_work := db\<lparr>pd_log := lg\<rparr>, ot_connection := Live\<rparr>"
    and "in_transaction guest v tx1 = (out, tx2)"
    and rec: "record_element (tx_ops parse to_text) ended t (decide parse whole q True t out) tx2 = (r1, tx)"
  obtains (kept) "db' = db" "\<And>body port. r = Inr (Inr (body, port)) \<Longrightarrow> error_answer body"
  | (swallowed) d where "db' = db" "guest v (pd_data db) = (out, d, Aborted)" "known \<noteq> None" "\<not> causation"
      "\<And>body port. r = Inr (Inr (body, port)) \<Longrightarrow> no_request_id body"
  | (committed) now d body port where "find_claim (write_key i) (pd_log db) = None" "write_row_check (write_claim_row now i known)"
      "guest v (pd_data db) = (out, d, Live)" "\<not> is_error body" "no_request_id body"
      "db' = committed_db db d now i (stored_text known (to_text body))"
      "r = Inr (Inr (body, port)) \<or> r = Inr (Inr (uncertain_body (claim_id (write_key i)), port))"
proof -
  obtain n d con where ran: "find_claim (write_key i) (pd_log db) = None" "t = claim_id (write_key i)"
    "write_row_check (write_claim_row n i known)" "guest v (pd_data db) = (out, d, con)"
    "ot_begun tx = db" "ot_connection tx = con" "ot_causation tx = causation"
    "ot_work tx = \<lparr>pd_data = d, pd_log = pd_log db @ [write_claim_row n i known]\<rparr>"
    "ot_finish tx2 = None" "ot_known_result tx2 = known"
    by (rule settle_new [OF assms(3-6)])
  show thesis
  proof (cases "\<exists>body iid port. r1 = Inr (AnswerElement body iid True port)")
    case True
    then obtain body iid port where r1: "r1 = Inr (AnswerElement body iid True port)" by blast
    have k: "claim_of ''finish'' t = Inr (write_key i)" unfolding ran(2) by (rule claim_of_id [OF write_key_named [OF assms(2)]])
    note fin = record_element_commit [OF rec [unfolded r1] k ran(9), unfolded ran(10)]
    show thesis
      by (rule settle_committed [OF assms(1) [unfolded r1 fin(1)] ran(1,5,8) fin(4)])
        (use that ran fin(2,3) in auto)
  next
    case False
    have "error_answer body" if "r1 = Inr (AnswerElement body iid False port)" for body iid port
      using record_answer_error [OF rec [unfolded that]] by simp
    with settle_kept [OF assms(1)] False ran(5) that(1) show thesis by blast
  qed
qed

lemma transacted_element_cases:
  assumes "transacted_element cfg whole env known causation e db = (r, db')" and "names_claim (env_intent cfg env e)"
  obtains (kept) "db' = db" "\<And>body port. r = Inr (Inr (body, port)) \<Longrightarrow> error_answer body"
  | (replayed) row stored body where "db' = db" "find_claim (write_key (env_intent cfg env e)) (pd_log db) = Some row"
      "wl_request row = in_input_hash (env_intent cfg env e)" "wl_result row = Some stored" "cc_parse cfg stored = Some body"
      "r = rolled_back (ee_rollback env) (Inr (body, None))"
  | (swallowed) out d where "db' = db" "guest_run env e (pd_data db) = (out, d, Aborted)" "known \<noteq> None" "\<not> causation"
      "\<And>body port. r = Inr (Inr (body, port)) \<Longrightarrow> no_request_id body"
  | (committed) now out d body port where "find_claim (write_key (env_intent cfg env e)) (pd_log db) = None"
      "write_row_check (write_claim_row now (env_intent cfg env e) known)"
      "guest_run env e (pd_data db) = (out, d, Live)" "\<not> is_error body" "no_request_id body"
      "db' = committed_db db d now (env_intent cfg env e) (stored_text known (cc_to_text cfg body))"
      "r = Inr (Inr (body, port)) \<or> r = Inr (Inr (uncertain_body (claim_id (write_key (env_intent cfg env e))), port))"
proof -
  let ?i = "env_intent cfg env e"
  obtain r1 tx where s: "settle_request_element (tx_ops (cc_parse cfg) (cc_to_text cfg)) (cc_parse cfg) (cc_sha cfg) (cc_context cfg)
    (element_deadline_ms (ee_remaining env)) whole True (ee_begun_at env) (ee_ended_at env)
    (in_transaction (ee_guest env)) e (open_transaction known causation db) = (r1, tx)" by fastforce
  with assms(1) have settled: "settle_transaction cfg env r1 tx = (r, db')" by (simp add: transacted_element_def)
  from s show thesis
  proof (cases rule: settle_cases)
    case (failed err)
    with settled have "db' = db" "r = Inl err" by (simp_all add: settle_transaction_def rollback_transaction_def)
    then show thesis by (intro kept) simp_all
  next
    case (answered b a)
    show thesis
    proof (cases "\<exists>v. b = Finished v")
      case True
      then obtain v where v: "b = Finished v" by blast
      have "db' = db" "r = rolled_back (ee_rollback env) (Inr (v, None))"
        using settled answered v by (auto simp: settle_transaction_def rollback_transaction_def claim_answer_def plain_answer_def)
      with begin_claim_Finished [OF answered(1) [unfolded v, folded env_intent_def]] replayed show thesis by metis
    next
      case False
      have "r1 \<noteq> Inr (AnswerElement body iid True port)" for body iid port
        using answered(2,3) claim_answer_no_commit by fastforce
      moreover have "error_answer body" if "r1 = Inr (AnswerElement body iid False port)" for body iid port
        using answered(2,3) claim_answer_error [OF _ False] that by fastforce
      ultimately show thesis using settle_kept [OF settled] answered(4) kept by blast
    qed
  next
    case (ran t lg tx1 out tx2)
    show thesis
      by (rule settled_run [OF settled assms(2) ran(1) [folded env_intent_def] ran(2-4)])
        (use kept swallowed committed in \<open>auto simp: guest_run_def\<close>)
  qed
qed

section \<open>Atomicity\<close>

text \<open>The answer a retry gets from the row of a finished claim.\<close>

definition replays :: "call_config \<Rightarrow> intent \<Rightarrow> write_log \<Rightarrow> json \<Rightarrow> bool" where
  "replays cfg i lg body \<longleftrightarrow>
     (case find_claim (write_key i) lg of
        None \<Rightarrow> False
      | Some row \<Rightarrow> wl_request row = in_input_hash i \<and> Option.bind (wl_result row) (cc_parse cfg) = Some body)"


section \<open>Histories of one database\<close>

text \<open>The elements of any calls, one after another, with the key and the database before and after each.\<close>

inductive element_history ::
    "'d project_db \<Rightarrow> ((string \<times> string) \<times> 'd project_db \<times> 'd project_db) list \<Rightarrow> 'd project_db \<Rightarrow> bool" for db0 where
  no_element: "element_history db0 [] db0"
| one_element: "element_history db0 tr db \<Longrightarrow> names_claim (env_intent cfg env e) \<Longrightarrow>
    transacted_element cfg whole env known causation e db = (r, db') \<Longrightarrow>
    element_history db0 (tr @ [(write_key (env_intent cfg env e), db, db')]) db'"

definition took_effect :: "(string \<times> string) \<times> 'd project_db \<times> 'd project_db \<Rightarrow> bool" where
  "took_effect s \<longleftrightarrow> pd_log (snd (snd s)) \<noteq> pd_log (fst (snd s)) \<or> pd_data (snd (snd s)) \<noteq> pd_data (fst (snd s))"

lemma committed_db_sel [simp]:
  "pd_data (committed_db db d now i t) = d" "pd_log (committed_db db d now i t) = pd_log db @ [write_claim_row now i (Some t)]"
  by (simp_all add: committed_db_def)

lemma element_effect:
  assumes "transacted_element cfg whole env known causation e db = (r, db')" and "names_claim (env_intent cfg env e)"
  obtains (none) "db' = db"
  | (row) x where "find_claim (write_key (env_intent cfg env e)) (pd_log db) = None" "wl_claim x = write_key (env_intent cfg env e)"
      "wl_result x \<noteq> None" "pd_log db' = pd_log db @ [x]"
  using assms
proof (cases rule: transacted_element_cases)
  case (committed now out d body port)
  with that(2) [of "write_claim_row now (env_intent cfg env e) (Some (stored_text known (cc_to_text cfg body)))"]
  show thesis by simp
qed (use that(1) in blast)+

text \<open>
  C14. The work of a key takes effect at most once. Over every sequence of elements on one database,
  whatever their calls, guests, versions and failures, the elements that changed anything have distinct
  keys that the log did not hold before, the log grew by exactly their rows, and each of those rows has its result.
\<close>

theorem effects_once:
  assumes "element_history db tr db'"
  shows "distinct (map fst (filter took_effect tr)) \<and> (\<forall>k \<in> set (map fst (filter took_effect tr)). find_claim k (pd_log db) = None)
    \<and> (\<exists>rows. pd_log db' = pd_log db @ rows \<and> map wl_claim rows = map fst (filter took_effect tr)
         \<and> list_all (\<lambda>x. wl_result x \<noteq> None) rows)"
  using assms
proof induction
  case (one_element tr db1 cfg env e whole known causation r db2)
  then obtain rows where rows: "pd_log db1 = pd_log db @ rows" "map wl_claim rows = map fst (filter took_effect tr)"
    "list_all (\<lambda>x. wl_result x \<noteq> None) rows" by blast
  from one_element.hyps(3,2) show ?case
  proof (cases rule: element_effect)
    case none
    with one_element.IH show ?thesis by (simp add: took_effect_def)
  next
    case (row x)
    have "wl_claim x \<notin> set (map wl_claim rows)" "find_claim (wl_claim x) (pd_log db) = None"
      using row(1,2) rows(1) by (auto simp: find_claim_None)
    with row rows one_element.IH show ?thesis by (auto simp: took_effect_def intro!: exI [of _ "rows @ [x]"])
  qed
qed simp

section \<open>Retries\<close>

lemma element_history_extends: "element_history db tr db' \<Longrightarrow> \<exists>rows. pd_log db' = pd_log db @ rows"
proof (induction rule: element_history.induct)
  case (one_element tr db1 cfg env e whole known causation r db2)
  from one_element.hyps(3,2) show ?case
    by (cases rule: element_effect) (use one_element.IH in auto)
qed simp

lemma begin_claim_stored:
  assumes "find_claim (write_key i) lg = Some row" and "wl_request row = in_input_hash i" and "write_row_check row"
    and "wl_result row = Some stored" and "parse stored = Some v"
  shows "begin_claim parse (Some n) i known lg = (Inr (Finished v), lg)"
proof -
  have "fst (write_key i) = wl_operation row" "snd (write_key i) = wl_key row"
    using find_claim_Some [OF assms(1)] by (metis wl_claim_def fst_conv snd_conv)+
  with assms show ?thesis by (simp add: begin_claim_def insert_claim_def write_row_check_def Let_def)
qed

lemma transacted_element_replay:
  assumes "find_claim (write_key (env_intent cfg env e)) (pd_log db) = Some row" and "wl_request row = in_input_hash (env_intent cfg env e)"
    and "write_row_check row" and "wl_result row = Some stored" and "cc_parse cfg stored = Some v"
    and "ee_begun_at env = Some n"
  shows "transacted_element cfg whole env known causation e db = (rolled_back (ee_rollback env) (Inr (v, None)), db)"
  using begin_claim_stored [OF assms(1-4), of "cc_parse cfg" v n known] assms(5) assms(6)
  by (simp add: transacted_element_def settle_request_element_def tx_ops_def tx_begin_def env_intent_def claim_answer_def
      plain_answer_def settle_transaction_def rollback_transaction_def)


section \<open>The answers of a call\<close>

text \<open>No stored outcome has a member for a request id.\<close>

definition clean_text :: "call_config \<Rightarrow> string \<Rightarrow> bool" where
  "clean_text cfg t \<longleftrightarrow> (case cc_parse cfg t of None \<Rightarrow> True | Some v \<Rightarrow> no_request_id v)"

definition clean_row :: "call_config \<Rightarrow> write_row \<Rightarrow> bool" where
  "clean_row cfg x \<longleftrightarrow> (case wl_result x of None \<Rightarrow> True | Some t \<Rightarrow> clean_text cfg t)"

definition clean_admission :: "call_config \<Rightarrow> 'd element_env \<Rightarrow> bool" where
  "clean_admission cfg env \<longleftrightarrow>
     (case ee_admission env of
        Inl _ \<Rightarrow> True
      | Inr None \<Rightarrow> False
      | Inr (Some (known, _)) \<Rightarrow> (case known of None \<Rightarrow> True | Some t \<Rightarrow> clean_text cfg t))"

lemma names_claim_env [simp]: "names_claim (env_intent cfg env e) \<longleftrightarrow> names_operation (ic_operation (cc_context cfg))"
  by (simp add: names_claim_def env_intent_def element_intent_def)

lemma transacted_element_clean:
  assumes "transacted_element cfg whole env known causation e db = (r, db')"
    and "names_operation (ic_operation (cc_context cfg))" and "list_all (clean_row cfg) (pd_log db)"
    and "case known of None \<Rightarrow> True | Some t \<Rightarrow> clean_text cfg t"
    and "\<And>b. no_request_id b \<Longrightarrow> clean_text cfg (cc_to_text cfg b)"
  shows "list_all (clean_row cfg) (pd_log db') \<and> (\<forall>body port. r = Inr (Inr (body, port)) \<longrightarrow> no_request_id body)"
  using assms(1) names_claim_env [THEN iffD2, OF assms(2)]
proof (cases rule: transacted_element_cases)
  case kept
  with assms(3) show ?thesis by (auto simp: error_answer_def)
next
  case (replayed row stored v)
  have "clean_row cfg row" using find_claim_Some [OF replayed(2)] assms(3) by (auto simp: list_all_iff)
  with replayed assms(3) show ?thesis
    by (auto simp: clean_row_def clean_text_def rolled_back_def split: option.splits)
next
  case (committed now out d b p)
  have "clean_text cfg (stored_text known (cc_to_text cfg b))"
    using assms(4) assms(5) [OF committed(5)] by (auto simp: stored_text_def split: option.splits)
  with committed assms(3) error_answer_uncertain show ?thesis by (auto simp: clean_row_def error_answer_def)
qed (use assms(3) in auto)

lemma run_element_clean:
  assumes "run_element ops cfg whole env e st = (r, st')" and "clean_admission cfg env"
    and "names_operation (ic_operation (cc_context cfg))" and "list_all (clean_row cfg) (pd_log (snd st))"
    and "\<And>b. no_request_id b \<Longrightarrow> clean_text cfg (cc_to_text cfg b)"
  shows "list_all (clean_row cfg) (pd_log (snd st')) \<and> (\<forall>body port. r = Inr (Inr (body, port)) \<longrightarrow> no_request_id body)"
proof (cases "ee_remaining env \<noteq> 0 \<and> (\<exists>known causation. ee_admission env = Inr (Some (known, causation)))")
  case True
  then obtain known causation where adm: "ee_admission env = Inr (Some (known, causation))" by blast
  obtain r1 db' where t: "transacted_element cfg whole env known causation e (snd st) = (r1, db')" by fastforce
  with assms(1) adm True have "r = r1" "snd st' = db'" by (auto simp: run_element_def)
  moreover have "case known of None \<Rightarrow> True | Some t \<Rightarrow> clean_text cfg t" using assms(2) adm by (simp add: clean_admission_def)
  ultimately show ?thesis using transacted_element_clean [OF t assms(3,4) _ assms(5)] by simp
next
  case False
  with assms show ?thesis
    by (auto simp: run_element_def clean_admission_def split: sum.splits option.splits if_splits)
qed

text \<open>What each element answered on its own, run one after another.\<close>

fun element_bodies ::
    "'s intent_ops \<Rightarrow> call_config \<Rightarrow> nat \<Rightarrow> (request_element \<Rightarrow> 'd element_env) \<Rightarrow> request_element list
       \<Rightarrow> 's \<times> 'd project_db \<Rightarrow> (json list \<times> 's \<times> 'd project_db) option" where
  "element_bodies ops cfg whole env [] st = Some ([], st)"
| "element_bodies ops cfg whole env (e # es) st =
     (case run_element ops cfg whole (env e) e st of
        (Inr (Inr (body, _)), st') \<Rightarrow> map_option (\<lambda>(bs, st''). (body # bs, st'')) (element_bodies ops cfg whole env es st')
      | _ \<Rightarrow> None)"

lemma invoke_elements_answers:
  assumes "invoke_elements ops cfg whole env es answers port st = (Inr (Inr (as, p)), st')" and "\<And>e. clean_admission cfg (env e)"
    and "names_operation (ic_operation (cc_context cfg))" and "list_all (clean_row cfg) (pd_log (snd st))"
    and "\<And>b. no_request_id b \<Longrightarrow> clean_text cfg (cc_to_text cfg b)"
  shows "\<exists>bs. as = answers @ bs \<and> element_bodies ops cfg whole env es st = Some (bs, st')
    \<and> length bs = length es \<and> list_all no_request_id bs"
  using assms(1,4)
proof (induction es arbitrary: answers port st)
  case (Cons e es)
  from Cons.prems(1) obtain body q st1 where run: "run_element ops cfg whole (env e) e st = (Inr (Inr (body, q)), st1)"
    "invoke_elements ops cfg whole env es (answers @ [body]) (if q \<noteq> None then q else port) st1 = (Inr (Inr (as, p)), st')"
    by (auto split: prod.splits sum.splits)
  from run_element_clean [OF run(1) assms(2,3) Cons.prems(2) assms(5)]
  have "list_all (clean_row cfg) (pd_log (snd st1))" "no_request_id body" by auto
  with Cons.IH [OF run(2)] run(1) show ?case by fastforce
qed simp

lemma map_of_extend:
  "k \<notin> fst ` set ms \<Longrightarrow> map_of (fold (\<lambda>(k, v). members_insert k v) ms acc) k = map_of acc k"
  by (induction ms arbitrary: acc) auto

lemma merge_answer_id: "no_request_id body \<Longrightarrow> json_get (merge_answer e body) REQUEST_ID = Some (JString (re_request_id e))"
  by (cases body) (auto simp: merge_answer_def no_request_id_def map_of_extend map_of_eq_None_iff)


section \<open>A sample call\<close>

text \<open>A create whose guest counts its runs; the payload \<^verbatim>\<open>p\<close> answers the request \<^verbatim>\<open>r1\<close>, and \<^verbatim>\<open>t\<close> is its stored text.\<close>

definition sample_body :: json where "sample_body = JObject [(''value'', JNull)]"

definition sample_parse :: "string \<Rightarrow> json option" where
  "sample_parse t =
     (if t = ''p'' then Some (JArray [JObject [(''request_id'', JString ''r1''), (''value'', JNull)]])
      else if t = ''t'' then Some sample_body else None)"

definition sample_config :: "string \<Rightarrow> call_config" where
  "sample_config operation =
     \<lparr>cc_parse = sample_parse, cc_to_text = (\<lambda>_. ''t''), cc_sha = (\<lambda>_. ''h''), cc_debug = (\<lambda>_. ''''),
      cc_context = \<lparr>ic_tenant = ''acme'', ic_release = ''r1'', ic_package = ''pkg'', ic_operation = operation,
        ic_key_field = None, ic_hashed = (\<lambda>v. v)\<rparr>\<rparr>"

definition sample_element :: request_element where
  "sample_element = \<lparr>re_request_id = ''r1'', re_key = ''r1'', re_value = JObject [(''request_id'', JString ''r1'')]\<rparr>"

definition sample_env :: "nat element_env" where
  "sample_env = \<lparr>ee_remaining = 1000000, ee_admission = Inr (Some (None, True)), ee_begun_at = Some 5, ee_ended_at = Some 6,
     ee_export = (\<lambda>_. Inl ''''), ee_guest = (\<lambda>_ d. (Inr (Inr \<lparr>em_payload = ''p'', em_port = None\<rparr>), d + 1, Live)),
     ee_commit = Answers, ee_rollback = None\<rparr>"

definition empty_db :: "nat project_db" where "empty_db = \<lparr>pd_data = 0, pd_log = []\<rparr>"

definition created_db :: "nat project_db" where
  "created_db = \<lparr>pd_data = 1, pd_log = [\<lparr>wl_operation = ''create'', wl_key = ''r1'', wl_request = ''h'', wl_result = Some ''t'',
     wl_created_at = 5\<rparr>]\<rparr>"

lemmas sample_defs = sample_body_def sample_parse_def sample_config_def sample_element_def sample_env_def empty_db_def created_db_def

lemmas element_eval = transacted_element_def settle_request_element_def tx_ops_def tx_begin_def element_intent_def
  request_element_hash_def begin_claim_def insert_claim_def write_row_check_def find_claim_def write_key_def log_operation_def
  split_once_def claim_id_def claim_of_def claim_answer_def open_transaction_def begin_operation_transaction_def
  with_known_result_def drops_connection_def in_transaction_def decide_def read_results_def REQUEST_ID_def members_remove_def
  record_element_def tx_finish_def settle_transaction_def commit_transaction_def commit_pipeline_def store_result_def
  is_open_claim_def wl_claim_def commit_body_def rolled_back_def rollback_transaction_def plain_answer_def Let_def

lemma sample_runs:
  "transacted_element (sample_config ''create@1'') 1 sample_env None True sample_element empty_db
     = (Inr (Inr (sample_body, None)), created_db)"
  by (simp add: element_eval sample_defs)

lemma sample_named: "names_claim (env_intent (sample_config ''create@1'') sample_env sample_element)"
  by (simp add: names_operation_def sample_config_def)

lemma sample_keys:
  "write_key (env_intent (sample_config ''create@2'') sample_env sample_element) = (''create'', ''r1'')"
  "write_key (env_intent (sample_config ''create@1'') sample_env sample_element) = (''create'', ''r1'')"
  "in_input_hash (env_intent (sample_config operation) sample_env sample_element) = ''h''"
  by (simp_all add: env_intent_def element_eval sample_config_def sample_element_def)


theorem effects_once_witness:
  "\<exists>rows. pd_log created_db = pd_log empty_db @ rows \<and> map wl_claim rows = [(''create'', ''r1'')]
     \<and> list_all (\<lambda>x. wl_result x \<noteq> None) rows"
proof -
  let ?k = "write_key (env_intent (sample_config ''create@1'') sample_env sample_element)"
  have h: "element_history empty_db ([] @ [(?k, empty_db, created_db)]) created_db"
    by (rule one_element [OF no_element sample_named sample_runs])
  have "took_effect (?k, empty_db, created_db)" by (simp add: took_effect_def sample_defs)
  with effects_once [OF h] show ?thesis by (simp add: sample_keys)
qed


lemma sample_call:
  "invoke_logged (write_log_ops sample_parse (\<lambda>_. ''t'') ''acme'') (sample_config ''create@1'') None None (\<lambda>_. sample_env)
     (JArray [re_value sample_element]) ([], empty_db)
   = (Inr (Inr \<lparr>em_payload = ''t'', em_port = None\<rparr>), [], created_db)"
proof -
  have "request_elements (JArray [re_value sample_element]) None = Inr [sample_element]"
    by (simp add: request_elements_def sample_element_def REQUEST_ID_def)
  moreover have "run_element (write_log_ops sample_parse (\<lambda>_. ''t'') ''acme'') (sample_config ''create@1'') 1 sample_env
      sample_element ([], empty_db) = (Inr (Inr (sample_body, None)), [], created_db)"
    using sample_runs by (simp add: run_element_def sample_env_def)
  ultimately show ?thesis by (simp add: invoke_logged_def canonical_input_def sample_config_def)
qed


end
