(* ===== verification/Counter_Set.thy ===== *)
theory Counter_Set
  imports Operation_Transaction
begin

text \<open>
  The write of the \<^verbatim>\<open>number_counter.set\<close> route (\<^verbatim>\<open>wamn_postgres/numbering/set.rs\<close>): the guarded write of one
  counter, in an operation transaction whose data are the numbering tables, under a claim that holds its
  result from the start. The digest of a set and the reader and writer of JSON text are parameters, and
  so are the answers of the database around the write.
\<close>

fun as_i64 :: "json \<Rightarrow> int option" where
  "as_i64 (JNumber (PosInt n)) = (if uint n \<le> I64_MAX then Some (uint n) else None)"
| "as_i64 (JNumber (NegInt i)) = Some i"
| "as_i64 _ = None"

record set_env =
  se_unbound :: "string option"
  se_unopened :: "string option"
  se_claim :: "(pg_error, int) result"
  se_commit :: commit_answer

definition value_json :: "int \<Rightarrow> json" where
  "value_json v = JObject [(''value'', JNumber (PosInt (of_int v)))]"

text \<open>The value a stored result names.\<close>

definition stored_value :: "(string \<Rightarrow> json option) \<Rightarrow> string \<Rightarrow> (set_error, int) result" where
  "stored_value parse result =
     (case Option.bind (Option.bind (parse result) (\<lambda>v. json_get v ''value'')) as_i64 of
        None \<Rightarrow> Inl (SetFailed ''the stored result names no value'')
      | Some v \<Rightarrow> Inr v)"

definition write_counter ::
    "set_env \<Rightarrow> counter_set \<Rightarrow> numbering operation_transaction \<Rightarrow> ((set_error, int) result \<times> numbering project_db) option" where
  "write_counter env x tx =
     (case set_counter x (pd_data (ot_work tx)) of
        None \<Rightarrow> None
      | Some (Inl e, _) \<Rightarrow> Some (Inl e, rollback_transaction tx)
      | Some (Inr _, d) \<Rightarrow>
          (case commit_transaction (se_commit env) (tx\<lparr>ot_work := (ot_work tx)\<lparr>pd_data := d\<rparr>\<rparr>) of
             (Inl _, db) \<Rightarrow> Some (Inl (SetFailed ''commit the set''), db)
           | (Inr _, db) \<Rightarrow> Some (Inr (cs_value x), db)))"

definition set_in_transaction ::
    "(string \<Rightarrow> json option) \<Rightarrow> (json \<Rightarrow> string) \<Rightarrow> (counter_set \<Rightarrow> string) \<Rightarrow> set_env \<Rightarrow> string \<Rightarrow> string \<Rightarrow> counter_set
       \<Rightarrow> numbering project_db \<Rightarrow> ((set_error, int) result \<times> numbering project_db) option" where
  "set_in_transaction parse to_text digest env operation request_id x db =
     (case se_unopened env of
        Some e \<Rightarrow> Some (Inl (SetFailed ''begin the set's transaction''), db)
      | None \<Rightarrow>
          (case begin_opaque (se_claim env) operation request_id (digest x)
                  (with_known_result (to_text (value_json (cs_value x))) (begin_operation_transaction False db)) of
             (Inl _, tx) \<Rightarrow> Some (Inl (SetFailed ''claim the request id in the write log''), rollback_transaction tx)
           | (Inr OpaqueConflict, tx) \<Rightarrow> Some (Inl (SetRefused SetIdempotencyConflict), rollback_transaction tx)
           | (Inr OpaqueUncertain, tx) \<Rightarrow> Some (Inl (SetFailed ''the write log holds an unfinished claim''), rollback_transaction tx)
           | (Inr (OpaqueFinished result), tx) \<Rightarrow> Some (stored_value parse result, rollback_transaction tx)
           | (Inr OpaqueNew, tx) \<Rightarrow> write_counter env x tx))"

definition set_number_counter ::
    "(string \<Rightarrow> json option) \<Rightarrow> (json \<Rightarrow> string) \<Rightarrow> (counter_set \<Rightarrow> string) \<Rightarrow> set_env \<Rightarrow> string \<Rightarrow> string \<Rightarrow> counter_set
       \<Rightarrow> numbering project_db \<Rightarrow> ((set_error, int) result \<times> numbering project_db) option" where
  "set_number_counter parse to_text digest env operation request_id x db =
     (if cs_value x < 1 then Some (Inl (SetRefused (InvalidSetInput ''value'')), db)
      else if request_id = [] then Some (Inl (SetRefused (InvalidSetInput ''request_id'')), db)
      else
        (case se_unbound env of
           Some e \<Rightarrow> Some (Inl (SetFailed ''bind the set's session claims''), db)
         | None \<Rightarrow> set_in_transaction parse to_text digest env operation request_id x db))"

section \<open>What a set leaves\<close>

definition set_row :: "int \<Rightarrow> string \<Rightarrow> string \<Rightarrow> string \<Rightarrow> string \<Rightarrow> write_row" where
  "set_row now operation request_id request result =
     \<lparr>wl_operation = log_operation operation, wl_key = request_id, wl_request = request, wl_result = Some result, wl_created_at = now\<rparr>"

lemma begin_opaque_cases:
  assumes "begin_opaque c operation key request (with_known_result result (begin_operation_transaction False db)) = (r, tx)"
  obtains (failed) e where "r = Inl e" "ot_begun tx = db"
  | (met) row where "find_claim (log_operation operation, key) (pd_log db) = Some row" "ot_begun tx = db"
      "r = Inr (if wl_request row \<noteq> request then OpaqueConflict
         else case wl_result row of Some t \<Rightarrow> OpaqueFinished t | None \<Rightarrow> OpaqueUncertain)"
  | (new) now where "find_claim (log_operation operation, key) (pd_log db) = None" "r = Inr OpaqueNew"
      "write_row_check (set_row now operation key request result)"
      "tx = (with_known_result result (begin_operation_transaction False db))
         \<lparr>ot_work := db\<lparr>pd_log := pd_log db @ [set_row now operation key request result]\<rparr>\<rparr>"
proof (cases c)
  case (Inl e)
  with assms failed show thesis by (auto simp: begin_opaque_def with_known_result_def begin_operation_transaction_def Let_def)
next
  case (Inr now)
  show thesis
  proof (cases "find_claim (log_operation operation, key) (pd_log db)")
    case None
    with assms Inr failed new [of now] show thesis
      by (auto simp: begin_opaque_def with_known_result_def begin_operation_transaction_def insert_claim_def set_row_def Let_def
          split: if_splits)
  next
    case (Some row)
    with assms Inr failed met show thesis
      by (auto simp: begin_opaque_def with_known_result_def begin_operation_transaction_def insert_claim_def Let_def
          split: if_splits option.splits)
  qed
qed

lemma commit_new_set:
  assumes "commit_transaction answer (with_known_result t (begin_operation_transaction False db)\<lparr>ot_work := w\<rparr>) = (r, db')"
  shows "db' = db \<and> (\<exists>f. r = Inl f) \<or> db' = w"
  using assms by (auto simp: commit_transaction_def commit_pipeline_def with_known_result_def begin_operation_transaction_def
      split: commit_answer.splits if_splits)

lemma write_counter_cases:
  assumes "write_counter env x (with_known_result t (begin_operation_transaction False db)\<lparr>ot_work := db\<lparr>pd_log := lg\<rparr>\<rparr>) = Some (r, db')"
  obtains (refused) e where "r = Inl e" "db' = db"
  | (written) d where "set_counter x (pd_data db) = Some (Inr (), d)" "db' = \<lparr>pd_data = d, pd_log = lg\<rparr>"
      "r = Inr (cs_value x) \<or> r = Inl (SetFailed ''commit the set'')"
proof (cases "set_counter x (pd_data db)")
  case (Some p)
  obtain s d where p: "p = (s, d)" by (cases p)
  show thesis
  proof (cases s)
    case (Inl e)
    with assms Some p refused show thesis
      by (auto simp: write_counter_def rollback_transaction_def with_known_result_def begin_operation_transaction_def)
  next
    case (Inr u)
    let ?tx = "with_known_result t (begin_operation_transaction False db)\<lparr>ot_work := db\<lparr>pd_log := lg, pd_data := d\<rparr>\<rparr>"
    obtain c db1 where c: "commit_transaction (se_commit env) ?tx = (c, db1)" by fastforce
    have "r = (case c of Inl _ \<Rightarrow> Inl (SetFailed ''commit the set'') | Inr _ \<Rightarrow> Inr (cs_value x))" "db' = db1"
      using assms Some p Inr c by (auto simp: write_counter_def split: sum.splits)
    with commit_new_set [OF c] refused written [of d] Some p Inr show thesis
      by (cases db) (auto split: sum.splits)
  qed
qed (use assms in \<open>simp add: write_counter_def\<close>)

text \<open>The cases of a set: nothing changed, or the counter and the claim were written together.\<close>

lemma set_number_counter_cases:
  assumes "set_number_counter parse to_text digest env operation request_id x db = Some (r, db')"
  obtains (refused) e where "r = Inl e" "db' = db"
  | (replayed) row t where "db' = db" "find_claim (log_operation operation, request_id) (pd_log db) = Some row"
      "wl_request row = digest x" "wl_result row = Some t" "r = stored_value parse t"
  | (written) now d where "find_claim (log_operation operation, request_id) (pd_log db) = None"
      "set_counter x (pd_data db) = Some (Inr (), d)"
      "write_row_check (set_row now operation request_id (digest x) (to_text (value_json (cs_value x))))"
      "db' = \<lparr>pd_data = d, pd_log = pd_log db @ [set_row now operation request_id (digest x) (to_text (value_json (cs_value x)))]\<rparr>"
      "r = Inr (cs_value x) \<or> r = Inl (SetFailed ''commit the set'')"
proof (cases "1 \<le> cs_value x \<and> request_id \<noteq> [] \<and> se_unbound env = None \<and> se_unopened env = None")
  case False
  with assms refused show thesis
    by (auto simp: set_number_counter_def set_in_transaction_def split: if_splits option.splits)
next
  case True
  let ?t = "to_text (value_json (cs_value x))"
  obtain b tx where b: "begin_opaque (se_claim env) operation request_id (digest x)
    (with_known_result ?t (begin_operation_transaction False db)) = (b, tx)" by fastforce
  note set = assms [unfolded set_number_counter_def set_in_transaction_def, simplified True b]
  from b show thesis
  proof (cases rule: begin_opaque_cases)
    case (failed e)
    with set True refused show thesis by (auto simp: rollback_transaction_def)
  next
    case (met row)
    with set True refused replayed show thesis
      by (auto simp: rollback_transaction_def split: if_splits option.splits)
  next
    case (new now)
    have "write_counter env x tx = Some (r, db')" using set True new(2) by auto
    then show thesis unfolding new(4)
      by (cases rule: write_counter_cases) (use refused written new(1,3) in auto)
  qed
qed

lemma as_i64_value: "1 \<le> v \<Longrightarrow> v \<le> I64_MAX \<Longrightarrow> as_i64 (JNumber (PosInt (of_int v))) = Some v"
  by (simp add: I64_MAX_def unsigned_of_int take_bit_int_eq_self)

lemma stored_value_json:
  "parse t = Some (value_json v) \<Longrightarrow> 1 \<le> v \<Longrightarrow> v \<le> I64_MAX \<Longrightarrow> stored_value parse t = Inr v"
  using as_i64_value by (simp add: stored_value_def value_json_def del: as_i64.simps)

lemma begin_opaque_met:
  assumes "find_claim (log_operation operation, key) (pd_log db) = Some row" and "write_row_check row" and "request \<noteq> []"
  shows "begin_opaque (Inr now) operation key request (with_known_result t (begin_operation_transaction False db))
    = (Inr (if wl_request row \<noteq> request then OpaqueConflict
         else case wl_result row of Some t \<Rightarrow> OpaqueFinished t | None \<Rightarrow> OpaqueUncertain),
       with_known_result t (begin_operation_transaction False db))"
proof -
  have "wl_operation row = log_operation operation" "wl_key row = key"
    using find_claim_Some [OF assms(1)] by (simp_all add: wl_claim_def)
  with assms show ?thesis
    by (auto simp: begin_opaque_def with_known_result_def begin_operation_transaction_def insert_claim_def write_row_check_def Let_def
        split: option.splits)
qed

text \<open>
  C17. A counter is set once for each request id. A set that answered wrote its value; from then on, while
  the log keeps its rows, the same set under that id answers the stored value and writes nothing, even after
  the counter moved on, in any version of the operation; and another set under that id is refused and writes
  nothing. Two sets with one digest are taken to be one set, and a stored value reads back as it was written.
\<close>

theorem counter_set_once:
  assumes "set_number_counter parse to_text digest env operation request_id x db = Some (Inr v, db1)"
    and "find_claim (log_operation operation, request_id) (pd_log db) = None" and "pd_log db2 = pd_log db1 @ rows"
    and "parse (to_text (value_json (cs_value x))) = Some (value_json (cs_value x))" and "cs_value x \<le> I64_MAX"
    and "log_operation operation' = log_operation operation"
    and "se_unbound env' = None" and "se_unopened env' = None" and "se_claim env' = Inr n"
  shows "v = cs_value x \<and> (\<exists>s. nu_counters (pd_data db1) s (cs_counter x) (cs_key x) = Some v)
    \<and> set_number_counter parse to_text digest env' operation' request_id x db2 = Some (Inr v, db2)
    \<and> (digest y \<noteq> digest x \<longrightarrow> digest y \<noteq> [] \<longrightarrow> 1 \<le> cs_value y \<longrightarrow>
        set_number_counter parse to_text digest env' operation' request_id y db2 = Some (Inl (SetRefused SetIdempotencyConflict), db2))"
  using assms(1)
proof (cases rule: set_number_counter_cases)
  case (written now d)
  let ?row = "set_row now operation request_id (digest x) (to_text (value_json (cs_value x)))"
  have v: "v = cs_value x" using written(5) by simp
  obtain q :: number_sequence where q: "1 \<le> cs_value x" "d = put_counter (ns_id q) (cs_counter x) (cs_key x) (cs_value x) (pd_data db)"
    by (rule set_counter_Inr [OF written(2)]) blast
  have "find_claim (log_operation operation, request_id) (pd_log db1) = Some ?row"
    using written(1,4) by (simp add: find_claim_append) (simp add: set_row_def wl_claim_def)
  then have met: "find_claim (log_operation operation', request_id) (pd_log db2) = Some ?row"
    using assms(3,6) find_claim_extended by auto
  have sel: "request_id \<noteq> []" "digest x \<noteq> []" "wl_request ?row = digest x"
    "wl_result ?row = Some (to_text (value_json (cs_value x)))"
    using written(3) by (simp_all add: write_row_check_def set_row_def)
  note begun = begin_opaque_met [OF met written(3)]
  have "set_number_counter parse to_text digest env' operation' request_id x db2 = Some (Inr v, db2)"
    using q(1) sel assms(4,5,7-9) v begun [of "digest x" n]
    by (simp add: set_number_counter_def set_in_transaction_def stored_value_json
        rollback_transaction_def with_known_result_def begin_operation_transaction_def)
  moreover have "set_number_counter parse to_text digest env' operation' request_id y db2 = Some (Inl (SetRefused SetIdempotencyConflict), db2)"
    if "digest y \<noteq> digest x" "digest y \<noteq> []" "1 \<le> cs_value y"
    using that sel assms(7-9) begun [of "digest y" n]
    by (simp add: set_number_counter_def set_in_transaction_def
        rollback_transaction_def with_known_result_def begin_operation_transaction_def)
  moreover have "nu_counters (pd_data db1) (ns_id q) (cs_counter x) (cs_key x) = Some v"
    using written(4) q(2) v by (simp add: put_counter_lookup)
  ultimately show ?thesis using v by blast
qed (use assms(2) in auto)

text \<open>A set of the line counter of one batch, and its retry after the counter moved on.\<close>

definition line_set :: "int \<Rightarrow> counter_set" where
  "line_set v = \<lparr>cs_application = ''wms'', cs_sequence = ''lot'', cs_counter = ''line'', cs_key = ''0001'', cs_value = v\<rparr>"

definition line_digest :: "counter_set \<Rightarrow> string" where
  "line_digest x = (if cs_value x = 7 then ''a'' else ''b'')"

definition line_env :: set_env where
  "line_env = \<lparr>se_unbound = None, se_unopened = None, se_claim = Inr 5, se_commit = Answers\<rparr>"

definition line_db :: "int \<Rightarrow> numbering project_db" where
  "line_db v = \<lparr>pd_data = put_counter ''s1'' ''line'' ''0001'' v lot_db, pd_log = [set_row 5 ''set@1'' ''r1'' ''a'' ''t'']\<rparr>"

lemma line_written:
  "set_number_counter (\<lambda>_. Some (value_json 7)) (\<lambda>_. ''t'') line_digest line_env ''set@1'' ''r1'' (line_set 7) \<lparr>pd_data = lot_db, pd_log = []\<rparr>
     = Some (Inr 7, line_db 7)"
proof -
  have "fst (sequence_row lot_db ''wms'' ''lot'') = Some (hd (nu_sequences lot_db))" "sequence_exists lot_db ''s1''"
    by (simp_all add: sequence_row_def lot_db_def sequence_exists_def)
  moreover have "ns_pattern (hd (nu_sequences lot_db)) = ''B{seq:batch,per=batch_id,width=4}-{seq:line,reset=batch,width=3}''"
    "ns_id (hd (nu_sequences lot_db)) = ''s1''"
    by (simp_all add: lot_db_def)
  ultimately have "set_counter (line_set 7) lot_db = Some (Inr (), put_counter ''s1'' ''line'' ''0001'' 7 lot_db)"
    by (simp add: set_counter_def line_set_def lot_pattern batch_pattern_def counters_def is_per_def set_counter_row_def)
  then show ?thesis
    by (simp add: set_number_counter_def set_in_transaction_def begin_opaque_def with_known_result_def
        begin_operation_transaction_def insert_claim_def write_row_check_def find_claim_def log_operation_def split_once_def
        write_counter_def commit_transaction_def commit_pipeline_def line_db_def set_row_def line_env_def line_digest_def
        Let_def) (simp add: line_set_def)
qed

theorem counter_set_once_witness:
  "set_number_counter (\<lambda>_. Some (value_json 7)) (\<lambda>_. ''t'') line_digest line_env ''set@2'' ''r1'' (line_set 7) (line_db 9)
     = Some (Inr 7, line_db 9)
   \<and> set_number_counter (\<lambda>_. Some (value_json 7)) (\<lambda>_. ''t'') line_digest line_env ''set@2'' ''r1'' (line_set 8) (line_db 9)
     = Some (Inl (SetRefused SetIdempotencyConflict), line_db 9)"
proof -
  have "find_claim (log_operation ''set@1'', ''r1'') (pd_log \<lparr>pd_data = lot_db, pd_log = []\<rparr>) = None"
    by (simp add: find_claim_def)
  from counter_set_once [OF line_written this, of "line_db 9" "[]" "''set@2''" line_env 5 "line_set 8"]
  show ?thesis
    by (simp add: line_set_def I64_MAX_def line_env_def line_digest_def log_operation_def split_once_def) (simp add: line_db_def)
qed

end
