(* ===== verification/Event_Wire.thy ===== *)
theory Event_Wire
  imports Json
begin

text \<open>
  The wire contract of the event plane (\<^verbatim>\<open>apps/platform/events/wire/src/lib.rs\<close>): row events and derived events as
  JSON, the ids they are deduplicated by, and the names of subjects and streams. A document is the tree of its
  text, in which an object may repeat a member; \<open>collapse\<close> is what \<^verbatim>\<open>serde_json::Value\<close> keeps of it. The digest
  of an id, and the reader and writer of a time stamp, are parameters. A refusal names one fault of the document; which of
  several faults a reader meets first is left out, as is the text of its message.
\<close>

unbundle bit_operations_syntax

section \<open>Documents\<close>

definition keep_last :: "(string \<times> json) list \<Rightarrow> (string \<times> json) list" where
  "keep_last m = fold (\<lambda>(k, v). members_insert k v) m []"

primrec collapse :: "json \<Rightarrow> json" where
  "collapse JNull = JNull"
| "collapse (JBool b) = JBool b"
| "collapse (JNumber n) = JNumber n"
| "collapse (JString s) = JString s"
| "collapse (JArray xs) = JArray (map collapse xs)"
| "collapse (JObject m) = JObject (keep_last (map (map_prod (\<lambda>k. k) collapse) m))"

datatype wire_error =
    NotAnObject
  | DuplicateField string
  | MissingField string
  | InvalidField string
  | UnknownField string
  | UnsupportedVersion string
  | NonCanonicalField string
  | EmptyDedupId
  | NotAnEnvelope

definition and_then :: "('e, 'a) result \<Rightarrow> ('a \<Rightarrow> ('e, 'b) result) \<Rightarrow> ('e, 'b) result" where
  "and_then r f = (case r of Inl e \<Rightarrow> Inl e | Inr x \<Rightarrow> f x)"

section \<open>Operations and causation\<close>

datatype row_op = OpInsert | OpUpdate | OpDelete

fun op_as_str :: "row_op \<Rightarrow> string" where
  "op_as_str OpInsert = ''insert''"
| "op_as_str OpUpdate = ''update''"
| "op_as_str OpDelete = ''delete''"

definition op_of_str :: "string \<Rightarrow> row_op option" where
  "op_of_str s =
     (if s = ''insert'' then Some OpInsert else if s = ''update'' then Some OpUpdate
      else if s = ''delete'' then Some OpDelete else None)"

text \<open>A unit variant is read from its name, or from an object that gives it \<^verbatim>\<open>null\<close>.\<close>

fun read_op :: "json \<Rightarrow> row_op option" where
  "read_op (JString s) = op_of_str s"
| "read_op (JObject [(s, JNull)]) = op_of_str s"
| "read_op _ = None"

record causation =
  ca_run :: string
  ca_root :: string
  ca_depth :: "32 word"

fun read_u32 :: "json \<Rightarrow> 32 word option" where
  "read_u32 (JNumber (PosInt n)) = (if unat n < 2 ^ 32 then Some (ucast n) else None)"
| "read_u32 _ = None"

definition causation_to_json :: "causation \<Rightarrow> json" where
  "causation_to_json c =
     JObject [(''run'', JString (ca_run c)), (''root'', JString (ca_root c)), (''depth'', JNumber (PosInt (ucast (ca_depth c))))]"

definition causation_of :: "json \<Rightarrow> json \<Rightarrow> json \<Rightarrow> causation option" where
  "causation_of r t d =
     (case (as_str r, as_str t, read_u32 d) of
        (Some rn, Some rt, Some n) \<Rightarrow> Some \<lparr>ca_run = rn, ca_root = rt, ca_depth = n\<rparr>
      | _ \<Rightarrow> None)"

text \<open>A structure is read from an object with no other member, or from the array of its fields.\<close>

fun read_causation :: "json \<Rightarrow> causation option" where
  "read_causation (JObject m) =
     (if \<not> list_all (\<lambda>(k, _). k \<in> {''run'', ''root'', ''depth''}) m then None
      else
        (case (map_of m ''run'', map_of m ''root'', map_of m ''depth'') of
           (Some r, Some t, Some d) \<Rightarrow> causation_of r t d
         | _ \<Rightarrow> None))"
| "read_causation (JArray [r, t, d]) = causation_of r t d"
| "read_causation _ = None"

section \<open>Derived events\<close>

definition DERIVED_EVENT_FORMAT_VERSION :: string where
  "DERIVED_EVENT_FORMAT_VERSION = ''0.1''"

record derived_event =
  de_format_version :: string
  de_env_key :: string
  de_project :: string
  de_environment :: string
  de_package_id :: string
  de_entity :: string
  de_op :: row_op
  de_payload :: json
  de_dedup_id :: string
  de_causation :: causation

definition derived_to_json :: "derived_event \<Rightarrow> json" where
  "derived_to_json e = JObject
     [(''format-version'', JString (de_format_version e)), (''env_key'', JString (de_env_key e)),
      (''project'', JString (de_project e)), (''environment'', JString (de_environment e)),
      (''package-id'', JString (de_package_id e)), (''entity'', JString (de_entity e)),
      (''op'', JString (op_as_str (de_op e))), (''payload'', de_payload e), (''dedup-id'', JString (de_dedup_id e)),
      (''causation'', causation_to_json (de_causation e))]"

definition derived_fields :: "string list" where
  "derived_fields = [''format-version'', ''env_key'', ''project'', ''environment'', ''package-id'', ''entity'', ''op'',
     ''payload'', ''dedup-id'', ''causation'']"

definition take_field :: "(json \<Rightarrow> 'a option) \<Rightarrow> (string \<times> json) list \<Rightarrow> string \<Rightarrow> (wire_error, 'a) result" where
  "take_field rd m k =
     (case map_of m k of
        None \<Rightarrow> Inl (MissingField k)
      | Some v \<Rightarrow> (case rd v of None \<Rightarrow> Inl (InvalidField k) | Some x \<Rightarrow> Inr x))"

definition derived_of_members :: "(string \<times> json) list \<Rightarrow> (wire_error, derived_event) result" where
  "derived_of_members m =
     and_then (take_field as_str m ''format-version'') (\<lambda>version.
     and_then (take_field as_str m ''env_key'') (\<lambda>env_key.
     and_then (take_field as_str m ''project'') (\<lambda>project.
     and_then (take_field as_str m ''environment'') (\<lambda>environment.
     and_then (take_field as_str m ''package-id'') (\<lambda>package_id.
     and_then (take_field as_str m ''entity'') (\<lambda>entity.
     and_then (take_field read_op m ''op'') (\<lambda>op.
     and_then (take_field Some m ''payload'') (\<lambda>payload.
     and_then (take_field as_str m ''dedup-id'') (\<lambda>dedup_id.
     and_then (take_field read_causation m ''causation'') (\<lambda>causation.
       case find (\<lambda>(k, _). k \<notin> set derived_fields) m of
         Some (k, _) \<Rightarrow> Inl (UnknownField k)
       | None \<Rightarrow>
           Inr \<lparr>de_format_version = version, de_env_key = env_key, de_project = project, de_environment = environment,
             de_package_id = package_id, de_entity = entity, de_op = op, de_payload = payload, de_dedup_id = dedup_id,
             de_causation = causation\<rparr>))))))))))"

fun derived_of_tree :: "json \<Rightarrow> (wire_error, derived_event) result" where
  "derived_of_tree (JObject m) =
     (case find (\<lambda>(k, _). 1 < count_list (map fst m) k) m of
        Some (k, _) \<Rightarrow> Inl (DuplicateField k)
      | None \<Rightarrow> derived_of_members (map (map_prod (\<lambda>k. k) collapse) m))"
| "derived_of_tree _ = Inl NotAnObject"

definition canonical_field :: "string \<Rightarrow> bool" where
  "canonical_field s \<longleftrightarrow> s \<noteq> [] \<and> trims_to_itself s \<and> CHR 0x00 \<notin> set s"

definition derived_from_slice :: "json \<Rightarrow> (wire_error, derived_event) result" where
  "derived_from_slice t =
     and_then (derived_of_tree t) (\<lambda>e.
       if de_format_version e \<noteq> DERIVED_EVENT_FORMAT_VERSION then Inl (UnsupportedVersion (de_format_version e))
       else
         (case find (\<lambda>(_, s). \<not> canonical_field s)
                 [(''env_key'', de_env_key e), (''project'', de_project e), (''environment'', de_environment e),
                  (''package-id'', de_package_id e), (''entity'', de_entity e),
                  (''causation.run'', ca_run (de_causation e)), (''causation.root'', ca_root (de_causation e))] of
            Some (k, _) \<Rightarrow> Inl (NonCanonicalField k)
          | None \<Rightarrow> if de_dedup_id e = [] then Inl EmptyDedupId else Inr e))"

section \<open>Row events\<close>

record envelope =
  ev_op :: row_op
  ev_old :: "(string \<times> json) list option"
  ev_new :: "(string \<times> json) list option"
  ev_package_id :: string
  ev_entity :: string
  ev_table :: string
  ev_lsn :: u64
  ev_txid :: "32 word"
  ev_commit_ts :: int
  ev_causation :: "causation option"

definition optional_member :: "string \<Rightarrow> json option \<Rightarrow> (string \<times> json) list" where
  "optional_member k v = (case v of None \<Rightarrow> [] | Some x \<Rightarrow> [(k, x)])"

definition envelope_to_json :: "(int \<Rightarrow> string) \<Rightarrow> envelope \<Rightarrow> json" where
  "envelope_to_json ts_text e = JObject
     ([(''op'', JString (op_as_str (ev_op e)))] @ optional_member ''old'' (map_option JObject (ev_old e))
      @ optional_member ''new'' (map_option JObject (ev_new e))
      @ [(''package_id'', JString (ev_package_id e)), (''entity'', JString (ev_entity e)), (''table'', JString (ev_table e)),
         (''lsn'', JNumber (PosInt (ev_lsn e))), (''txid'', JNumber (PosInt (ucast (ev_txid e)))),
         (''commit_ts'', JString (ts_text (ev_commit_ts e)))]
      @ optional_member ''causation'' (map_option causation_to_json (ev_causation e)))"

definition envelope_fields :: "string list" where
  "envelope_fields = [''op'', ''old'', ''new'', ''package_id'', ''entity'', ''table'', ''lsn'', ''txid'', ''commit_ts'', ''causation'']"

fun as_object :: "json \<Rightarrow> (string \<times> json) list option" where
  "as_object (JObject m) = Some m"
| "as_object _ = None"

definition take_optional :: "(json \<Rightarrow> 'a option) \<Rightarrow> (string \<times> json) list \<Rightarrow> string \<Rightarrow> (wire_error, 'a option) result" where
  "take_optional rd m k =
     (case map_of m k of
        None \<Rightarrow> Inr None
      | Some JNull \<Rightarrow> Inr None
      | Some v \<Rightarrow> (case rd v of None \<Rightarrow> Inl (InvalidField k) | Some x \<Rightarrow> Inr (Some x)))"

definition envelope_of_members :: "(string \<Rightarrow> int option) \<Rightarrow> (string \<times> json) list \<Rightarrow> (wire_error, envelope) result" where
  "envelope_of_members ts_of m =
     (case find (\<lambda>(k, _). k \<notin> set envelope_fields) m of
        Some (k, _) \<Rightarrow> Inl (UnknownField k)
      | None \<Rightarrow>
          and_then (take_field read_op m ''op'') (\<lambda>op.
          and_then (take_optional as_object m ''old'') (\<lambda>old.
          and_then (take_optional as_object m ''new'') (\<lambda>new.
          and_then (take_field as_str m ''package_id'') (\<lambda>package_id.
          and_then (take_field as_str m ''entity'') (\<lambda>entity.
          and_then (take_field as_str m ''table'') (\<lambda>table.
          and_then (take_field as_u64 m ''lsn'') (\<lambda>lsn.
          and_then (take_field read_u32 m ''txid'') (\<lambda>txid.
          and_then (take_field (\<lambda>v. Option.bind (as_str v) ts_of) m ''commit_ts'') (\<lambda>commit_ts.
          and_then (take_optional read_causation m ''causation'') (\<lambda>causation.
            if \<not> canonical_field package_id then Inl (NonCanonicalField ''package_id'')
            else if \<not> canonical_field entity then Inl (NonCanonicalField ''entity'')
            else
              Inr \<lparr>ev_op = op, ev_old = old, ev_new = new, ev_package_id = package_id, ev_entity = entity, ev_table = table,
                ev_lsn = lsn, ev_txid = txid, ev_commit_ts = commit_ts, ev_causation = causation\<rparr>)))))))))))"

fun envelope_of_value :: "(string \<Rightarrow> int option) \<Rightarrow> json \<Rightarrow> (wire_error, envelope) result" where
  "envelope_of_value ts_of (JObject m) = envelope_of_members ts_of m"
| "envelope_of_value ts_of (JArray vs) =
     (if length vs \<in> {9, 10} then envelope_of_members ts_of (zip envelope_fields vs) else Inl NotAnEnvelope)"
| "envelope_of_value ts_of _ = Inl NotAnEnvelope"

section \<open>Reading a source event\<close>

datatype source_event = Cdc envelope | Derived derived_event

definition source_decode :: "(string \<Rightarrow> int option) \<Rightarrow> json \<Rightarrow> (wire_error, source_event) result" where
  "source_decode ts_of t =
     (if json_get (collapse t) ''format-version'' \<noteq> None then map_sum id Derived (derived_from_slice t)
      else map_sum id Cdc (envelope_of_value ts_of (collapse t)))"

definition source_to_json :: "(int \<Rightarrow> string) \<Rightarrow> source_event \<Rightarrow> json" where
  "source_to_json ts_text s = (case s of Cdc e \<Rightarrow> envelope_to_json ts_text e | Derived e \<Rightarrow> derived_to_json e)"

section \<open>Ids and names\<close>

definition project_env :: "string \<Rightarrow> string \<Rightarrow> string" where
  "project_env project env = project @ ''_'' @ env"

definition msg_id :: "string \<Rightarrow> string \<Rightarrow> u64 \<Rightarrow> string" where
  "msg_id project env lsn = project_env project env @ '':'' @ show_nat (unat lsn)"

text \<open>The bytes of a number, the most significant first, and the framed fields of an id.\<close>

fun be_bytes :: "nat \<Rightarrow> nat \<Rightarrow> string" where
  "be_bytes 0 n = []"
| "be_bytes (Suc k) n = be_bytes k (n div 256) @ [char_of (n mod 256)]"

definition frame_field :: "string \<Rightarrow> string" where
  "frame_field s = be_bytes 8 (length s) @ s"

definition hex_byte :: "char \<Rightarrow> string" where
  "hex_byte c = [hex_digit (of_char c div 16), hex_digit (of_char c mod 16)]"

definition derived_preimage :: "string list \<Rightarrow> string" where
  "derived_preimage fs = ''wamn.event.derived-msg-id.v0.1'' @ [CHR 0x00] @ concat (map frame_field fs)"

definition derived_msg_id ::
    "(string \<Rightarrow> string) \<Rightarrow> string \<Rightarrow> string \<Rightarrow> string \<Rightarrow> string \<Rightarrow> string \<Rightarrow> row_op \<Rightarrow> string \<Rightarrow> string" where
  "derived_msg_id sha env_key project env package_id entity op dedup_id =
     ''derived:'' @ concat (map hex_byte
       (sha (derived_preimage [env_key, project, env, package_id, entity, op_as_str op, dedup_id])))"

fun hex_fixed :: "nat \<Rightarrow> nat \<Rightarrow> string" where
  "hex_fixed 0 n = []"
| "hex_fixed (Suc k) n = hex_fixed k (n div 16) @ [hex_digit (n mod 16)]"

definition fnv_step :: "char \<Rightarrow> 32 word \<Rightarrow> 32 word" where
  "fnv_step c h = (h XOR of_nat (of_char c)) * 0x01000193"

definition raw_hash :: "string \<Rightarrow> string" where
  "raw_hash raw = hex_fixed 8 (unat (fold fnv_step raw 0x811c9dc5))"

text \<open>
  The bytes of a blank at the front of a text, and none when the text does not start with one: a character that
  separates or matches subjects, a control character, or Unicode white space in its UTF-8 form.
\<close>

definition blank_width :: "string \<Rightarrow> nat" where
  "blank_width s = (case map of_char s of
       [] \<Rightarrow> 0
     | a # r \<Rightarrow>
       if a \<in> {46, 42, 62, 127} \<or> a \<le> (32 :: nat) then 1
       else case r of
         [] \<Rightarrow> 0
       | b # r' \<Rightarrow>
         if a = 194 \<and> (128 \<le> b \<and> b \<le> 160) then 2
         else case r' of
           [] \<Rightarrow> 0
         | c # _ \<Rightarrow>
           if (a, b, c) \<in> {(225, 154, 128), (226, 129, 159), (227, 128, 128)}
              \<or> a = 226 \<and> b = 128 \<and> (128 \<le> c \<and> c \<le> 138 \<or> c \<in> {168, 169, 175})
           then 3 else 0)"

function sanitize :: "string \<Rightarrow> string" where
  "sanitize [] = []"
| "sanitize (c # s) =
     (if blank_width (c # s) = 0 then c # sanitize s else CHR ''_'' # sanitize (drop (blank_width (c # s)) (c # s)))"
  by pat_completeness auto

termination
  by (relation "measure length") (auto simp: drop_Cons split: nat.splits)

definition subject_token :: "string \<Rightarrow> string" where
  "subject_token raw = (if sanitize raw = raw then sanitize raw else sanitize raw @ ''_'' @ raw_hash raw)"

definition subject :: "string \<Rightarrow> string \<Rightarrow> string \<Rightarrow> string \<Rightarrow> row_op \<Rightarrow> string" where
  "subject org project env entity op =
     ''evt.'' @ org @ ''.'' @ project @ ''.'' @ env @ ''.'' @ subject_token entity @ ''.'' @ op_as_str op"

definition stream_subjects :: "string \<Rightarrow> string \<Rightarrow> string \<Rightarrow> string" where
  "stream_subjects org project env = ''evt.'' @ org @ ''.'' @ project @ ''.'' @ env @ ''.>''"

definition stream_name :: "string \<Rightarrow> string \<Rightarrow> string \<Rightarrow> string" where
  "stream_name org project env =
     ''EVT_'' @ show_nat (length org) @ ''_'' @ org @ ''_'' @ show_nat (length project) @ ''_'' @ project @ ''_''
       @ show_nat (length env) @ ''_'' @ env"

definition delivery_advisory_stream :: "string \<Rightarrow> string" where
  "delivery_advisory_stream source_stream = ''WAMN_EVENT_ADVISORIES_'' @ source_stream"

definition delivery_advisory_subjects :: "string \<Rightarrow> string list" where
  "delivery_advisory_subjects source_stream =
     map (\<lambda>kind. ''$JS.EVENT.ADVISORY.CONSUMER.'' @ kind @ ''.'' @ source_stream @ ''.*'') [''MAX_DELIVERIES'', ''MSG_TERMINATED'']"

definition entity_durable :: "string \<Rightarrow> string \<Rightarrow> string" where
  "entity_durable package entity =
     ''entity_'' @ show_nat (length package) @ ''_'' @ subject_token package @ ''_'' @ subject_token entity"

section \<open>Lemmas on documents\<close>

lemma keep_last_append: "fst ` set m \<inter> fst ` set acc = {} \<Longrightarrow> distinct (map fst m) \<Longrightarrow>
    fold (\<lambda>(k, v). members_insert k v) m acc = acc @ m"
proof (induction m arbitrary: acc)
  case (Cons kv m)
  have "members_insert k v acc = acc @ [(k, v)]" if "k \<notin> fst ` set acc" for k v
    using that by (induction acc) auto
  with Cons show ?case by (cases kv) auto
qed simp

lemma keep_last_id [simp]: "distinct (map fst m) \<Longrightarrow> keep_last m = m"
  unfolding keep_last_def using keep_last_append [of m "[]"] by simp

lemma fold_insert_distinct: "distinct (map fst acc) \<Longrightarrow> distinct (map fst (fold (\<lambda>(k, v). members_insert k v) m acc))"
  by (induction m arbitrary: acc) (auto intro: distinct_members_insert)

lemma distinct_keep_last [simp]: "distinct (map fst (keep_last m))"
  unfolding keep_last_def by (rule fold_insert_distinct) simp

lemma set_members_insert: "set (members_insert k v m) \<subseteq> insert (k, v) (set m)"
  by (induction k v m rule: members_insert.induct) auto

lemma set_keep_last: "kv \<in> set (keep_last m) \<Longrightarrow> kv \<in> set m"
proof -
  have "set (fold (\<lambda>(k, v). members_insert k v) m acc) \<subseteq> set m \<union> set acc" for acc
  proof (induction m arbitrary: acc)
    case (Cons a m)
    then show ?case using set_members_insert by (cases a) fastforce
  qed simp
  from this [of "[]"] show "kv \<in> set (keep_last m) \<Longrightarrow> kv \<in> set m" by (auto simp: keep_last_def)
qed

lemma json_wf_collapse [simp]: "json_wf (collapse v)"
proof (induction v)
  case (JObject m)
  have "json_wf (snd kv)" if "kv \<in> set (keep_last (map (map_prod (\<lambda>k. k) collapse) m))" for kv
    using set_keep_last [OF that] JObject.IH by fastforce
  then show ?case by (simp add: list_all_iff)
qed (auto simp: list_all_iff)

lemma collapse_id: "json_wf v \<Longrightarrow> collapse v = v"
proof (induction v)
  case (JObject m)
  have "map (map_prod (\<lambda>k. k) collapse) m = m"
    using JObject by (intro map_idI) (fastforce simp: list_all_iff)
  then show ?case using JObject.prems by simp
qed (auto simp: list_all_iff map_idI)

lemma and_then_Inr: "and_then r f = Inr y \<longleftrightarrow> (\<exists>x. r = Inr x \<and> f x = Inr y)"
  by (cases r) (simp_all add: and_then_def)

lemma and_then_simps [simp]: "and_then (Inl e) f = Inl e" "and_then (Inr x) f = f x"
  by (simp_all add: and_then_def)

lemma take_field_Inr: "take_field rd m k = Inr x \<longleftrightarrow> (\<exists>v. map_of m k = Some v \<and> rd v = Some x)"
  by (auto simp: take_field_def split: option.splits)

section \<open>Round trips\<close>

lemma op_round_trip [simp]: "op_of_str (op_as_str op) = Some op"
  by (cases op) (simp_all add: op_of_str_def)

lemma read_u32_ucast [simp]: "read_u32 (JNumber (PosInt (ucast n))) = Some n"
proof -
  have "unat (ucast n :: u64) = unat n"
    using unsigned_less [of n, where ?'a = nat] by (simp add: unsigned_ucast_eq take_bit_nat_eq_self)
  moreover have "(ucast (ucast n :: u64) :: 32 word) = n"
    by (rule bit_word_eqI) (simp add: bit_ucast_iff)
  ultimately show ?thesis using unsigned_less [of n, where ?'a = nat] by simp
qed

lemma causation_round_trip [simp]: "read_causation (causation_to_json c) = Some c"
  by (simp add: causation_to_json_def causation_of_def del: read_u32.simps)

lemma causation_to_json_wf [simp]: "json_wf (causation_to_json c)"
  by (simp add: causation_to_json_def)

lemma map_of_collapsed: "map_of (map (map_prod (\<lambda>k. k) collapse) m) k = Some v \<Longrightarrow> json_wf v"
  by (auto dest!: map_of_SomeD)

lemma derived_of_members_Inr:
  assumes "derived_of_members (map (map_prod (\<lambda>k. k) collapse) m) = Inr e"
  shows "json_wf (de_payload e)"
  using assms unfolding derived_of_members_def
  by (auto simp: and_then_Inr take_field_Inr dest: map_of_collapsed split: option.splits)

lemma derived_to_json_wf: "json_wf (de_payload e) \<Longrightarrow> json_wf (derived_to_json e)"
  by (simp add: derived_to_json_def)

lemma derived_of_tree_to_json:
  assumes "json_wf (de_payload e)"
  shows "derived_of_tree (derived_to_json e) = Inr e"
  using assms
  by (simp add: derived_to_json_def derived_of_members_def take_field_def derived_fields_def collapse_id del: collapse.simps)

lemma derived_round_trip:
  assumes "derived_from_slice t = Inr e"
  shows "derived_from_slice (derived_to_json e) = Inr e" "json_wf (derived_to_json e)"
proof -
  from assms have d: "derived_of_tree t = Inr e" by (auto simp: derived_from_slice_def and_then_Inr split: if_splits option.splits)
  then obtain m where "derived_of_members (map (map_prod (\<lambda>k. k) collapse) m) = Inr e"
    by (cases t) (auto split: option.splits)
  then have wf: "json_wf (de_payload e)" by (rule derived_of_members_Inr)
  then show "json_wf (derived_to_json e)" by (rule derived_to_json_wf)
  from assms derived_of_tree_to_json [OF wf] d show "derived_from_slice (derived_to_json e) = Inr e"
    by (simp add: derived_from_slice_def)
qed

lemma take_optional_Inr:
  "take_optional rd m k = Inr x \<Longrightarrow> x = Some y \<Longrightarrow> \<exists>v. map_of m k = Some v \<and> rd v = Some y"
  by (auto simp: take_optional_def split: option.splits json.splits)

lemma as_object_Some [simp]: "as_object v = Some m \<longleftrightarrow> v = JObject m"
  by (cases v) auto

definition image_wf :: "(string \<times> json) list option \<Rightarrow> bool" where
  "image_wf m \<longleftrightarrow> (case m of None \<Rightarrow> True | Some m \<Rightarrow> json_wf (JObject m))"

lemma take_image_wf: "\<forall>kv \<in> set m. json_wf (snd kv) \<Longrightarrow> take_optional as_object m k = Inr x \<Longrightarrow> image_wf x"
  by (cases x) (auto simp: image_wf_def dest!: take_optional_Inr map_of_SomeD)

lemma envelope_of_members_Inr:
  assumes "envelope_of_members ts_of m = Inr e" and "\<forall>kv \<in> set m. json_wf (snd kv)"
  shows "image_wf (ev_old e)" "image_wf (ev_new e)" "canonical_field (ev_package_id e)" "canonical_field (ev_entity e)"
  using assms(1) take_image_wf [OF assms(2)] unfolding envelope_of_members_def
  by (auto simp: and_then_Inr split: option.splits if_splits)

lemma envelope_to_json_wf: "image_wf (ev_old e) \<Longrightarrow> image_wf (ev_new e) \<Longrightarrow> json_wf (envelope_to_json ts_text e)"
  by (cases "ev_old e"; cases "ev_new e"; cases "ev_causation e")
    (simp_all add: envelope_to_json_def optional_member_def image_wf_def)

lemma take_optional_causation:
  "map_of m k = Some (causation_to_json c) \<Longrightarrow> take_optional read_causation m k = Inr (Some c)"
  using causation_round_trip [of c] by (simp add: take_optional_def causation_to_json_def)

lemma envelope_of_to_json:
  assumes "canonical_field (ev_package_id e)" and "canonical_field (ev_entity e)" and "ts_of (ts_text (ev_commit_ts e)) = Some (ev_commit_ts e)"
  shows "envelope_of_value ts_of (envelope_to_json ts_text e) = Inr e"
  using assms
  by (cases "ev_old e"; cases "ev_new e"; cases "ev_causation e")
    (simp_all add: envelope_to_json_def optional_member_def envelope_of_members_def envelope_fields_def take_field_def
      take_optional_def [of as_object] take_optional_causation del: read_u32.simps, simp_all add: take_optional_def)

lemma envelope_round_trip:
  assumes "envelope_of_value ts_of v = Inr e" and "json_wf v" and "ts_of (ts_text (ev_commit_ts e)) = Some (ev_commit_ts e)"
  shows "envelope_of_value ts_of (envelope_to_json ts_text e) = Inr e" "json_wf (envelope_to_json ts_text e)"
proof -
  obtain m where m: "envelope_of_members ts_of m = Inr e" "\<forall>kv \<in> set m. json_wf (snd kv)"
    using assms(1,2) by (cases v) (fastforce simp: list_all_iff split: if_splits dest: set_zip_rightD)+
  note wf = envelope_of_members_Inr [OF m]
  show "json_wf (envelope_to_json ts_text e)" by (rule envelope_to_json_wf [OF wf(1,2)])
  show "envelope_of_value ts_of (envelope_to_json ts_text e) = Inr e" 
    using wf(3,4) assms(3) by (rule envelope_of_to_json)
qed

lemma map_sum_Inr: "map_sum id f r = Inr y \<longleftrightarrow> (\<exists>x. r = Inr x \<and> y = f x)"
  by (cases r) auto

lemma envelope_not_derived: "json_get (envelope_to_json ts_text e) ''format-version'' = None"
  by (cases "ev_old e"; cases "ev_new e"; cases "ev_causation e") (simp_all add: envelope_to_json_def optional_member_def)

text \<open>
  C21. Events survive the wire. Whatever document is read as a row event or as a derived event, the document
  written for that event is read back as the same event, of the same kind, with its payload, its images and its
  causation. A document that repeats a member, or reads its fields from an array, is covered: the event it
  denotes has one written form. A written time stamp is assumed to read back.
\<close>

theorem source_event_round_trip:
  assumes "source_decode ts_of t = Inr s" and "\<And>n. ts_of (ts_text n) = Some n"
  shows "source_decode ts_of (source_to_json ts_text s) = Inr s \<and> json_wf (source_to_json ts_text s)"
proof (cases s)
  case (Cdc e)
  with assms(1) have "envelope_of_value ts_of (collapse t) = Inr e"
    by (cases "envelope_of_value ts_of (collapse t)") (auto simp: source_decode_def map_sum_Inr split: if_splits)
  from envelope_round_trip [OF this json_wf_collapse, of ts_text] assms(2) Cdc show ?thesis
    by (simp add: source_to_json_def source_decode_def collapse_id envelope_not_derived)
next
  case (Derived e)
  with assms(1) have "derived_from_slice t = Inr e"
    by (cases "derived_from_slice t") (auto simp: source_decode_def map_sum_Inr split: if_splits)
  from derived_round_trip [OF this] Derived show ?thesis
    by (simp add: source_to_json_def source_decode_def collapse_id) (simp add: derived_to_json_def)
qed

text \<open>A row event with its text kept apart from its time stamp, read and written again.\<close>

definition tally_text :: "int \<Rightarrow> string" where
  "tally_text n = (if n < 0 then CHR ''-'' else CHR ''+'') # replicate (nat \<bar>n\<bar>) (CHR ''x'')"

definition tally_of :: "string \<Rightarrow> int option" where
  "tally_of s = (case s of [] \<Rightarrow> None | c # r \<Rightarrow> Some (if c = CHR ''-'' then - int (length r) else int (length r)))"

definition sample_envelope :: envelope where
  "sample_envelope = \<lparr>ev_op = OpUpdate, ev_old = None, ev_new = Some [(''status'', JString ''open'')], ev_package_id = ''orders'',
     ev_entity = ''order'', ev_table = ''orders'', ev_lsn = 42, ev_txid = 7, ev_commit_ts = 3,
     ev_causation = Some \<lparr>ca_run = ''r'', ca_root = ''r'', ca_depth = 1\<rparr>\<rparr>"

lemma tally_round_trip: "tally_of (tally_text n) = Some n"
  by (simp add: tally_of_def tally_text_def)

lemma sample_decodes: "source_decode tally_of (envelope_to_json tally_text sample_envelope) = Inr (Cdc sample_envelope)"
proof -
  have "envelope_of_value tally_of (envelope_to_json tally_text sample_envelope) = Inr sample_envelope"
    by (rule envelope_of_to_json) (simp_all add: sample_envelope_def canonical_field_def trims_to_itself_def tally_round_trip)
  moreover have "json_wf (envelope_to_json tally_text sample_envelope)"
    by (rule envelope_to_json_wf) (simp_all add: sample_envelope_def image_wf_def)
  ultimately show ?thesis by (simp add: source_decode_def collapse_id envelope_not_derived)
qed

theorem source_event_round_trip_witness:
  "source_decode tally_of (source_to_json tally_text (Cdc sample_envelope)) = Inr (Cdc sample_envelope)"
  by (rule conjunct1 [OF source_event_round_trip [OF sample_decodes tally_round_trip]])

section \<open>Names\<close>

lemma split_separator: "(c :: char) \<notin> set x \<Longrightarrow> c \<notin> set y \<Longrightarrow> x @ c # a = y @ c # b \<Longrightarrow> x = y \<and> a = b"
proof (induction x arbitrary: y)
  case Nil
  then show ?case by (cases y) auto
next
  case (Cons d x)
  then show ?case by (cases y) auto
qed

lemma show_nat_no_underscore: "CHR ''_'' \<notin> set (show_nat n)"
proof -
  have "\<not> is_digit (CHR ''_'')" by (simp add: is_digit_def)
  then show ?thesis using show_nat_digits by blast
qed

lemma counted_field:
  assumes "show_nat (length x) @ CHR ''_'' # x @ a = show_nat (length y) @ CHR ''_'' # y @ b"
  shows "x = y \<and> a = b"
proof -
  from split_separator [OF show_nat_no_underscore show_nat_no_underscore assms]
  have "show_nat (length x) = show_nat (length y)" "x @ a = y @ b" by simp_all
  then show ?thesis by (simp add: show_nat_inj append_eq_append_conv)
qed

text \<open>
  C23. Distinct coordinates have distinct names. Two environments have one source stream only when their
  organization, project and environment agree, underscores in them or not; and two captured entities whose
  names are safe tokens have one durable consumer only when package and entity agree.
\<close>

theorem names_apart:
  "(stream_name org project env = stream_name org' project' env' \<longleftrightarrow> org = org' \<and> project = project' \<and> env = env')
   \<and> (list_all (\<lambda>name. sanitize name = name) [package, entity, package', entity'] \<longrightarrow>
       (entity_durable package entity = entity_durable package' entity' \<longleftrightarrow> package = package' \<and> entity = entity'))"
proof (intro conjI impI)
  show "stream_name org project env = stream_name org' project' env' \<longleftrightarrow> org = org' \<and> project = project' \<and> env = env'"
  proof
    assume "stream_name org project env = stream_name org' project' env'"
    then have "show_nat (length org) @ CHR ''_'' # org @ CHR ''_'' # show_nat (length project) @ CHR ''_'' # project @ CHR ''_''
          # show_nat (length env) @ CHR ''_'' # env @ []
        = show_nat (length org') @ CHR ''_'' # org' @ CHR ''_'' # show_nat (length project') @ CHR ''_'' # project' @ CHR ''_''
          # show_nat (length env') @ CHR ''_'' # env' @ []"
      by (simp only: stream_name_def append_Cons append_Nil append_Nil2 list.inject)
    note org = counted_field [OF this]
    then have "show_nat (length project) @ CHR ''_'' # project @ CHR ''_'' # show_nat (length env) @ CHR ''_'' # env @ []
        = show_nat (length project') @ CHR ''_'' # project' @ CHR ''_'' # show_nat (length env') @ CHR ''_'' # env' @ []"
      by (simp only: list.inject)
    note project = counted_field [OF this]
    then have "show_nat (length env) @ CHR ''_'' # env @ [] = show_nat (length env') @ CHR ''_'' # env' @ []"
      by (simp only: list.inject)
    from counted_field [OF this] org project show "org = org' \<and> project = project' \<and> env = env'" by blast
  qed simp
  show "entity_durable package entity = entity_durable package' entity' \<longleftrightarrow> package = package' \<and> entity = entity'"
    if clean: "list_all (\<lambda>name. sanitize name = name) [package, entity, package', entity']"
  proof -
    have "package = package' \<and> entity = entity'" if "entity_durable package entity = entity_durable package' entity'"
    proof -
      have "show_nat (length package) @ CHR ''_'' # package @ CHR ''_'' # entity
          = show_nat (length package') @ CHR ''_'' # package' @ CHR ''_'' # entity'"
        using that clean by (simp add: entity_durable_def subject_token_def)
      from counted_field [OF this] show ?thesis by simp
    qed
    then show ?thesis by blast
  qed
qed

theorem names_apart_witness:
  "stream_name ''o'' ''a_b'' ''c'' \<noteq> stream_name ''o'' ''a'' ''b_c''
   \<and> entity_durable ''orders'' ''order_line'' \<noteq> entity_durable ''orders_order'' ''line''"
proof -
  have "list_all (\<lambda>name. sanitize name = name) [''orders'', ''order_line'', ''orders_order'', ''line'']"
    by (simp add: blank_width_def)
  with names_apart [of "''o''" "''a_b''" "''c''" "''o''" "''a''" "''b_c''" "''orders''" "''order_line''" "''orders_order''" "''line''"]
  show ?thesis by simp
qed

section \<open>Tokens\<close>

lemma blank_width_underscore [simp]: "blank_width (CHR ''_'' # s) = 0"
  by (simp add: blank_width_def split: list.splits)

lemma sanitize_head: "sanitize s = b # t \<Longrightarrow> b \<noteq> CHR ''_'' \<Longrightarrow> \<exists>s'. s = b # s' \<and> t = sanitize s'"
  by (cases s) (auto split: if_splits)

text \<open>A blank needs its bytes side by side, and what is written for another blank is no byte of one.\<close>

lemma blank_width_sanitized: "blank_width (c # s) = 0 \<Longrightarrow> blank_width (c # sanitize s) = 0"
proof (rule ccontr)
  assume none: "blank_width (c # s) = 0" and some: "blank_width (c # sanitize s) \<noteq> 0"
  from none have one: "\<not> ((of_char c :: nat) \<in> {46, 42, 62, 127} \<or> (of_char c :: nat) \<le> 32)"
    by (auto simp: blank_width_def split: if_splits)
  with some obtain b t where b: "sanitize s = b # t" and c: "128 \<le> (of_char b :: nat)"
    by (cases "sanitize s") (auto simp: blank_width_def split: if_splits list.splits)
  from c have "b \<noteq> CHR ''_''" by auto
  with b obtain s' where s: "s = b # s'" and t: "t = sanitize s'" by (auto dest: sanitize_head)
  show False
  proof (cases "(of_char c :: nat) = 194 \<and> 128 \<le> (of_char b :: nat) \<and> (of_char b :: nat) \<le> 160")
    case True
    with none s show False by (simp add: blank_width_def)
  next
    case False
    with some b one obtain d u where d: "t = d # u" "128 \<le> (of_char d :: nat)"
      by (cases t) (auto simp: blank_width_def split: if_splits)
    then have "d \<noteq> CHR ''_''" by auto
    with d t obtain s'' where "s' = d # s''" by (metis sanitize_head)
    with none some s b d False one show False by (auto simp: blank_width_def split: if_splits)
  qed
qed

lemma sanitize_idem [simp]: "sanitize (sanitize s) = sanitize s"
  by (induction s rule: sanitize.induct) (auto simp: blank_width_sanitized)

text \<open>Visible ASCII text after a name leaves its blanks alone.\<close>

definition visible :: "char \<Rightarrow> bool" where
  "visible c \<longleftrightarrow> 32 < (of_char c :: nat) \<and> (of_char c :: nat) < 127 \<and> (of_char c :: nat) \<notin> {46, 42, 62}"

lemma blank_width_visible: "list_all visible y \<Longrightarrow> blank_width (c # x @ y) = blank_width (c # x)"
proof (cases y)
  case (Cons d r)
  moreover assume "list_all visible y"
  ultimately have d: "(of_char d :: nat) < 127" by (simp add: visible_def)
  consider "x = []" | b where "x = [b]" | b e z where "x = b # e # z" by (metis list.exhaust)
  then show ?thesis
  proof cases
    case 1
    with Cons d show ?thesis by (cases r) (simp_all add: blank_width_def)
  next
    case 2
    with Cons d show ?thesis by (simp add: blank_width_def)
  next
    case 3
    then show ?thesis by (simp add: blank_width_def)
  qed
qed simp

lemma blank_width_length: "blank_width s \<le> length s"
proof -
  consider "s = []" | a where "s = [a]" | a b where "s = [a, b]" | a b c t where "s = a # b # c # t" by (metis list.exhaust)
  then show ?thesis by cases (simp_all add: blank_width_def)
qed

lemma sanitize_visible: "list_all visible y \<Longrightarrow> sanitize y = y"
proof (induction y)
  case (Cons c y)
  then have "blank_width [c] = 0" by (simp add: blank_width_def visible_def)
  with Cons.prems have "blank_width (c # y) = 0" using blank_width_visible [of y c "[]"] by simp
  with Cons show ?case by simp
qed simp

lemma sanitize_append_visible: "list_all visible y \<Longrightarrow> sanitize (x @ y) = sanitize x @ y"
proof (induction x rule: sanitize.induct)
  case (2 c s)
  then show ?case using blank_width_length [of "c # s"]
    by (simp add: blank_width_visible del: drop_append) (simp add: append_Cons [symmetric] del: append_Cons)
qed (simp add: sanitize_visible)

lemma hex_digit_visible: "d < 16 \<Longrightarrow> visible (hex_digit d)"
  by (simp add: hex_digit_def visible_def)

lemma hex_fixed_visible: "list_all visible (hex_fixed k n)"
  by (induction k arbitrary: n) (simp_all add: hex_digit_visible)

lemma suffixed_clean: "sanitize (sanitize raw @ CHR ''_'' # raw_hash raw) = sanitize raw @ CHR ''_'' # raw_hash raw"
proof -
  have "list_all visible (CHR ''_'' # raw_hash raw)"
    unfolding raw_hash_def by (simp add: hex_fixed_visible) (simp add: visible_def)
  from sanitize_append_visible [OF this] show ?thesis by simp
qed


lemma raw_hash_sample: "raw_hash ''a.b'' = ''108bf50c''"
proof -
  have h: "fold fnv_step ''a.b'' 0x811c9dc5 = 0x108bf50c" by (simp add: fnv_step_def)
  have n: "unat (0x108bf50c :: 32 word) = 0x108bf50c" by simp
  have e: "(8 :: nat) = Suc (Suc (Suc (Suc (Suc (Suc (Suc (Suc 0)))))))" by simp
  show ?thesis unfolding raw_hash_def h n e
    by (simp only: hex_fixed.simps append_Nil append_Cons) (simp add: hex_digit_def char_of_eq_iff)
qed


section \<open>Message ids\<close>

lemma length_be_bytes [simp]: "length (be_bytes k n) = k"
  by (induction k arbitrary: n) simp_all

lemma be_bytes_inj: "n < 256 ^ k \<Longrightarrow> m < 256 ^ k \<Longrightarrow> be_bytes k n = be_bytes k m \<Longrightarrow> n = m"
proof (induction k arbitrary: n m)
  case (Suc k)
  from Suc.prems(3) have high: "be_bytes k (n div 256) = be_bytes k (m div 256)"
    and low: "char_of (n mod 256) = (char_of (m mod 256) :: char)" by simp_all
  from Suc.prems(1,2) have "n div 256 < 256 ^ k" "m div 256 < 256 ^ k"
    by (simp_all add: less_mult_imp_div_less mult.commute)
  then have "n div 256 = m div 256" using high by (rule Suc.IH)
  moreover from arg_cong [OF low, of "of_char :: char \<Rightarrow> nat"] have "n mod 256 = m mod 256" by simp
  ultimately show ?case by (metis div_mult_mod_eq)
qed simp

lemma framed_inj:
  "length fs = length gs \<Longrightarrow> \<forall>s \<in> set fs \<union> set gs. length s < 256 ^ 8 \<Longrightarrow>
   concat (map frame_field fs) = concat (map frame_field gs) \<Longrightarrow> fs = gs"
proof (induction fs gs rule: list_induct2)
  case (Cons f fs g gs)
  from Cons.prems(2) have head: "be_bytes 8 (length f) = be_bytes 8 (length g)"
    and rest: "f @ concat (map frame_field fs) = g @ concat (map frame_field gs)"
    by (simp_all add: frame_field_def [of f] frame_field_def [of g])
  from Cons.prems(1) head have "length f = length g" by (intro be_bytes_inj) auto
  with rest have "f = g" "concat (map frame_field fs) = concat (map frame_field gs)"
    by (simp_all add: append_eq_append_conv)
  with Cons.IH Cons.prems(1) show ?case by simp
qed simp

lemma hex_digit_inj: "d < 16 \<Longrightarrow> e < 16 \<Longrightarrow> hex_digit d = hex_digit e \<Longrightarrow> d = e"
  using arg_cong [of "hex_digit d" "hex_digit e" "of_char :: char \<Rightarrow> nat"]
  by (auto simp: hex_digit_def split: if_splits)

lemma high_nibble: "(of_char c :: nat) div 16 < 16"
  using of_char_mod_256 [of c, where ?'a = nat] by (simp add: less_mult_imp_div_less)

lemma hex_byte_inj: "hex_byte c = hex_byte d \<Longrightarrow> c = d"
proof -
  assume "hex_byte c = hex_byte d"
  then have "(of_char c :: nat) div 16 = of_char d div 16" "(of_char c :: nat) mod 16 = of_char d mod 16"
    using high_nibble by (auto simp: hex_byte_def intro: hex_digit_inj)
  then have "(of_char c :: nat) = of_char d" by (metis div_mult_mod_eq)
  then show ?thesis by simp
qed

lemma hex_bytes_inj: "concat (map hex_byte xs) = concat (map hex_byte ys) \<Longrightarrow> xs = ys"
proof (induction xs arbitrary: ys)
  case Nil
  then show ?case by (cases ys) (simp_all add: hex_byte_def)
next
  case (Cons x xs)
  from Cons.prems obtain y ys' where ys: "ys = y # ys'" by (cases ys) (simp_all add: hex_byte_def)
  with Cons.prems have "hex_byte x = hex_byte y" "concat (map hex_byte xs) = concat (map hex_byte ys')"
    by (simp_all add: hex_byte_def [of x] hex_byte_def [of y])
  with Cons.IH ys show ?case by (simp add: hex_byte_inj)
qed

lemma hex_byte_no_underscore: "CHR ''_'' \<notin> set (concat (map hex_byte xs))"
proof -
  have digit: "CHR ''_'' \<noteq> hex_digit d" if "d < 16" for d
    using that by (auto simp: hex_digit_def char_of_eq_iff take_bit_eq_mod dest!: sym [of "CHR ''_''"])
  have "CHR ''_'' \<notin> set (hex_byte c)" for c
    using digit [of "of_char c mod 16"] digit [OF high_nibble [of c]] by (simp add: hex_byte_def)
  then show ?thesis by auto
qed

lemma op_as_str_inj: "op_as_str op = op_as_str op' \<longleftrightarrow> op = op'"
  by (cases op; cases op') simp_all

lemma split_last_separator:
  assumes "(c :: char) \<notin> set a" "c \<notin> set b" "x @ c # a = y @ c # b"
  shows "x = y \<and> a = b"
  using split_separator [of c "rev a" "rev b" "rev x" "rev y"] assms by (metis rev_append rev.simps(2) append_assoc append_Cons append_Nil rev_rev_ident set_rev)

text \<open>
  C22. Messages are told apart by their ids. Row events of an environment have one id only at one log position;
  across environments the joined name of project and environment decides. Derived events have one id only when
  the scope, the selector and the author's id all agree, whatever separators those hold, as long as the digest
  tells apart the two texts it is given; and a derived id is never the id of a row event, even when the author's
  id is a number. Lengths are below the 64-bit limit of the framing.
\<close>

theorem message_ids_apart:
  assumes "fs = [k, p, e, package, entity, op_as_str op, d]" and "gs = [k', p', e', package', entity', op_as_str op', d']"
    and "sha (derived_preimage fs) = sha (derived_preimage gs) \<Longrightarrow> derived_preimage fs = derived_preimage gs"
    and "\<forall>s \<in> set fs \<union> set gs. length s < 2 ^ 64"
  shows "(msg_id p e lsn = msg_id p' e' lsn' \<longleftrightarrow> project_env p e = project_env p' e' \<and> lsn = lsn')
    \<and> (derived_msg_id sha k p e package entity op d = derived_msg_id sha k' p' e' package' entity' op' d'
         \<longleftrightarrow> (k, p, e, package, entity, op, d) = (k', p', e', package', entity', op', d'))
    \<and> derived_msg_id sha k p e package entity op d \<noteq> msg_id p' e' lsn'"
proof (intro conjI)
  have "\<not> is_digit (CHR '':'')" by (simp add: is_digit_def)
  then have colon: "CHR '':'' \<notin> set (show_nat n)" for n using show_nat_digits by blast
  show "msg_id p e lsn = msg_id p' e' lsn' \<longleftrightarrow> project_env p e = project_env p' e' \<and> lsn = lsn'"
    using split_last_separator [OF colon colon, of "project_env p e" "unat lsn" "project_env p' e'" "unat lsn'"]
    by (auto simp: msg_id_def show_nat_inj word_unat_eq_iff)
  show "derived_msg_id sha k p e package entity op d = derived_msg_id sha k' p' e' package' entity' op' d'
         \<longleftrightarrow> (k, p, e, package, entity, op, d) = (k', p', e', package', entity', op', d')" (is "?ids \<longleftrightarrow> ?same")
  proof
    assume ?ids
    then have "sha (derived_preimage fs) = sha (derived_preimage gs)"
      using hex_bytes_inj by (simp add: derived_msg_id_def assms(1,2))
    from assms(3) [OF this] have "fs = gs"
      using assms(1,2,4) by (intro framed_inj) (simp_all add: derived_preimage_def)
    then show ?same using assms(1,2) by (simp add: op_as_str_inj)
  qed simp
  have "CHR ''_'' \<in> set (msg_id p' e' lsn')" by (simp add: msg_id_def project_env_def)
  moreover have "CHR ''_'' \<notin> set (derived_msg_id sha k p e package entity op d)"
    using hex_byte_no_underscore by (simp add: derived_msg_id_def)
  ultimately show "derived_msg_id sha k p e package entity op d \<noteq> msg_id p' e' lsn'" by metis
qed

theorem message_ids_apart_witness:
  "msg_id ''a_b'' ''c'' 7 = msg_id ''a'' ''b_c'' 7
   \<and> derived_msg_id (\<lambda>x. x) ''k'' ''a_b'' ''c'' ''orders'' ''order'' OpInsert ''7''
       \<noteq> derived_msg_id (\<lambda>x. x) ''k'' ''a'' ''b_c'' ''orders'' ''order'' OpInsert ''7''
   \<and> derived_msg_id (\<lambda>x. x) ''k'' ''a_b'' ''c'' ''orders'' ''order'' OpInsert ''7'' \<noteq> msg_id ''a'' ''b_c'' 7"
proof -
  have "project_env ''a_b'' ''c'' = project_env ''a'' ''b_c''" by (simp add: project_env_def)
  with message_ids_apart [of "[''k'', ''a_b'', ''c'', ''orders'', ''order'', op_as_str OpInsert, ''7'']" "''k''" "''a_b''" "''c''"
      "''orders''" "''order''" OpInsert "''7''" "[''k'', ''a'', ''b_c'', ''orders'', ''order'', op_as_str OpInsert, ''7'']"
      "''k''" "''a''" "''b_c''" "''orders''" "''order''" OpInsert "''7''" "\<lambda>x. x" 7 7]
  show ?thesis by simp
qed

end
