(* ===== verification/Event_Match.thy ===== *)
theory Event_Match
  imports Event_Wire Number_Pattern
begin

text \<open>
  Which workflows an event reaches (\<^verbatim>\<open>apps/platform/events/registration\<close> and
  \<^verbatim>\<open>apps/platform/events/materializer\<close>): the registration and its checks, the context a condition reads, the
  input a run gets, the verdict on one row event or derived event, the verified id of a message, and the match of
  one enabled trigger. JMESPath is a parameter: a compiler, whether an expression reads the root \<open>old\<close>, and a
  search that answers whether its value is truthy.
\<close>

section \<open>Registrations\<close>

datatype registration_input = InputEvent | InputBatch

record event_registration =
  er_schema_version :: string
  er_registration_id :: string
  er_package_id :: string
  er_source_package_id :: string
  er_entity :: string
  er_ops :: "row_op list"
  er_input :: registration_input
  er_condition :: "string option"

definition SCHEMA_VERSION :: string where "SCHEMA_VERSION = ''0.1''"

definition qualified_id :: "event_registration \<Rightarrow> string" where
  "qualified_id r = er_package_id r @ ''::'' @ er_registration_id r"

record 'x jmespath =
  jm_compile :: "string \<Rightarrow> (string, 'x) result"
  jm_references_old :: "'x \<Rightarrow> bool"
  jm_search :: "'x \<Rightarrow> json \<Rightarrow> (string, bool) result"

definition condition_references_old :: "'x jmespath \<Rightarrow> string \<Rightarrow> bool" where
  "condition_references_old jm s = (case jm_compile jm s of Inl _ \<Rightarrow> False | Inr x \<Rightarrow> jm_references_old jm x)"

definition condition_references_old_image :: "'x jmespath \<Rightarrow> event_registration \<Rightarrow> bool" where
  "condition_references_old_image jm r =
     (case er_condition r of None \<Rightarrow> False | Some s \<Rightarrow> condition_references_old jm s)"

definition subscribes_to_delete :: "event_registration \<Rightarrow> bool" where
  "subscribes_to_delete r \<longleftrightarrow> OpDelete \<in> set (er_ops r)"

definition requires_replica_identity_full :: "'x jmespath \<Rightarrow> event_registration \<Rightarrow> bool" where
  "requires_replica_identity_full jm r \<longleftrightarrow> condition_references_old_image jm r \<or> subscribes_to_delete r"

section \<open>Conditions\<close>

record 'x compiled_condition =
  cd_expr :: 'x
  cd_references_old :: bool

definition compile_condition :: "'x jmespath \<Rightarrow> string \<Rightarrow> (string, 'x compiled_condition) result" where
  "compile_condition jm s =
     (case jm_compile jm s of
        Inl e \<Rightarrow> Inl e
      | Inr x \<Rightarrow> Inr \<lparr>cd_expr = x, cd_references_old = jm_references_old jm x\<rparr>)"

definition serviceable :: "'x jmespath \<Rightarrow> event_registration \<Rightarrow> (string, 'x compiled_condition option) result" where
  "serviceable jm r =
     (case er_condition r of
        None \<Rightarrow> Inr None
      | Some s \<Rightarrow> (case compile_condition jm s of Inl e \<Rightarrow> Inl e | Inr c \<Rightarrow> Inr (Some c)))"

definition condition_matches :: "'x jmespath \<Rightarrow> 'x compiled_condition \<Rightarrow> json \<Rightarrow> (string, bool) result" where
  "condition_matches jm c context = jm_search jm (cd_expr c) context"

section \<open>Contexts and inputs\<close>

datatype tenant_read = TenantAbsent | Tenant string | Unscopable

definition image_value :: "(string \<times> json) list option \<Rightarrow> json" where
  "image_value m = (case m of None \<Rightarrow> JNull | Some x \<Rightarrow> JObject x)"

definition event_context :: "envelope \<Rightarrow> json" where
  "event_context e = JObject [(''new'', image_value (ev_new e)), (''old'', image_value (ev_old e)),
     (''op'', JString (op_as_str (ev_op e)))]"

definition derived_event_context :: "derived_event \<Rightarrow> json" where
  "derived_event_context e = JObject [(''new'', de_payload e), (''old'', JNull), (''op'', JString (op_as_str (de_op e)))]"

definition row_image :: "envelope \<Rightarrow> (string \<times> json) list option" where
  "row_image e = (case ev_op e of OpDelete \<Rightarrow> ev_old e | _ \<Rightarrow> ev_new e)"

definition row_tenant :: "envelope \<Rightarrow> tenant_read" where
  "row_tenant e =
     (case row_image e of
        None \<Rightarrow> Unscopable
      | Some m \<Rightarrow>
          (case map_of m ''tenant_id'' of
             None \<Rightarrow> TenantAbsent
           | Some (JString t) \<Rightarrow> Tenant t
           | Some _ \<Rightarrow> Unscopable))"

definition event_input :: "envelope \<Rightarrow> json" where
  "event_input e = JObject ([(''event'', JString (op_as_str (ev_op e)))]
     @ optional_member ''new'' (map_option JObject (ev_new e)) @ optional_member ''old'' (map_option JObject (ev_old e)))"

definition derived_event_input :: "derived_event \<Rightarrow> json" where
  "derived_event_input e = de_payload e"

section \<open>Verdicts\<close>

datatype skip_reason = SourcePackageMismatch | EntityMismatch | OpMismatch | ForeignTenant | ConditionFalse

datatype refuse_reason =
    SourcePackageIdentityUnknown string
  | DepthExceeded causation
  | TenantUnscopable
  | OldImageAbsent
  | ConditionError string

datatype event_verdict = Deliver json | Skip skip_reason | Refuse refuse_reason

definition MAX_CAUSATION_DEPTH :: "32 word" where "MAX_CAUSATION_DEPTH = 16"

definition saturating_succ :: "32 word \<Rightarrow> 32 word" where
  "saturating_succ d = (if d = - 1 then d else d + 1)"

text \<open>The condition of a registration, on an event that has an old image or not.\<close>

definition condition_verdict ::
    "'x jmespath \<Rightarrow> event_registration \<Rightarrow> 'x compiled_condition option \<Rightarrow> bool \<Rightarrow> json \<Rightarrow> event_verdict \<Rightarrow> event_verdict" where
  "condition_verdict jm r condition has_old context next =
     (if er_condition r = None then next
      else
        (case condition of
           None \<Rightarrow> Refuse (ConditionError ''condition present but not compiled'')
         | Some c \<Rightarrow>
             if cd_references_old c \<and> \<not> has_old then Refuse OldImageAbsent
             else
               (case condition_matches jm c context of
                  Inr True \<Rightarrow> next
                | Inr False \<Rightarrow> Skip ConditionFalse
                | Inl e \<Rightarrow> Refuse (ConditionError e))))"

definition tenant_verdict :: "envelope \<Rightarrow> string \<Rightarrow> event_verdict \<Rightarrow> event_verdict" where
  "tenant_verdict e env_key next =
     (case row_tenant e of
        Tenant t \<Rightarrow> if t \<noteq> env_key then Skip ForeignTenant else next
      | TenantAbsent \<Rightarrow> next
      | Unscopable \<Rightarrow> Refuse TenantUnscopable)"

definition decide_event ::
    "'x jmespath \<Rightarrow> event_registration \<Rightarrow> 'x compiled_condition option \<Rightarrow> envelope \<Rightarrow> string list \<Rightarrow> string
       \<Rightarrow> string option \<Rightarrow> 32 word \<Rightarrow> event_verdict" where
  "decide_event jm r condition e known env_key resident max_depth =
     (if ev_package_id e \<notin> set known then Refuse (SourcePackageIdentityUnknown (ev_package_id e))
      else if ev_package_id e \<noteq> er_source_package_id r then Skip SourcePackageMismatch
      else if ev_entity e \<noteq> er_entity r then Skip EntityMismatch
      else if ev_op e \<notin> set (er_ops r) then Skip OpMismatch
      else if resident \<noteq> Some env_key then Refuse TenantUnscopable
      else tenant_verdict e env_key (condition_verdict jm r condition (ev_old e \<noteq> None) (event_context e)
        (case ev_causation e of
           Some parent \<Rightarrow>
             if max_depth < saturating_succ (ca_depth parent) then Refuse (DepthExceeded parent) else Deliver (event_input e)
         | None \<Rightarrow> Deliver (event_input e))))"

definition decide_derived ::
    "'x jmespath \<Rightarrow> event_registration \<Rightarrow> 'x compiled_condition option \<Rightarrow> derived_event \<Rightarrow> string list \<Rightarrow> string
       \<Rightarrow> 32 word \<Rightarrow> event_verdict" where
  "decide_derived jm r condition e known env_key max_depth =
     (if de_package_id e \<notin> set known then Refuse (SourcePackageIdentityUnknown (de_package_id e))
      else if de_package_id e \<noteq> er_source_package_id r then Skip SourcePackageMismatch
      else if de_entity e \<noteq> er_entity r then Skip EntityMismatch
      else if de_op e \<notin> set (er_ops r) then Skip OpMismatch
      else if de_env_key e \<noteq> env_key then Skip ForeignTenant
      else condition_verdict jm r condition False (derived_event_context e)
        (if max_depth < saturating_succ (ca_depth (de_causation e)) then Refuse (DepthExceeded (de_causation e))
         else Deliver (derived_event_input e)))"

section \<open>Verified ids\<close>

definition only_id :: "string \<Rightarrow> string list \<Rightarrow> string option" where
  "only_id expected ids = (if ids = [expected] then Some expected else None)"

definition verified_source_event_id :: "string \<Rightarrow> string \<Rightarrow> envelope \<Rightarrow> string list \<Rightarrow> string option" where
  "verified_source_event_id project environment e ids = only_id (msg_id project environment (ev_lsn e)) ids"

definition verified_derived_source_event_id ::
    "(string \<Rightarrow> string) \<Rightarrow> string \<Rightarrow> string \<Rightarrow> string \<Rightarrow> derived_event \<Rightarrow> string list \<Rightarrow> string option" where
  "verified_derived_source_event_id sha env_key project environment e ids =
     (if de_env_key e \<noteq> env_key \<or> de_project e \<noteq> project \<or> de_environment e \<noteq> environment then None
      else only_id (derived_msg_id sha env_key project environment (de_package_id e) (de_entity e) (de_op e) (de_dedup_id e)) ids)"

fun source_identity ::
    "(string \<Rightarrow> string) \<Rightarrow> string \<Rightarrow> string \<Rightarrow> string \<Rightarrow> string list \<Rightarrow> source_event \<Rightarrow> string option" where
  "source_identity sha env_key project environment ids (Cdc e) = verified_source_event_id project environment e ids"
| "source_identity sha env_key project environment ids (Derived e) =
     verified_derived_source_event_id sha env_key project environment e ids"

fun source_of :: "source_event \<Rightarrow> string \<times> string" where
  "source_of (Cdc e) = (ev_package_id e, ev_entity e)"
| "source_of (Derived e) = (de_package_id e, de_entity e)"

section \<open>Triggers\<close>

record event_trigger =
  et_application :: string
  et_workflow_id :: string
  et_source_package :: string
  et_entity :: string
  et_ops :: "row_op list"
  et_condition :: "string option"
  et_enable_sequence :: u64

datatype trigger_match_error = MatchCondition string string | MatchEvent string refuse_reason

definition registration_of :: "event_trigger \<Rightarrow> event_registration" where
  "registration_of t =
     \<lparr>er_schema_version = SCHEMA_VERSION, er_registration_id = et_workflow_id t, er_package_id = et_application t,
      er_source_package_id = et_source_package t, er_entity = et_entity t, er_ops = et_ops t, er_input = InputEvent,
      er_condition = et_condition t\<rparr>"

definition source_verdict ::
    "'x jmespath \<Rightarrow> event_registration \<Rightarrow> 'x compiled_condition option \<Rightarrow> source_event \<Rightarrow> string list \<Rightarrow> string \<Rightarrow> event_verdict" where
  "source_verdict jm r condition s known env_key =
     (case s of
        Cdc e \<Rightarrow> decide_event jm r condition e known env_key (Some env_key) MAX_CAUSATION_DEPTH
      | Derived e \<Rightarrow> decide_derived jm r condition e known env_key MAX_CAUSATION_DEPTH)"

definition trigger_matches ::
    "'x jmespath \<Rightarrow> event_trigger \<Rightarrow> source_event \<Rightarrow> u64 \<Rightarrow> string list \<Rightarrow> string
       \<Rightarrow> (trigger_match_error, json option) result" where
  "trigger_matches jm t s sequence known env_key =
     (if sequence \<le> et_enable_sequence t then Inr None
      else
        (case serviceable jm (registration_of t) of
           Inl e \<Rightarrow> Inl (MatchCondition (et_workflow_id t) e)
         | Inr condition \<Rightarrow>
             (case source_verdict jm (registration_of t) condition s known env_key of
                Deliver input \<Rightarrow> Inr (Some input)
              | Skip _ \<Rightarrow> Inr None
              | Refuse reason \<Rightarrow> Inl (MatchEvent (et_workflow_id t) reason))))"

section \<open>Checks of a registration\<close>

text \<open>A number is digits after an optional plus sign; one that does not fit 32 bits is refused.\<close>

definition parse_u32 :: "string \<Rightarrow> nat option" where
  "parse_u32 s =
     (let ds = (case s of c # r \<Rightarrow> if c = CHR ''+'' then r else s | [] \<Rightarrow> []) in
      if ds \<noteq> [] \<and> list_all is_digit ds \<and> digits_value ds < 2 ^ 32 then Some (digits_value ds) else None)"

definition major_minor :: "string \<Rightarrow> (nat \<times> nat) option" where
  "major_minor s =
     (case split_on (CHR ''.'') s of
        [] \<Rightarrow> None
      | a # r \<Rightarrow>
          (case (parse_u32 a, parse_u32 (case r of [] \<Rightarrow> ''0'' | b # _ \<Rightarrow> b)) of
             (Some major, Some minor) \<Rightarrow> Some (major, minor)
           | _ \<Rightarrow> None))"

definition schema_version_compatible :: "string \<Rightarrow> bool" where
  "schema_version_compatible v =
     (case (major_minor v, major_minor SCHEMA_VERSION) of
        (Some (vmaj, vmin), Some (cmaj, cmin)) \<Rightarrow> vmaj = cmaj \<and> vmin \<le> cmin
      | _ \<Rightarrow> False)"

record registration_issue =
  ri_code :: string
  ri_path :: string

definition reg_issue :: "string \<Rightarrow> string \<Rightarrow> registration_issue" where
  "reg_issue code path = \<lparr>ri_code = code, ri_path = path\<rparr>"

definition blank_text :: "string \<Rightarrow> bool" where
  "blank_text s \<longleftrightarrow> list_all (\<lambda>c. c \<in> {CHR '' '', CHR 0x09, CHR 0x0A, CHR 0x0B, CHR 0x0C, CHR 0x0D}) s"

definition check_expr :: "'x jmespath \<Rightarrow> string \<Rightarrow> string option \<Rightarrow> registration_issue list" where
  "check_expr jm path expr =
     (case expr of
        None \<Rightarrow> []
      | Some s \<Rightarrow>
          if blank_text s then [reg_issue ''empty-expression'' path]
          else (case jm_compile jm s of Inl _ \<Rightarrow> [reg_issue ''invalid-jmespath'' path] | Inr _ \<Rightarrow> []))"

definition duplicate_ops :: "row_op list \<Rightarrow> registration_issue list" where
  "duplicate_ops ops =
     concat (map (\<lambda>i. if ops ! i \<in> set (take i ops) then [reg_issue ''duplicate-op'' (''ops['' @ show_nat i @ '']'')] else [])
       [0..<length ops])"

definition validate_registration ::
    "'x jmespath \<Rightarrow> event_registration \<Rightarrow> string \<Rightarrow> string \<Rightarrow> string list \<Rightarrow> registration_issue list" where
  "validate_registration jm r package_id source_package_id model_keys =
     (if schema_version_compatible (er_schema_version r) then [] else [reg_issue ''unsupported-schema-version'' ''schema-version''])
     @ (if er_package_id r \<noteq> package_id then [reg_issue ''package-id-mismatch'' ''package-id''] else [])
     @ (if blank_text (er_package_id r) then [reg_issue ''empty-package-id'' ''package-id''] else [])
     @ (if er_source_package_id r \<noteq> source_package_id then [reg_issue ''source-package-id-mismatch'' ''source-package-id''] else [])
     @ (if blank_text (er_source_package_id r) then [reg_issue ''empty-source-package-id'' ''source-package-id''] else [])
     @ (if blank_text (er_registration_id r) then [reg_issue ''empty-registration-id'' ''registration-id''] else [])
     @ (if er_entity r \<notin> set model_keys then [reg_issue ''unknown-entity'' ''entity''] else [])
     @ (if er_ops r = [] then [reg_issue ''empty-ops'' ''ops''] else duplicate_ops (er_ops r))
     @ check_expr jm ''condition'' (er_condition r)"

section \<open>What a trigger selects\<close>

text \<open>The parts of either kind of event that a trigger looks at.\<close>

fun parent_of :: "source_event \<Rightarrow> causation option" where
  "parent_of (Cdc e) = ev_causation e"
| "parent_of (Derived e) = Some (de_causation e)"

fun source_op :: "source_event \<Rightarrow> row_op" where
  "source_op (Cdc e) = ev_op e"
| "source_op (Derived e) = de_op e"

fun input_of :: "source_event \<Rightarrow> json" where
  "input_of (Cdc e) = event_input e"
| "input_of (Derived e) = derived_event_input e"

fun context_of :: "source_event \<Rightarrow> json" where
  "context_of (Cdc e) = event_context e"
| "context_of (Derived e) = derived_event_context e"

fun has_old :: "source_event \<Rightarrow> bool" where
  "has_old (Cdc e) = (ev_old e \<noteq> None)"
| "has_old (Derived e) = False"

text \<open>A row is the environment's own when it names it, or when its image names no tenant at all.\<close>

fun own_tenant :: "string \<Rightarrow> source_event \<Rightarrow> bool" where
  "own_tenant env_key (Cdc e) = (row_tenant e = TenantAbsent \<or> row_tenant e = Tenant env_key)"
| "own_tenant env_key (Derived e) = (de_env_key e = env_key)"

definition condition_holds :: "'x jmespath \<Rightarrow> string option \<Rightarrow> source_event \<Rightarrow> bool" where
  "condition_holds jm condition s =
     (case condition of
        None \<Rightarrow> True
      | Some text \<Rightarrow>
          (case jm_compile jm text of
             Inl _ \<Rightarrow> False
           | Inr x \<Rightarrow> (jm_references_old jm x \<longrightarrow> has_old s) \<and> jm_search jm x (context_of s) = Inr True))"

definition depth_left :: "source_event \<Rightarrow> bool" where
  "depth_left s = (case parent_of s of None \<Rightarrow> True | Some p \<Rightarrow> unat (ca_depth p) + 1 \<le> 16)"

definition selects :: "'x jmespath \<Rightarrow> event_trigger \<Rightarrow> source_event \<Rightarrow> string list \<Rightarrow> string \<Rightarrow> bool" where
  "selects jm t s known env_key \<longleftrightarrow>
     source_of s = (et_source_package t, et_entity t) \<and> et_source_package t \<in> set known \<and> source_op s \<in> set (et_ops t)
     \<and> own_tenant env_key s \<and> condition_holds jm (et_condition t) s \<and> depth_left s"

lemma registration_of_sel [simp]:
  "er_source_package_id (registration_of t) = et_source_package t" "er_entity (registration_of t) = et_entity t"
  "er_ops (registration_of t) = et_ops t" "er_condition (registration_of t) = et_condition t"
  by (simp_all add: registration_of_def)

lemma saturating_succ_le: "saturating_succ d \<le> 16 \<longleftrightarrow> unat d + 1 \<le> 16"
proof (cases "d = - 1")
  case False
  then have "unat (d + 1) = unat d + 1"
    by (metis add_eq_0_iff unatSuc Suc_eq_plus1 add.commute add.inverse_inverse)
  with False show ?thesis by (simp add: saturating_succ_def word_le_nat_alt)
qed (simp add: saturating_succ_def word_le_nat_alt unsigned_minus_1_eq_mask mask_eq_exp_minus_1)

lemma serviceable_Inr:
  "serviceable jm r = Inr c \<longleftrightarrow>
     (case er_condition r of None \<Rightarrow> c = None
      | Some text \<Rightarrow> \<exists>x. jm_compile jm text = Inr x \<and> c = Some \<lparr>cd_expr = x, cd_references_old = jm_references_old jm x\<rparr>)"
  by (auto simp: serviceable_def compile_condition_def split: option.splits sum.splits)

lemma condition_verdict_Deliver:
  assumes "serviceable jm r = Inr c"
  shows "condition_verdict jm r c (has_old s) (context_of s) next = Deliver input \<longleftrightarrow>
    next = Deliver input \<and> condition_holds jm (er_condition r) s"
  using assms
  by (auto simp: serviceable_Inr condition_verdict_def condition_matches_def condition_holds_def
      split: option.splits sum.splits bool.splits)

lemma unserviceable_unselected: "serviceable jm (registration_of t) = Inl e \<Longrightarrow> \<not> selects jm t s known env_key"
  by (auto simp: selects_def condition_holds_def serviceable_def compile_condition_def split: option.splits sum.splits)

lemma verdict_selects:
  assumes "serviceable jm (registration_of t) = Inr c"
  shows "source_verdict jm (registration_of t) c s known env_key = Deliver input \<longleftrightarrow>
    selects jm t s known env_key \<and> input = input_of s"
proof (cases s)
  case (Cdc e)
  note condition = condition_verdict_Deliver [OF assms, of "Cdc e", simplified]
  from Cdc show ?thesis
    by (auto simp: source_verdict_def decide_event_def tenant_verdict_def condition selects_def depth_left_def
        MAX_CAUSATION_DEPTH_def saturating_succ_le split: if_splits tenant_read.splits option.splits simp flip: not_le)
next
  case (Derived e)
  note condition = condition_verdict_Deliver [OF assms, of "Derived e", simplified]
  from Derived show ?thesis
    by (auto simp: source_verdict_def decide_derived_def condition selects_def depth_left_def
        MAX_CAUSATION_DEPTH_def saturating_succ_le split: if_splits option.splits simp flip: not_le)
qed

lemma matches_selects:
  "trigger_matches jm t s sequence known env_key = Inr (Some input) \<Longrightarrow> selects jm t s known env_key \<and> input = input_of s"
  by (auto simp: trigger_matches_def dest: verdict_selects split: if_splits sum.splits event_verdict.splits)


end
