(* ===== verification/Event_Batch.thy ===== *)
theory Event_Batch
  imports Event_Match Run_History
begin

text \<open>
  The admission of one delivered event
  (\<^verbatim>\<open>crates/platform/runtime/src/plugins/wamn_postgres/event_batch.rs\<close>): the enabled event workflows, the match of
  each, and in one transaction a run and a queue row for every match. \<open>None\<close> is a panic. The tables are the run
  tables of \<^verbatim>\<open>Run_Tables\<close>; the enabled workflows, the environment policy and the history tables are read only and
  come as a record. The graph parser, the catalog gate and the component resolution are functions of that record,
  as is the text of a JSON value; a run id is the default of its column, drawn for each insert.
\<close>

section \<open>Readers\<close>

text \<open>The libraries an event is read with: JSON text, time stamps, the digest, JMESPath and UTF-8.\<close>

record 'x event_codec =
  cx_tree :: "string \<Rightarrow> json option"
  cx_timestamp :: "string \<Rightarrow> int option"
  cx_sha :: "string \<Rightarrow> string"
  cx_jmespath :: "'x jmespath"
  cx_utf8 :: "string \<Rightarrow> bool"

definition read_event :: "'x event_codec \<Rightarrow> string \<Rightarrow> source_event option" where
  "read_event cx body =
     (case cx_tree cx body of
        None \<Rightarrow> None
      | Some tree \<Rightarrow> (case source_decode (cx_timestamp cx) tree of Inl _ \<Rightarrow> None | Inr s \<Rightarrow> Some s))"

section \<open>What the transaction reads\<close>

record release_scope =
  rs_env_key :: string
  rs_environment :: string
  rs_applications :: "(string \<times> string list) list"

text \<open>The columns of an enabled event workflow; its table's check leaves none of them null but the condition and the role.\<close>

record workflow_row =
  wf_env_key :: string
  wf_environment :: string
  wf_application :: string
  wf_workflow_id :: string
  wf_source_package :: string
  wf_entity :: string
  wf_ops :: "string list"
  wf_condition :: "string option"
  wf_enable_sequence :: int
  wf_version :: int
  wf_graph :: string
  wf_wiring_hash :: string
  wf_execution_role :: "string option"
  wf_enabled :: bool
  wf_trigger :: string

record history_row =
  hi_transaction_id :: nat
  hi_type :: string
  hi_row_key :: json
  hi_position :: int
  hi_changed_by :: "string option"

text \<open>
  A schema with an entity map: the table of a package's entity, the history of a table when it has one, and the
  primary key of a row image as the history spells it.
\<close>

record entity_schema =
  es_models :: "((string \<times> string) \<times> string) list"
  es_history :: "string \<Rightarrow> history_row list option"
  es_row_key :: "string \<Rightarrow> json \<Rightarrow> json option"

record 'g event_world =
  ew_workflows :: "workflow_row list"
  ew_durability :: "(string \<times> string) \<Rightarrow> string option"
  ew_schemas :: "entity_schema list"
  ew_parse_graph :: "string \<Rightarrow> (string, 'g) result"
  ew_gate :: "string \<Rightarrow> string list \<Rightarrow> 'g \<Rightarrow> (string, string) result"
  ew_components :: "string \<Rightarrow> string list \<Rightarrow> 'g \<Rightarrow> (string, (string \<times> string) list) result"
  ew_manifest_digest :: string
  ew_to_text :: "json \<Rightarrow> string"
  ew_workflow_user :: string

definition enabled_events :: "workflow_row list \<Rightarrow> string \<Rightarrow> string \<Rightarrow> string list \<Rightarrow> workflow_row list" where
  "enabled_events ws env_key environment names =
     sort_key (\<lambda>w. (wf_application w, wf_workflow_id w))
       (filter (\<lambda>w. wf_env_key w = env_key \<and> wf_environment w = environment \<and> wf_application w \<in> set names
          \<and> wf_enabled w \<and> wf_trigger w = ''event'') ws)"

fun read_ops :: "string list \<Rightarrow> row_op list option" where
  "read_ops [] = Some []"
| "read_ops (s # ss) =
     (case (op_of_str s, read_ops ss) of (Some op, Some ops) \<Rightarrow> Some (op # ops) | _ \<Rightarrow> None)"

definition trigger_of_row :: "workflow_row \<Rightarrow> (claim_error, event_trigger) result" where
  "trigger_of_row w =
     (case read_ops (wf_ops w) of
        None \<Rightarrow> Inl (ContractError, ''decode event operations'')
      | Some ops \<Rightarrow>
          if wf_enable_sequence w < 0 then Inl (ContractError, ''decode enable sequence'')
          else Inr \<lparr>et_application = wf_application w, et_workflow_id = wf_workflow_id w,
            et_source_package = wf_source_package w, et_entity = wf_entity w, et_ops = ops, et_condition = wf_condition w,
            et_enable_sequence = word_of_int (wf_enable_sequence w)\<rparr>)"

section \<open>The actor of a row event\<close>

definition last_change :: "history_row list \<Rightarrow> history_row option" where
  "last_change hs =
     fold (\<lambda>h best. case best of None \<Rightarrow> Some h | Some b \<Rightarrow> if hi_position b < hi_position h then Some h else best) hs None"

text \<open>The first schema that maps the entity decides; a table without history has no actor.\<close>

fun history_actor :: "entity_schema list \<Rightarrow> envelope \<Rightarrow> (claim_error, string option) result" where
  "history_actor [] e = Inr None"
| "history_actor (s # ss) e =
     (case map_of (es_models s) (ev_package_id e, ev_entity e) of
        None \<Rightarrow> history_actor ss e
      | Some table \<Rightarrow>
          (case es_history s table of
             None \<Rightarrow> Inr None
           | Some hs \<Rightarrow>
               (case row_image e of
                  None \<Rightarrow> Inl (ContractError, ''read event row key'')
                | Some columns \<Rightarrow>
                    Inr (Option.bind (last_change (filter (\<lambda>h. hi_transaction_id h mod 2 ^ 32 = unat (ev_txid e)
                        \<and> hi_type h = op_as_str (ev_op e) \<and> es_row_key s table (JObject columns) = Some (hi_row_key h)) hs))
                      hi_changed_by))))"

section \<open>One match\<close>

record event_admission =
  ea_source_package :: string
  ea_entity :: string
  ea_envelope :: string
  ea_sequence :: u64
  ea_source_event_id :: string

definition delivery_of :: "event_admission \<Rightarrow> string" where
  "delivery_of a = ''event:'' @ show_nat (unat (ea_sequence a)) @ '':'' @ ea_source_event_id a"

definition event_key :: "(json \<Rightarrow> string) \<Rightarrow> string \<Rightarrow> event_trigger \<Rightarrow> string \<Rightarrow> string" where
  "event_key to_text environment t delivery =
     to_text (JArray (map JString [''event'', environment, et_application t, et_workflow_id t, delivery]))"

fun collect_matches ::
    "'x jmespath \<Rightarrow> source_event \<Rightarrow> u64 \<Rightarrow> string list \<Rightarrow> string \<Rightarrow> workflow_row list
       \<Rightarrow> (claim_error, (workflow_row \<times> event_trigger \<times> json) list) result" where
  "collect_matches jm s sequence known env_key [] = Inr []"
| "collect_matches jm s sequence known env_key (w # ws) =
     and_then (trigger_of_row w) (\<lambda>t.
       case trigger_matches jm t s sequence known env_key of
         Inl _ \<Rightarrow> Inl (ContractError, ''filter event workflow'')
       | Inr found \<Rightarrow>
           and_then (collect_matches jm s sequence known env_key ws) (\<lambda>ms.
             Inr (case found of None \<Rightarrow> ms | Some input \<Rightarrow> (w, t, input) # ms)))"

record batch_facts =
  bf_delivery :: string
  bf_actor :: "string option"
  bf_durability :: string
  bf_lineage :: "(string \<times> string \<times> int) option"
  bf_now :: int

definition event_run_pins ::
    "'g event_world \<Rightarrow> release_scope \<Rightarrow> batch_facts \<Rightarrow> workflow_row \<Rightarrow> event_trigger \<Rightarrow> json \<Rightarrow> (string \<times> string) list \<Rightarrow> run_pins" where
  "event_run_pins world scope b w t input components =
     event_pins \<lparr>ad_package = et_application t, ad_manifest = ew_manifest_digest world, ad_environment = rs_environment scope,
         ad_wiring = et_workflow_id t, ad_version = wf_version w, ad_hash = wf_wiring_hash w,
         ad_key = event_key (ew_to_text world) (rs_environment scope) t (bf_delivery b), ad_input = input,
         ad_durability = bf_durability b\<rparr>
       (ew_workflow_user world) (case wf_execution_role w of None \<Rightarrow> ''admin'' | Some role \<Rightarrow> role) (bf_delivery b) (bf_actor b)
       (JObject (keep_last (map (map_prod (\<lambda>n. n) JString) components))) (bf_lineage b) (bf_now b)"

text \<open>The pins a match resolves to; an application that is not in scope panics.\<close>

definition resolve_match ::
    "'g event_world \<Rightarrow> release_scope \<Rightarrow> batch_facts \<Rightarrow> workflow_row \<Rightarrow> event_trigger \<Rightarrow> json
       \<Rightarrow> (claim_error, run_pins) result option" where
  "resolve_match world scope b w t input =
     (case ew_parse_graph world (wf_graph w) of
        Inl _ \<Rightarrow> Some (Inl (ContractError, ''parse event workflow''))
      | Inr graph \<Rightarrow>
          (case map_of (rs_applications scope) (et_application t) of
             None \<Rightarrow> None
           | Some packages \<Rightarrow>
               Some (case ew_gate world (rs_env_key scope) packages graph of
                  Inl _ \<Rightarrow> Inl (ContractError, ''gate event workflow'')
                | Inr hash \<Rightarrow>
                    if hash \<noteq> wf_wiring_hash w then Inl (ContractError, ''gate event workflow'')
                    else
                      (case ew_components world (rs_env_key scope) packages graph of
                         Inl _ \<Rightarrow> Inl (ContractError, ''resolve event workflow'')
                       | Inr components \<Rightarrow> Inr (event_run_pins world scope b w t input components)))))"

definition admit_match :: "string \<Rightarrow> string \<Rightarrow> run_pins \<Rightarrow> string \<Rightarrow> json \<Rightarrow> run_db \<Rightarrow> (claim_error, run_db) result" where
  "admit_match env_key run_id pins key input db =
     (case insert_run env_key run_id pins db of
        Refused \<Rightarrow> Inl (StorageError, ''insert event run'')
      | Inserted db1 \<Rightarrow>
          (case insert_run_queue env_key run_id (rp_created_at pins) db1 of
             None \<Rightarrow> Inl (StorageError, ''queue event run'')
           | Some db2 \<Rightarrow> Inr db2)
      | Conflicted \<Rightarrow>
          (case select_first_run db env_key key ''event'' input of
             None \<Rightarrow> Inl (ContractError, ''event idempotency conflict'')
           | Some _ \<Rightarrow> Inr db))"

fun admit_matches ::
    "'g event_world \<Rightarrow> release_scope \<Rightarrow> batch_facts \<Rightarrow> (workflow_row \<times> event_trigger \<times> json) list \<Rightarrow> (nat \<Rightarrow> string) \<Rightarrow> run_db
       \<Rightarrow> (claim_error, run_db) result option" where
  "admit_matches world scope b [] uuid db = Some (Inr db)"
| "admit_matches world scope b ((w, t, input) # ms) uuid db =
     (case resolve_match world scope b w t input of
        None \<Rightarrow> None
      | Some (Inl e) \<Rightarrow> Some (Inl e)
      | Some (Inr pins) \<Rightarrow>
          (case admit_match (rs_env_key scope) (uuid 0) pins
                  (event_key (ew_to_text world) (rs_environment scope) t (bf_delivery b)) input db of
             Inl e \<Rightarrow> Some (Inl e)
           | Inr db' \<Rightarrow> admit_matches world scope b ms (\<lambda>n. uuid (Suc n)) db'))"

section \<open>The batch\<close>

definition known_packages :: "release_scope \<Rightarrow> string list" where
  "known_packages scope = concat (map snd (rs_applications scope))"

definition lineage_of :: "source_event \<Rightarrow> (claim_error, (string \<times> string \<times> int) option) result option" where
  "lineage_of s =
     (case parent_of s of
        None \<Rightarrow> Some (Inr None)
      | Some p \<Rightarrow>
          if ca_depth p = - 1 then None
          else Some (if unat (ca_depth p + 1) < 2 ^ 31
            then Inr (Some (ca_run p, ca_root p, int (unat (ca_depth p + 1))))
            else Inl (ContractError, ''decode event depth'')))"

fun actor_of :: "entity_schema list \<Rightarrow> source_event \<Rightarrow> (claim_error, string option) result" where
  "actor_of schemas (Cdc e) = history_actor schemas e"
| "actor_of schemas (Derived e) = Inr None"

definition admit_selected ::
    "'g event_world \<Rightarrow> release_scope \<Rightarrow> event_admission \<Rightarrow> source_event \<Rightarrow> (workflow_row \<times> event_trigger \<times> json) list
       \<Rightarrow> int \<Rightarrow> (nat \<Rightarrow> string) \<Rightarrow> run_db \<Rightarrow> (claim_error, run_db) result option" where
  "admit_selected world scope a s ms now uuid db =
     (case actor_of (ew_schemas world) s of
        Inl e \<Rightarrow> Some (Inl e)
      | Inr actor \<Rightarrow>
          (case ew_durability world (rs_env_key scope, rs_environment scope) of
             None \<Rightarrow> Some (Inl (ContractError, ''environment policy is absent''))
           | Some durability \<Rightarrow>
               (case lineage_of s of
                  None \<Rightarrow> None
                | Some (Inl e) \<Rightarrow> Some (Inl e)
                | Some (Inr lineage) \<Rightarrow>
                    admit_matches world scope \<lparr>bf_delivery = delivery_of a, bf_actor = actor, bf_durability = durability,
                      bf_lineage = lineage, bf_now = now\<rparr> ms uuid db)))"

definition batch_in_transaction ::
    "'x event_codec \<Rightarrow> 'g event_world \<Rightarrow> string \<Rightarrow> release_scope \<Rightarrow> event_admission \<Rightarrow> int \<Rightarrow> (nat \<Rightarrow> string) \<Rightarrow> run_db
       \<Rightarrow> (claim_error, run_db) result option" where
  "batch_in_transaction cx world project scope a now uuid db =
     (case read_event cx (ea_envelope a) of
        None \<Rightarrow> Some (Inl (ContractError, ''decode event''))
      | Some s \<Rightarrow>
          if ea_sequence a = 0
             \<or> source_identity (cx_sha cx) (rs_env_key scope) project (rs_environment scope) [ea_source_event_id a] s = None
          then Some (Inl (ContractError, ''identify event''))
          else if source_of s \<noteq> (ea_source_package a, ea_entity a) then Some (Inr db)
          else
            (case collect_matches (cx_jmespath cx) s (ea_sequence a) (known_packages scope) (rs_env_key scope)
                    (enabled_events (ew_workflows world) (rs_env_key scope) (rs_environment scope)
                       (map fst (rs_applications scope))) of
               Inl e \<Rightarrow> Some (Inl e)
             | Inr ms \<Rightarrow> if ms = [] then Some (Inr db) else admit_selected world scope a s ms now uuid db))"

definition admit_event_batch ::
    "'x event_codec \<Rightarrow> 'g event_world \<Rightarrow> bool \<Rightarrow> string \<Rightarrow> release_scope \<Rightarrow> event_admission \<Rightarrow> int \<Rightarrow> (nat \<Rightarrow> string) \<Rightarrow> run_db
       \<Rightarrow> ((claim_error, unit) result \<times> run_db) option" where
  "admit_event_batch cx world authority project scope a now uuid db =
     (if \<not> authority then Some (finish db (require_executor_authority authority (Inr ((), db))))
      else map_option (\<lambda>r. finish db (map_sum (\<lambda>e. e) (Pair ()) r)) (batch_in_transaction cx world project scope a now uuid db))"

section \<open>Matches\<close>

lemma collect_matches_Inr:
  "collect_matches jm s sequence known env_key ws = Inr ms \<Longrightarrow>
     (w, t, input) \<in> set ms \<longleftrightarrow>
       w \<in> set ws \<and> trigger_of_row w = Inr t \<and> trigger_matches jm t s sequence known env_key = Inr (Some input)"
proof (induction ws arbitrary: ms)
  case (Cons v ws)
  from Cons.prems obtain u where row: "trigger_of_row v = Inr u" by (auto simp: and_then_Inr)
  with Cons.prems obtain found ms' where u: "trigger_matches jm u s sequence known env_key = Inr found"
    and rest: "collect_matches jm s sequence known env_key ws = Inr ms'"
    and ms: "ms = (case found of None \<Rightarrow> ms' | Some x \<Rightarrow> (v, u, x) # ms')"
    by (cases "trigger_matches jm u s sequence known env_key") (auto simp: and_then_Inr)
  show ?case
  proof (cases found)
    case None
    with row u ms Cons.IH [OF rest] show ?thesis by auto
  next
    case (Some x)
    with row u ms Cons.IH [OF rest] show ?thesis by auto
  qed
qed simp

lemma set_enabled_events:
  "w \<in> set (enabled_events ws env_key environment names) \<longleftrightarrow>
     w \<in> set ws \<and> wf_env_key w = env_key \<and> wf_environment w = environment \<and> wf_application w \<in> set names
       \<and> wf_enabled w \<and> wf_trigger w = ''event''"
  by (auto simp: enabled_events_def)

lemma trigger_of_row_application: "trigger_of_row w = Inr t \<Longrightarrow> et_application t = wf_application w"
  by (auto simp: trigger_of_row_def split: option.splits if_splits)

lemma lineage_of_depth_left: "depth_left s \<Longrightarrow> \<exists>l. lineage_of s = Some (Inr l) \<and>
    map_option (snd \<circ> snd) l = map_option (\<lambda>p. int (unat (ca_depth p)) + 1) (parent_of s)"
proof (cases "parent_of s")
  case (Some p)
  assume "depth_left s"
  with Some have small: "unat (ca_depth p) + 1 \<le> 16" by (simp add: depth_left_def)
  then have top: "ca_depth p \<noteq> - 1" by (auto simp: unsigned_minus_1_eq_mask mask_eq_exp_minus_1)
  then have "unat (ca_depth p + 1) = unat (ca_depth p) + 1"
    by (metis add_eq_0_iff unatSuc Suc_eq_plus1 add.commute add.inverse_inverse)
  with small top Some show ?thesis by (simp add: lineage_of_def)
qed (simp add: lineage_of_def)

section \<open>Runs of a batch\<close>

text \<open>A run that a match asks for: its key, its source and its input.\<close>

definition run_for :: "string \<Rightarrow> string \<Rightarrow> json \<Rightarrow> run_row \<Rightarrow> bool" where
  "run_for env_key key input r \<longleftrightarrow> rr_env_key r = env_key \<and> rp_idempotency_key (rr_pins r) = Some key
     \<and> rp_trigger_source (rr_pins r) = Some ''event'' \<and> rp_input (rr_pins r) = Some input"

lemma resolved_pins:
  "resolve_match world scope b w t input = Some (Inr pins) \<Longrightarrow>
     \<exists>components. pins = event_run_pins world scope b w t input components"
  by (auto simp: resolve_match_def split: sum.splits option.splits if_splits)

lemma event_run_pins_sel [simp]:
  "rp_idempotency_key (event_run_pins world scope b w t input cs)
     = Some (event_key (ew_to_text world) (rs_environment scope) t (bf_delivery b))"
  "rp_trigger_source (event_run_pins world scope b w t input cs) = Some ''event''"
  "rp_input (event_run_pins world scope b w t input cs) = Some input"
  "rp_package_id (event_run_pins world scope b w t input cs) = et_application t"
  "rp_wiring_id (event_run_pins world scope b w t input cs) = Some (et_workflow_id t)"
  "rp_event_depth (event_run_pins world scope b w t input cs) = map_option (snd \<circ> snd) (bf_lineage b)"
  by (simp_all add: event_run_pins_def event_pins_def pins_of_def workflow_pins_def)

lemma select_first_run_iff:
  "select_first_run db env_key key ''event'' input \<noteq> None \<longleftrightarrow> (\<exists>r \<in> set (db_runs db). run_for env_key key input r)"
  by (auto simp: select_first_run_def run_for_def find_None_iff)

lemma admit_match_Inr:
  assumes "admit_match env_key run_id pins key input db = Inr db'"
    and "rp_idempotency_key pins = Some key" "rp_trigger_source pins = Some ''event''" "rp_input pins = Some input"
  shows "(\<exists>r \<in> set (db_runs db'). run_for env_key key input r)
    \<and> (db' = db \<or> db_runs db' = db_runs db @ [admitted_row env_key run_id pins])
    \<and> db' = snd (admit_run True env_key run_id pins (\<lambda>db. select_first_run db env_key key ''event'' input) db)"
proof (cases "insert_run env_key run_id pins db")
  case (Inserted db1)
  then have db1: "db1 = db\<lparr>db_runs := db_runs db @ [admitted_row env_key run_id pins]\<rparr>"
    by (auto simp: insert_run_def split: if_splits)
  from assms(1) Inserted obtain db2 where db2: "insert_run_queue env_key run_id (rp_created_at pins) db1 = Some db2" "db' = db2"
    by (auto simp: admit_match_def split: option.splits)
  then have "db_runs db2 = db_runs db1" by (auto simp: insert_run_queue_def split: if_splits)
  moreover have "run_for env_key key input (admitted_row env_key run_id pins)"
    using assms(2-4) by (simp add: run_for_def admitted_row_def)
  ultimately show ?thesis using Inserted db1 db2
    by (simp add: admit_run_def finish_def require_executor_authority_def)
next
  case Conflicted
  with assms(1) obtain i where "select_first_run db env_key key ''event'' input = Some i" "db' = db"
    by (auto simp: admit_match_def split: option.splits)
  with Conflicted select_first_run_iff [of db env_key key input] show ?thesis
    by (auto simp: admit_run_def finish_def require_executor_authority_def)
qed (use assms(1) in \<open>simp add: admit_match_def\<close>)

lemma admit_match_again:
  assumes "\<exists>r \<in> set (db_runs db). run_for env_key key input r" and "rp_idempotency_key pins = Some key"
  shows "admit_match env_key run_id pins key input db = Inr db"
proof -
  from assms have "key_taken db env_key (rp_idempotency_key pins)" by (auto simp: key_taken_def list_ex_iff run_for_def)
  moreover from assms(1) select_first_run_iff obtain i where "select_first_run db env_key key ''event'' input = Some i" by blast
  ultimately show ?thesis by (simp add: admit_match_def insert_run_def)
qed

text \<open>The key a batch gives the run of a trigger.\<close>

abbreviation batch_key :: "'g event_world \<Rightarrow> release_scope \<Rightarrow> string \<Rightarrow> event_trigger \<Rightarrow> string" where
  "batch_key world scope delivery t \<equiv> event_key (ew_to_text world) (rs_environment scope) t delivery"

lemma admit_matches_Inr:
  assumes "admit_matches world scope b ms uuid db = Some (Inr db')"
  shows "(\<exists>rs. db_runs db' = db_runs db @ rs \<and> (\<forall>r \<in> set rs. \<exists>w t input cs i. (w, t, input) \<in> set ms
        \<and> r = admitted_row (rs_env_key scope) (uuid i) (event_run_pins world scope b w t input cs)))
    \<and> (\<forall>(w, t, input) \<in> set ms. (\<exists>pins. resolve_match world scope b w t input = Some (Inr pins))
        \<and> (\<exists>r \<in> set (db_runs db'). run_for (rs_env_key scope) (batch_key world scope (bf_delivery b) t) input r))"
  using assms
proof (induction ms arbitrary: uuid db)
  case (Cons m ms)
  obtain w t input where m: "m = (w, t, input)" by (cases m)
  from Cons.prems m obtain pins db1 where pins: "resolve_match world scope b w t input = Some (Inr pins)"
    and db1: "admit_match (rs_env_key scope) (uuid 0) pins (batch_key world scope (bf_delivery b) t) input db = Inr db1"
    and rest: "admit_matches world scope b ms (\<lambda>n. uuid (Suc n)) db1 = Some (Inr db')"
    by (auto split: option.splits sum.splits)
  from resolved_pins [OF pins] obtain cs where cs: "pins = event_run_pins world scope b w t input cs" by blast
  let ?row = "admitted_row (rs_env_key scope) (uuid 0) pins"
  from admit_match_Inr [OF db1] cs
  have here: "\<exists>r \<in> set (db_runs db1). run_for (rs_env_key scope) (batch_key world scope (bf_delivery b) t) input r"
    and grown: "db_runs db1 = db_runs db \<or> db_runs db1 = db_runs db @ [?row]"
    by auto
  from Cons.IH [OF rest] obtain rs where rs: "db_runs db' = db_runs db1 @ rs"
    "\<forall>r \<in> set rs. \<exists>w t input cs i. (w, t, input) \<in> set ms
        \<and> r = admitted_row (rs_env_key scope) (uuid (Suc i)) (event_run_pins world scope b w t input cs)"
    and later: "\<forall>(w, t, input) \<in> set ms. (\<exists>pins. resolve_match world scope b w t input = Some (Inr pins))
        \<and> (\<exists>r \<in> set (db_runs db'). run_for (rs_env_key scope) (batch_key world scope (bf_delivery b) t) input r)"
    by blast
  from grown rs(1) obtain new where new: "db_runs db' = db_runs db @ new @ rs" "set new \<subseteq> {?row}" by auto
  have "\<exists>w t input cs i. (w, t, input) \<in> set (m # ms)
        \<and> r = admitted_row (rs_env_key scope) (uuid i) (event_run_pins world scope b w t input cs)"
    if "r \<in> set (new @ rs)" for r
  proof (cases "r \<in> set rs")
    case True
    with rs(2) show ?thesis by (metis list.set_intros(2))
  next
    case False
    with that new(2) m cs show ?thesis by (metis Un_iff list.set_intros(1) set_append singletonD subsetD)
  qed
  with new(1) have "\<exists>rs. db_runs db' = db_runs db @ rs \<and> (\<forall>r \<in> set rs. \<exists>w t input cs i. (w, t, input) \<in> set (m # ms)
        \<and> r = admitted_row (rs_env_key scope) (uuid i) (event_run_pins world scope b w t input cs))" by blast
  moreover from here rs(1) later m pins
  have "\<forall>(w, t, input) \<in> set (m # ms). (\<exists>pins. resolve_match world scope b w t input = Some (Inr pins))
        \<and> (\<exists>r \<in> set (db_runs db'). run_for (rs_env_key scope) (batch_key world scope (bf_delivery b) t) input r)" by auto
  ultimately show ?case by blast
qed simp

lemma resolve_again:
  "resolve_match world scope b w t input = Some (Inr pins) \<Longrightarrow>
     \<exists>cs. resolve_match world scope b' w t input = Some (Inr (event_run_pins world scope b' w t input cs))"
  by (auto simp: resolve_match_def split: sum.splits option.splits if_splits)

lemma admit_matches_again:
  assumes "\<forall>(w, t, input) \<in> set ms. (\<exists>pins. resolve_match world scope b w t input = Some (Inr pins))
        \<and> (\<exists>r \<in> set (db_runs db). run_for (rs_env_key scope) (batch_key world scope (bf_delivery b') t) input r)"
  shows "admit_matches world scope b' ms uuid db = Some (Inr db)"
  using assms
proof (induction ms arbitrary: uuid)
  case (Cons m ms)
  obtain w t input where m: "m = (w, t, input)" by (cases m)
  with Cons.prems obtain pins where "resolve_match world scope b w t input = Some (Inr pins)" by auto
  from resolve_again [OF this, of b'] obtain cs
  where "resolve_match world scope b' w t input = Some (Inr (event_run_pins world scope b' w t input cs))" by blast
  moreover from m Cons.prems
  have "\<exists>r \<in> set (db_runs db). run_for (rs_env_key scope) (batch_key world scope (bf_delivery b') t) input r" by auto
  ultimately show ?case using Cons m by (simp add: admit_match_again)
qed simp

text \<open>A batch is a sequence of the store's admissions, each with an id not drawn before.\<close>

lemma admit_matches_steps:
  assumes "admit_matches world scope b ms uuid db = Some (Inr db')" "inj uuid" "\<forall>n. (rs_env_key scope, uuid n) \<notin> used"
  shows "\<exists>used'. transacts\<^sup>*\<^sup>* (db, used) (db', used')"
  using assms
proof (induction ms arbitrary: uuid db used)
  case (Cons m ms)
  obtain w t input where m: "m = (w, t, input)" by (cases m)
  from Cons.prems(1) m obtain pins db1 where pins: "resolve_match world scope b w t input = Some (Inr pins)"
    and db1: "admit_match (rs_env_key scope) (uuid 0) pins (batch_key world scope (bf_delivery b) t) input db = Inr db1"
    and rest: "admit_matches world scope b ms (\<lambda>n. uuid (Suc n)) db1 = Some (Inr db')"
    by (auto split: option.splits sum.splits)
  from resolved_pins [OF pins] obtain cs where "pins = event_run_pins world scope b w t input cs" by blast
  with admit_match_Inr [OF db1] have db1_eq: "db1 = snd (admit_run True (rs_env_key scope) (uuid 0) pins
      (\<lambda>db. select_first_run db (rs_env_key scope) (batch_key world scope (bf_delivery b) t) ''event'' input) db)" by simp
  have "transacts (db, used) (db1, insert (rs_env_key scope, uuid 0) used)"
    unfolding db1_eq using Cons.prems(3) by (intro t_admit) simp
  moreover from Cons.prems(2) have "inj (\<lambda>n. uuid (Suc n))" by (auto simp: inj_def)
  from Cons.IH [OF rest this, of "insert (rs_env_key scope, uuid 0) used"] Cons.prems(2,3)
  obtain used' where "transacts\<^sup>*\<^sup>* (db1, insert (rs_env_key scope, uuid 0) used) (db', used')"
    by (auto simp: inj_eq)
  ultimately show ?case by (meson converse_rtranclp_into_rtranclp)
qed auto

section \<open>What a batch does\<close>

text \<open>The triggers an admission is for: enabled, of an application in scope, past their enable position, and selecting the event.\<close>

definition due_trigger :: "'x event_codec \<Rightarrow> 'g event_world \<Rightarrow> release_scope \<Rightarrow> event_admission \<Rightarrow> source_event \<Rightarrow> event_trigger \<Rightarrow> bool" where
  "due_trigger cx world scope a s t \<longleftrightarrow>
     (\<exists>w \<in> set (enabled_events (ew_workflows world) (rs_env_key scope) (rs_environment scope) (map fst (rs_applications scope))).
        trigger_of_row w = Inr t)
     \<and> trigger_matches (cx_jmespath cx) t s (ea_sequence a) (known_packages scope) (rs_env_key scope) = Inr (Some (input_of s))"

lemma collected_due:
  assumes "collect_matches (cx_jmespath cx) s (ea_sequence a) (known_packages scope) (rs_env_key scope)
      (enabled_events (ew_workflows world) (rs_env_key scope) (rs_environment scope) (map fst (rs_applications scope))) = Inr ms"
  shows "(w, t, input) \<in> set ms \<Longrightarrow> due_trigger cx world scope a s t \<and> input = input_of s \<and> depth_left s
      \<and> map_of (rs_applications scope) (et_application t) \<noteq> None"
    and "due_trigger cx world scope a s t \<Longrightarrow> \<exists>w. (w, t, input_of s) \<in> set ms"
proof -
  assume "(w, t, input) \<in> set ms"
  with collect_matches_Inr [OF assms] have w: "w \<in> set (enabled_events (ew_workflows world) (rs_env_key scope)
      (rs_environment scope) (map fst (rs_applications scope)))" "trigger_of_row w = Inr t"
    and m: "trigger_matches (cx_jmespath cx) t s (ea_sequence a) (known_packages scope) (rs_env_key scope) = Inr (Some input)"
    by blast+
  from matches_selects [OF m] have "input = input_of s" "depth_left s" by (simp_all add: selects_def)
  moreover from w have "et_application t \<in> set (map fst (rs_applications scope))"
    by (simp add: set_enabled_events trigger_of_row_application)
  ultimately show "due_trigger cx world scope a s t \<and> input = input_of s \<and> depth_left s
      \<and> map_of (rs_applications scope) (et_application t) \<noteq> None"
    using w m by (auto simp: due_trigger_def map_of_eq_None_iff)
next
  assume "due_trigger cx world scope a s t"
  then show "\<exists>w. (w, t, input_of s) \<in> set ms" using collect_matches_Inr [OF assms] by (auto simp: due_trigger_def)
qed

lemma resolve_total:
  "map_of (rs_applications scope) (et_application t) \<noteq> None \<Longrightarrow> resolve_match world scope b w t input \<noteq> None"
  by (auto simp: resolve_match_def split: sum.splits)

lemma admit_matches_total:
  "\<forall>(w, t, input) \<in> set ms. map_of (rs_applications scope) (et_application t) \<noteq> None \<Longrightarrow>
     admit_matches world scope b ms uuid db \<noteq> None"
proof (induction ms arbitrary: uuid db)
  case (Cons m ms)
  obtain w t input where m: "m = (w, t, input)" by (cases m)
  with Cons.prems have "map_of (rs_applications scope) (et_application t) \<noteq> None" by auto
  from resolve_total [OF this, of world b w input] obtain r where r: "resolve_match world scope b w t input = Some r" by blast
  from Cons m r show ?case by (cases r) (auto split: sum.splits)
qed simp

lemma batch_total: "batch_in_transaction cx world project scope a now uuid db \<noteq> None"
proof (cases "read_event cx (ea_envelope a)")
  case (Some s)
  let ?ws = "enabled_events (ew_workflows world) (rs_env_key scope) (rs_environment scope) (map fst (rs_applications scope))"
  show ?thesis
  proof (cases "collect_matches (cx_jmespath cx) s (ea_sequence a) (known_packages scope) (rs_env_key scope) ?ws")
    case (Inr ms)
    have "admit_selected world scope a s ms now uuid db \<noteq> None" if "ms \<noteq> []"
    proof -
      from that obtain w t input where "(w, t, input) \<in> set ms" by (metis last_in_set prod_cases3)
      from collected_due(1) [OF Inr this] lineage_of_depth_left obtain l where "lineage_of s = Some (Inr l)" by blast
      moreover have "\<forall>(w, t, input) \<in> set ms. map_of (rs_applications scope) (et_application t) \<noteq> None"
        using collected_due(1) [OF Inr] by blast
      ultimately show ?thesis using admit_matches_total by (auto simp: admit_selected_def split: sum.splits option.splits)
    qed
    with Some Inr show ?thesis by (simp add: batch_in_transaction_def)
  qed (simp add: batch_in_transaction_def Some)
qed (simp add: batch_in_transaction_def)

text \<open>A batch that went through decoded its event, and for the consumer's own source walked the matches.\<close>

lemma batch_Inr:
  assumes "batch_in_transaction cx world project scope a now uuid db = Some (Inr db')"
  obtains s where "read_event cx (ea_envelope a) = Some s" "source_of s \<noteq> (ea_source_package a, ea_entity a)" "db' = db"
      "\<And>now uuid db. batch_in_transaction cx world project scope a now uuid db = Some (Inr db)"
  | s ms b where "read_event cx (ea_envelope a) = Some s" "source_of s = (ea_source_package a, ea_entity a)"
      "collect_matches (cx_jmespath cx) s (ea_sequence a) (known_packages scope) (rs_env_key scope)
        (enabled_events (ew_workflows world) (rs_env_key scope) (rs_environment scope) (map fst (rs_applications scope))) = Inr ms"
      "admit_matches world scope b ms uuid db = Some (Inr db')" "bf_delivery b = delivery_of a"
      "ms \<noteq> [] \<Longrightarrow> map_option (snd \<circ> snd) (bf_lineage b) = map_option (\<lambda>p. int (unat (ca_depth p)) + 1) (parent_of s)"
      "\<And>now uuid db. batch_in_transaction cx world project scope a now uuid db = admit_matches world scope (b\<lparr>bf_now := now\<rparr>) ms uuid db"
proof -
  from assms obtain s where s: "read_event cx (ea_envelope a) = Some s"
    and named: "\<not> (ea_sequence a = 0
      \<or> source_identity (cx_sha cx) (rs_env_key scope) project (rs_environment scope) [ea_source_event_id a] s = None)"
    by (auto simp: batch_in_transaction_def split: option.splits if_splits)
  show thesis
  proof (cases "source_of s = (ea_source_package a, ea_entity a)")
    case False
    with assms s named that(1) [OF s] show thesis by (auto simp: batch_in_transaction_def)
  next
    case True
    from assms s named True obtain ms where ms: "collect_matches (cx_jmespath cx) s (ea_sequence a) (known_packages scope)
        (rs_env_key scope) (enabled_events (ew_workflows world) (rs_env_key scope) (rs_environment scope)
          (map fst (rs_applications scope))) = Inr ms"
      by (auto simp: batch_in_transaction_def split: sum.splits)
    note batch = batch_in_transaction_def [of cx world project scope a]
    show thesis
    proof (cases "ms = []")
      case empty: True
      define b where "b = \<lparr>bf_delivery = delivery_of a, bf_actor = None, bf_durability = [], bf_lineage = None, bf_now = now\<rparr>"
      show thesis
        using assms by (intro that(2) [OF s True ms, of b]) (use s named True ms empty in \<open>auto simp: batch b_def\<close>)
    next
      case False
      then obtain w t input where "(w, t, input) \<in> set ms" by (metis last_in_set prod_cases3)
      from collected_due(1) [OF ms this] lineage_of_depth_left obtain l where l: "lineage_of s = Some (Inr l)"
        "map_option (snd \<circ> snd) l = map_option (\<lambda>p. int (unat (ca_depth p)) + 1) (parent_of s)" by blast
      from assms s named True ms False have "admit_selected world scope a s ms now uuid db = Some (Inr db')" by (simp add: batch)
      then obtain actor durability where known: "actor_of (ew_schemas world) s = Inr actor"
        "ew_durability world (rs_env_key scope, rs_environment scope) = Some durability"
        by (auto simp: admit_selected_def split: sum.splits option.splits)
      define b where "b = \<lparr>bf_delivery = delivery_of a, bf_actor = actor, bf_durability = durability, bf_lineage = l, bf_now = now\<rparr>"
      have "batch_in_transaction cx world project scope a now uuid db = admit_matches world scope (b\<lparr>bf_now := now\<rparr>) ms uuid db"
        for now uuid db using s named True ms False known l by (auto simp: batch admit_selected_def b_def)
      moreover have "b\<lparr>bf_now := now\<rparr> = b" by (simp add: b_def)
      ultimately show thesis using assms l by (intro that(2) [OF s True ms, of b]) (simp_all add: b_def)
    qed
  qed
qed

text \<open>In a state the store reaches, a run with a key is the only one of its environment.\<close>

lemma run_for_found:
  assumes "reached db used" "r \<in> set (db_runs db)" "run_for env_key key input r"
  shows "\<exists>!k. \<exists>r. find_run db k = Some r \<and> run_for env_key key input r"
proof (rule ex1I [of _ "run_key r"])
  from reached_ok [OF assms(1)] have "distinct (map run_key (db_runs db))" by (simp add: store_ok_def pk_ok_def)
  with assms(2) have "find_run db (run_key r) = Some r" by (simp add: find_run_def find_distinct_image)
  then show found: "\<exists>r'. find_run db (run_key r) = Some r' \<and> run_for env_key key input r'" using assms(3) by blast
  fix k assume "\<exists>r. find_run db k = Some r \<and> run_for env_key key input r"
  then obtain r' where r': "find_run db k = Some r'" "run_for env_key key input r'" by blast
  from r'(1) have "run_key r' = k" by (auto simp: find_run_def dest: find_member)
  with r' assms(3) \<open>find_run db (run_key r) = Some r\<close> show "k = run_key r"
    by (intro keys_onceD [OF reached_keys_once [OF assms(1)], of k r' "run_key r" r key])
      (auto simp: run_for_def run_key_def)
qed

lemma finish_refused: "finish db t = (Inl e, db') \<Longrightarrow> db' = db"
  by (auto simp: finish_def split: sum.splits prod.splits)

lemma admit_event_batch_Inr:
  "admit_event_batch cx world authority project scope a now uuid db = Some (Inr u, db') \<longleftrightarrow>
     authority \<and> batch_in_transaction cx world project scope a now uuid db = Some (Inr db')"
proof (cases "batch_in_transaction cx world project scope a now uuid db")
  case (Some r)
  then show ?thesis by (cases r) (auto simp: admit_event_batch_def finish_def require_executor_authority_def)
qed (simp add: admit_event_batch_def finish_def require_executor_authority_def)


text \<open>
  C19. A delivery can be repeated. Admitting an event never panics: the index of an application's packages and the
  step in depth are in range for every match. A refusal leaves the tables as they were, whatever part of the batch
  came before it. And an admission that answered success answers success again, at any later instant and with any
  ids, in any tables that still hold the runs of its tables with what they were admitted with, and changes nothing.
\<close>

theorem event_batch_repeatable:
  "admit_event_batch cx world authority project scope a now uuid db \<noteq> None
   \<and> (admit_event_batch cx world authority project scope a now uuid db = Some (Inl e, db') \<longrightarrow> db' = db)
   \<and> (admit_event_batch cx world authority project scope a now uuid db = Some (Inr (), db')
        \<and> (\<forall>r \<in> set (db_runs db'). \<exists>r' \<in> set (db_runs later). rr_env_key r' = rr_env_key r \<and> rr_pins r' = rr_pins r)
      \<longrightarrow> admit_event_batch cx world authority project scope a now' uuid' later = Some (Inr (), later))"
proof (intro conjI impI)
  show "admit_event_batch cx world authority project scope a now uuid db \<noteq> None"
    using batch_total [of cx world project scope a now uuid db] by (simp add: admit_event_batch_def del: not_None_eq)
  show "db' = db" if "admit_event_batch cx world authority project scope a now uuid db = Some (Inl e, db')"
    using that by (auto simp: admit_event_batch_def dest: finish_refused split: if_splits)
  assume again: "admit_event_batch cx world authority project scope a now uuid db = Some (Inr (), db')
        \<and> (\<forall>r \<in> set (db_runs db'). \<exists>r' \<in> set (db_runs later). rr_env_key r' = rr_env_key r \<and> rr_pins r' = rr_pins r)"
  then have auth: authority and batch: "batch_in_transaction cx world project scope a now uuid db = Some (Inr db')"
    by (simp_all add: admit_event_batch_Inr)
  from again have kept: "\<exists>r' \<in> set (db_runs later). run_for k key input r'" if "\<exists>r \<in> set (db_runs db'). run_for k key input r" for k key input
    using that unfolding run_for_def by metis
  have "batch_in_transaction cx world project scope a now' uuid' later = Some (Inr later)"
  proof (rule batch_Inr [OF batch])
    fix s ms b
    assume all: "admit_matches world scope b ms uuid db = Some (Inr db')" and b: "bf_delivery b = delivery_of a"
      and eq: "\<And>now uuid db. batch_in_transaction cx world project scope a now uuid db
        = admit_matches world scope (b\<lparr>bf_now := now\<rparr>) ms uuid db"
    from admit_matches_Inr [OF all] kept
    have "\<forall>(w, t, input) \<in> set ms. (\<exists>pins. resolve_match world scope b w t input = Some (Inr pins))
        \<and> (\<exists>r \<in> set (db_runs later). run_for (rs_env_key scope) (batch_key world scope (bf_delivery (b\<lparr>bf_now := now'\<rparr>)) t) input r)"
      by fastforce
    from admit_matches_again [OF this] show ?thesis by (simp add: eq)
  qed auto
  with auth show "admit_event_batch cx world authority project scope a now' uuid' later = Some (Inr (), later)"
    by (simp add: admit_event_batch_Inr)
qed

section \<open>A delivered order\<close>

definition order_codec :: "unit event_codec" where
  "order_codec = \<lparr>cx_tree = \<lambda>_. Some (envelope_to_json tally_text sample_envelope), cx_timestamp = tally_of, cx_sha = \<lambda>x. x,
     cx_jmespath = \<lparr>jm_compile = \<lambda>_. Inr (), jm_references_old = \<lambda>_. False, jm_search = \<lambda>_ _. Inr True\<rparr>, cx_utf8 = \<lambda>_. True\<rparr>"

definition order_scope :: release_scope where
  "order_scope = \<lparr>rs_env_key = ''acme'', rs_environment = ''dev'', rs_applications = [(''erp'', [''orders''])]\<rparr>"

definition order_workflow :: workflow_row where
  "order_workflow = \<lparr>wf_env_key = ''acme'', wf_environment = ''dev'', wf_application = ''erp'', wf_workflow_id = ''notify'',
     wf_source_package = ''orders'', wf_entity = ''order'', wf_ops = [''update''], wf_condition = None, wf_enable_sequence = 41,
     wf_version = 1, wf_graph = ''g'', wf_wiring_hash = ''h'', wf_execution_role = None, wf_enabled = True, wf_trigger = ''event''\<rparr>"

definition order_world :: "unit event_world" where
  "order_world = \<lparr>ew_workflows = [order_workflow], ew_durability = \<lambda>_. Some ''standard'', ew_schemas = [],
     ew_parse_graph = \<lambda>_. Inr (), ew_gate = \<lambda>_ _ _. Inr ''h'', ew_components = \<lambda>_ _ _. Inr [(''n'', ''d'')],
     ew_manifest_digest = ''m'', ew_to_text = \<lambda>_. ''key'', ew_workflow_user = ''u''\<rparr>"

definition order_admission :: event_admission where
  "order_admission = \<lparr>ea_source_package = ''orders'', ea_entity = ''order'', ea_envelope = ''body'', ea_sequence = 42,
     ea_source_event_id = msg_id ''shop'' ''dev'' 42\<rparr>"

definition order_trigger :: event_trigger where
  "order_trigger = \<lparr>et_application = ''erp'', et_workflow_id = ''notify'', et_source_package = ''orders'', et_entity = ''order'',
     et_ops = [OpUpdate], et_condition = None, et_enable_sequence = 41\<rparr>"

lemma order_read: "read_event order_codec (ea_envelope order_admission) = Some (Cdc sample_envelope)"
  by (simp add: read_event_def order_codec_def sample_decodes)

lemma order_rows:
  "enabled_events (ew_workflows order_world) (rs_env_key order_scope) (rs_environment order_scope)
     (map fst (rs_applications order_scope)) = [order_workflow]"
  by (simp add: enabled_events_def order_world_def order_scope_def) (simp add: order_workflow_def)

lemma order_row: "trigger_of_row order_workflow = Inr order_trigger"
  by (simp add: trigger_of_row_def order_workflow_def order_trigger_def op_of_str_def)

lemma order_match:
  "trigger_matches (cx_jmespath order_codec) order_trigger (Cdc sample_envelope) (ea_sequence order_admission)
     (known_packages order_scope) (rs_env_key order_scope) = Inr (Some (event_input sample_envelope))"
  by (simp add: trigger_matches_def serviceable_def source_verdict_def decide_event_def tenant_verdict_def condition_verdict_def
      row_tenant_def row_image_def known_packages_def MAX_CAUSATION_DEPTH_def saturating_succ_def
      order_scope_def order_admission_def order_trigger_def registration_of_def sample_envelope_def)

definition order_run :: run_row where
  "order_run = admitted_row ''acme'' [] (event_run_pins order_world order_scope
     \<lparr>bf_delivery = delivery_of order_admission, bf_actor = None, bf_durability = ''standard'', bf_lineage = Some (''r'', ''r'', 2), bf_now = 5\<rparr>
     order_workflow order_trigger (event_input sample_envelope) [(''n'', ''d'')])"

lemma order_batch:
  "\<exists>queue. admit_event_batch order_codec order_world True ''shop'' order_scope order_admission 5 (\<lambda>n. replicate n (CHR ''x'')) empty_db
     = Some (Inr (), \<lparr>db_runs = [order_run], db_queue = queue\<rparr>)"
proof -
  have id: "source_identity (cx_sha order_codec) (rs_env_key order_scope) ''shop'' (rs_environment order_scope)
      [ea_source_event_id order_admission] (Cdc sample_envelope) = Some (msg_id ''shop'' ''dev'' 42)"
    by (simp add: verified_source_event_id_def only_id_def order_scope_def order_admission_def sample_envelope_def)
  have lineage: "lineage_of (Cdc sample_envelope) = Some (Inr (Some (''r'', ''r'', 2)))"
    by (simp add: lineage_of_def sample_envelope_def)
  have resolved: "resolve_match order_world order_scope b order_workflow order_trigger input
      = Some (Inr (event_run_pins order_world order_scope b order_workflow order_trigger input [(''n'', ''d'')]))" for b input
    by (simp add: resolve_match_def order_world_def order_scope_def order_trigger_def order_workflow_def)
  have env: "rs_env_key order_scope = ''acme''" "ew_schemas order_world = []" "ew_durability order_world k = Some ''standard''" for k
    by (simp_all add: order_scope_def order_world_def)
  have own: "source_of (Cdc sample_envelope) = (ea_source_package order_admission, ea_entity order_admission)" "ea_sequence order_admission \<noteq> 0"
    by (simp_all add: sample_envelope_def order_admission_def)
  have collected: "collect_matches (cx_jmespath order_codec) (Cdc sample_envelope) (ea_sequence order_admission)
      (known_packages order_scope) (rs_env_key order_scope) [order_workflow]
      = Inr [(order_workflow, order_trigger, event_input sample_envelope)]"
    by (simp add: order_row order_match and_then_def)
  have "batch_in_transaction order_codec order_world ''shop'' order_scope order_admission 5 uuid empty_db
      = admit_selected order_world order_scope order_admission (Cdc sample_envelope)
          [(order_workflow, order_trigger, event_input sample_envelope)] 5 uuid empty_db" for uuid
    by (simp add: batch_in_transaction_def order_read order_rows collected id own
        del: source_of.simps source_identity.simps collect_matches.simps)
  then show ?thesis
    by (simp add: admit_event_batch_Inr admit_selected_def env lineage resolved admit_match_def insert_run_def
        insert_run_queue_def key_taken_def find_run_def find_queue_def empty_db_def run_key_def admitted_row_def order_run_def)
qed


theorem event_batch_repeatable_witness:
  "\<exists>db'. admit_event_batch order_codec order_world True ''shop'' order_scope order_admission 5 (\<lambda>n. replicate n (CHR ''x'')) empty_db
      = Some (Inr (), db') \<and> db_runs db' = [order_run]
    \<and> admit_event_batch order_codec order_world True ''shop'' order_scope order_admission 9 (\<lambda>n. replicate n (CHR ''y'')) db' = Some (Inr (), db')"
proof -
  from order_batch obtain queue where batch: "admit_event_batch order_codec order_world True ''shop'' order_scope order_admission 5
      (\<lambda>n. replicate n (CHR ''x'')) empty_db = Some (Inr (), \<lparr>db_runs = [order_run], db_queue = queue\<rparr>)" by blast
  with event_batch_repeatable [of order_codec order_world True "''shop''" order_scope order_admission 5
      "\<lambda>n. replicate n (CHR ''x'')" empty_db "(StorageError, [])" "\<lparr>db_runs = [order_run], db_queue = queue\<rparr>"
      "\<lparr>db_runs = [order_run], db_queue = queue\<rparr>" 9 "\<lambda>n. replicate n (CHR ''y'')"]
  show ?thesis by (intro exI [of _ "\<lparr>db_runs = [order_run], db_queue = queue\<rparr>"]) simp
qed

end
