(* ===== verification/Spec2Isabelle.thy ===== *)
theory Spec2Isabelle
  imports Queue_Worker Redaction Wiring_Lowering Logged_Call Counter_Set Event_Batch
begin

text \<open>
  A verification library of the workflow execution core of the WAMN repository: the router that walks
  a wiring, the run store that queues, leases and settles runs, the worker that joins the two, the
  logged operation calls that components make, and the events that start runs.

  \<^bold>\<open>The parts and how they interact.\<close> A run is admitted into two tables, \<^verbatim>\<open>runs\<close> and \<^verbatim>\<open>run_queue\<close>, by a caller
  or by an event that a workflow's trigger selects. A worker claims the head of the queue under a lease
  with a growing generation, drives the run's wiring with the router, renews its lease meanwhile, and
  settles the run in the store under the fence of its lease. The janitor fails runs whose attempts are
  used up, and retention prunes terminal ones. A component's operation calls are logged by key, so that a
  repeated call answers what the first one did; document numbers are drawn inside such calls.

  \<^bold>\<open>Theories and sources.\<close>
  \<^item> \<^verbatim>\<open>Prelude\<close>, \<^verbatim>\<open>Float64\<close> and \<^verbatim>\<open>Json\<close> hold the shared lemmas, results, numbers and JSON values.
  \<^item> \<^verbatim>\<open>Router_Outcome\<close>, \<^verbatim>\<open>Router_Wiring\<close> and \<^verbatim>\<open>Router_Walk\<close> model \<^verbatim>\<open>crates/execution/workflow/router/src\<close>
    (\<^verbatim>\<open>outcome.rs\<close>, \<^verbatim>\<open>retry.rs\<close>, \<^verbatim>\<open>wiring.rs\<close>, \<^verbatim>\<open>terminal.rs\<close>, \<^verbatim>\<open>walk.rs\<close>): \<open>compile\<close>, \<open>next_step\<close> and
    \<open>apply_outcome\<close> on a record of the walk. \<^verbatim>\<open>Router_Trace\<close> has the run-time checks of \<^verbatim>\<open>invariants.rs\<close>.
    \<^verbatim>\<open>Wiring_Lowering\<close> (\<^verbatim>\<open>workflow/src/wiring_lowering.rs\<close>) builds the wiring from a package's document
    (\<^verbatim>\<open>catalog/model/src/wiring.rs\<close>) and its admitted components.
  \<^item> \<^verbatim>\<open>Router_Loop\<close> is the contract of a loop that drives a walk. \<^verbatim>\<open>Router_Route\<close> (\<^verbatim>\<open>lib.rs\<close>, \<open>route\<close>) and
    \<^verbatim>\<open>Router_Driver\<close> (\<^verbatim>\<open>workflow/src/router_driver.rs\<close>, \<open>execute_resolved\<close>) are its two instances.
  \<^item> \<^verbatim>\<open>Run_Status\<close>, \<^verbatim>\<open>Run_Queue\<close>, \<^verbatim>\<open>Run_Tables\<close>, \<^verbatim>\<open>Run_Statements\<close> and \<^verbatim>\<open>Run_Store\<close> model
    \<^verbatim>\<open>crates/execution/run-state/src\<close>, the tables of \<^verbatim>\<open>deploy/sql\<close> and the transactions of
    \<^verbatim>\<open>wamn_postgres/production_claim.rs\<close>: the pure decisions, the rows, one definition for each
    statement and one for each transaction.
  \<^item> \<^verbatim>\<open>Run_Lifecycle\<close> and \<^verbatim>\<open>Run_History\<close> hold the abstract life of a run and the histories of the store.
  \<^item> \<^verbatim>\<open>Router_Action\<close> (\<^verbatim>\<open>router_action.rs\<close>) maps an outcome onto a completion, and \<^verbatim>\<open>Queue_Worker\<close>
    (\<^verbatim>\<open>queue.rs\<close>) is a turn of the worker. \<^verbatim>\<open>Redaction\<close> (\<^verbatim>\<open>redaction.rs\<close>) is the payload scrub.
  \<^item> \<^verbatim>\<open>Intent_Store\<close> (\<^verbatim>\<open>intent_store.rs\<close>, \<^verbatim>\<open>operator_action.rs\<close>, \<^verbatim>\<open>run-state-sqlite/src/lib.rs\<close>) is the log of
    operation calls, and \<^verbatim>\<open>Intent_Call\<close> (\<^verbatim>\<open>engine/src/operation/intent.rs\<close>) the calls that use it, interleaved.
    \<^verbatim>\<open>Write_Log\<close> is the same log kept in the project's database, \<^verbatim>\<open>Operation_Transaction\<close> the transaction that
    holds a call's own writes and its log row, and \<^verbatim>\<open>Logged_Call\<close> the loop over the elements of a call.
  \<^item> \<^verbatim>\<open>Number_Pattern\<close> (\<^verbatim>\<open>platform/number-pattern/src/lib.rs\<close>) is the parser of document-number patterns,
    \<^verbatim>\<open>Numbering\<close> (\<^verbatim>\<open>wamn_postgres/numbering.rs\<close> and the counter functions of \<^verbatim>\<open>deploy/sql/app-schema.sql\<close>) the
    renderer and the counters, and \<^verbatim>\<open>Counter_Set\<close> (\<^verbatim>\<open>numbering/set.rs\<close>) the write of a counter.
  \<^item> \<^verbatim>\<open>Event_Wire\<close> (\<^verbatim>\<open>apps/platform/events/wire\<close>) has the JSON of row events and derived events, their message ids
    and the names of subjects, streams and consumers. \<^verbatim>\<open>Event_Match\<close> (\<^verbatim>\<open>events/registration\<close>,
    \<^verbatim>\<open>events/materializer\<close>) decides whether a trigger selects an event, and \<^verbatim>\<open>Event_Batch\<close>
    (\<^verbatim>\<open>wamn_postgres/event_batch.rs\<close>) admits the runs of one delivered event.

  \<^bold>\<open>What the lemmas show.\<close> Router: both loops return, no walk panics, a verdict is written once, and the
  walks of a compiled wiring pass the run-time checks, apart from one miscount that a counterexample
  gives. Lowering: a validated document lowers without a panic to a graph whose ports, parameters and
  digests are those its components declare. Store: each transaction is a step of the abstract life of a
  run; over every history a run is queued exactly while it is live, a terminal run is final, a second
  grant voids the first, and an idempotency key names one run. Worker: a turn is a sequence of
  transactions whatever the other executors do and whichever replies are lost, and a run that was driven
  under a kept lease settles. Redaction: no secret survives, and the reported change is exact. Intents:
  an export is started at most once for each release of its key, and a finished key answers its stored
  text for ever. Logged calls: an element's writes and its log row land together or not at all, no key
  takes effect twice, a retry answers the stored result, and a call answers its elements in order.
  Numbers: the parser reads back every spelled pattern and accepts only well-formed ones, no bare number
  is issued twice, and a counter is set once for each key. Events: what is read as an event is written
  and read back as itself, ids and names tell events, environments and clean entities apart, a trigger
  matches exactly what it selects, and an admission gives every due workflow one run, all or none, and
  can be repeated. Two documented injectivities do not hold, of subject tokens and of the joined name of
  project and environment.

  \<^bold>\<open>Interfaces.\<close> \<open>walk_driver\<close> is the contract of a driving loop, interpreted on both loops;
  \<open>store_invariant\<close> is what the worker relies on of the store, interpreted on the states that follow
  a given one. \<open>intent_contract\<close>, extended by \<open>json_intents\<close>, is what a logged call relies on of an intent
  store; the SQLite table meets it for every choice of fresh row ids, and so does the write log.

  \<^bold>\<open>Conventions.\<close> A \<^verbatim>\<open>u64\<close> is a \<^typ>\<open>64 word\<close>; counters are naturals with their bounds; a panic is
  \<^const>\<open>None\<close>, and so is a loop that does not return, which is why the loops are proved to return
  rather than assumed to. There is no fuel. A table is a list of rows, \<^verbatim>\<open>SKIP LOCKED\<close> is the list of
  locked rows, a violated constraint refuses the statement, and an instant is an integer number of
  microseconds. The hop limit bounds a walk.

  \<^bold>\<open>Assumptions.\<close> Run ids and names compare by bytes; a \<^verbatim>\<open>jsonb\<close> object is an association list, compared as
  one; trimming knows ASCII white space; an interval is rounded to the nearest microsecond; ids drawn by
  the database are fresh. The canonical digest, the decoder of a candidate world, the grant guard, the
  clock, the sleep, JMESPath and the components are parameters, and so is what the database answers for a
  date, which has six fields.

  \<^bold>\<open>Not modelled.\<close> The idle loop of the worker with its shutdown drain, and the schedule service; the guest
  loop that fetches and settles event messages, and the publication of derived events; the parsing,
  secret scan and response contract of a wiring document; the gate of a schedule admission; the file of
  the intent log; row security, grants and history triggers; and the crates around the core, which are
  process entry points, code generation, or calls to third-party clients.
\<close>

end
